(* ===== verification/Prelude.thy ===== *)
theory Prelude
  imports Main "HOL-Library.Word" "HOL-Library.Char_ord" "HOL-Library.List_Lexorder"
    "HOL-Library.AList"
begin

unbundle bit_operations_syntax

text \<open>
  Shared vocabulary of the development: bytes and Go strings, the errors the program
  returns, big-endian and little-endian integers (\<open>encoding/binary\<close>), reading from a
  buffered reader (\<open>io.ReadFull\<close>) and at an offset (\<open>ReadAt\<close>).
\<close>

section \<open>Types\<close>

type_synonym byte = "8 word"
type_synonym bytes = "byte list"

text \<open>A Go string is a sequence of bytes.\<close>

type_synonym key = bytes

definition str :: "string \<Rightarrow> bytes" where
  "str s = map of_char s"

text \<open>
  The error values of the program. \<open>Wrapped m e\<close> is \<open>fmt.Errorf("m: %v", e)\<close>,
  \<open>Message m\<close> an error made from a text alone; the others are the sentinel errors of the
  standard library and of the operating system that the code compares or passes on.
\<close>

datatype goerr =
    EmptyKey
  | KeyNotFound
  | KeyExpired
  | EOF
  | UnexpectedEOF
  | InvalidHandle
  | NoSuchFile
  | WriteFailed
  | BadNumber
  | CodecError
  | Message string
  | Wrapped string goerr

text \<open>
  What a call does: it returns a value, it returns an error, it panics (a run-time panic
  unwinds every caller, also those that discard errors), or it never returns because it
  waits on a channel that no goroutine serves.
\<close>

datatype 'a outcome = Ok 'a | Err goerr | Panic | Blocked

fun bind_outcome :: "'a outcome \<Rightarrow> ('a \<Rightarrow> 'b outcome) \<Rightarrow> 'b outcome" where
  "bind_outcome (Ok x) f = f x"
| "bind_outcome (Err e) f = Err e"
| "bind_outcome Panic f = Panic"
| "bind_outcome Blocked f = Blocked"

fun map_err :: "(goerr \<Rightarrow> goerr) \<Rightarrow> 'a outcome \<Rightarrow> 'a outcome" where
  "map_err g (Err e) = Err (g e)"
| "map_err g r = r"

definition of_option :: "goerr \<Rightarrow> 'a option \<Rightarrow> 'a outcome" where
  "of_option e x = (case x of None \<Rightarrow> Err e | Some y \<Rightarrow> Ok y)"

lemma bind_outcome_Ok: "bind_outcome r f = Ok y \<longleftrightarrow> (\<exists>x. r = Ok x \<and> f x = Ok y)"
  by (cases r) auto

lemma map_err_Ok [simp]: "map_err g r = Ok y \<longleftrightarrow> r = Ok y"
  by (cases r) auto

text \<open>Instants are nanoseconds since the epoch; \<open>Unix()\<close> is the floor to seconds.\<close>

type_synonym instant = int

definition unix :: "instant \<Rightarrow> int" where
  "unix t = t div 1000000000"

definition unix32 :: "instant \<Rightarrow> 32 word" where
  "unix32 t = word_of_int (unix t)"

section \<open>Collections of facts\<close>

named_theorems len_simps \<open>lengths of encodings\<close>
named_theorems rt_simps \<open>round trips of encodings\<close>
named_theorems frame_simps \<open>fields an operation leaves alone\<close>

section \<open>Fixed-width integers in byte order\<close>

definition put_u16 :: "16 word \<Rightarrow> bytes" where
  "put_u16 v = [ucast (drop_bit 8 v), ucast v]"

definition get_u16 :: "bytes \<Rightarrow> 16 word" where
  "get_u16 b = ucast (b ! 1) OR push_bit 8 (ucast (b ! 0))"

definition put_u32 :: "32 word \<Rightarrow> bytes" where
  "put_u32 v = [ucast (drop_bit 24 v), ucast (drop_bit 16 v), ucast (drop_bit 8 v), ucast v]"

definition get_u32 :: "bytes \<Rightarrow> 32 word" where
  "get_u32 b = ucast (b ! 3) OR push_bit 8 (ucast (b ! 2)) OR
     push_bit 16 (ucast (b ! 1)) OR push_bit 24 (ucast (b ! 0))"

definition put_u64 :: "64 word \<Rightarrow> bytes" where
  "put_u64 v = put_u32 (ucast (drop_bit 32 v)) @ put_u32 (ucast v)"

definition get_u64 :: "bytes \<Rightarrow> 64 word" where
  "get_u64 b = ucast (get_u32 (drop 4 b)) OR push_bit 32 (ucast (get_u32 b))"

definition put_u32_le :: "32 word \<Rightarrow> bytes" where
  "put_u32_le v = rev (put_u32 v)"

definition get_u32_le :: "bytes \<Rightarrow> 32 word" where
  "get_u32_le b = get_u32 (rev (take 4 b))"

lemma length_put_u16 [simp, len_simps]: "length (put_u16 v) = 2"
  by (simp add: put_u16_def)

lemma length_put_u32 [simp, len_simps]: "length (put_u32 v) = 4"
  by (simp add: put_u32_def)

lemma length_put_u64 [simp, len_simps]: "length (put_u64 v) = 8"
  by (simp add: put_u64_def)

lemma length_put_u32_le [simp, len_simps]: "length (put_u32_le v) = 4"
  by (simp add: put_u32_le_def)

lemma get_put_u16 [simp, rt_simps]: "get_u16 (put_u16 v @ r) = v"
proof (rule bit_word_eqI)
  fix n assume "n < LENGTH(16)"
  then consider "n < 8" | "8 \<le> n" "n < 16" by fastforce
  then show "bit (get_u16 (put_u16 v @ r)) n = bit v n"
    by cases (auto simp: get_u16_def put_u16_def bit_simps)
qed

lemma get_put_u32 [simp, rt_simps]: "get_u32 (put_u32 v @ r) = v"
proof (rule bit_word_eqI)
  fix n assume "n < LENGTH(32)"
  then consider "n < 8" | "8 \<le> n" "n < 16" | "16 \<le> n" "n < 24" | "24 \<le> n" "n < 32"
    by fastforce
  then show "bit (get_u32 (put_u32 v @ r)) n = bit v n"
    by cases (auto simp: get_u32_def put_u32_def bit_simps)
qed

lemma get_put_u16_exact [simp, rt_simps]: "get_u16 (put_u16 v) = v"
  using get_put_u16 [of v "[]"] by simp

lemma get_put_u32_exact [simp, rt_simps]: "get_u32 (put_u32 v) = v"
  using get_put_u32 [of v "[]"] by simp

lemma get_put_u64 [simp, rt_simps]: "get_u64 (put_u64 v @ r) = v"
proof (rule bit_word_eqI)
  fix n assume "n < LENGTH(64)"
  then consider "n < 32" | "32 \<le> n" "n < 64" by fastforce
  then show "bit (get_u64 (put_u64 v @ r)) n = bit v n"
    by cases (auto simp: get_u64_def put_u64_def bit_simps)
qed

lemma get_put_u64_exact [simp, rt_simps]: "get_u64 (put_u64 v) = v"
  using get_put_u64 [of v "[]"] by simp

lemma get_put_u32_le [simp, rt_simps]: "get_u32_le (put_u32_le v @ r) = v"
  by (simp add: get_u32_le_def put_u32_le_def)

lemma get_put_u32_le_exact [simp, rt_simps]: "get_u32_le (put_u32_le v) = v"
  using get_put_u32_le [of v "[]"] by simp

lemma put_u32_inject [simp]: "put_u32 a = put_u32 b \<longleftrightarrow> a = b"
  by (metis get_put_u32_exact)

lemma put_u64_inject [simp]: "put_u64 a = put_u64 b \<longleftrightarrow> a = b"
  by (metis get_put_u64_exact)

lemma unat_of_nat_small: "n < 2 ^ LENGTH('a) \<Longrightarrow> unat (of_nat n :: 'a::len word) = n"
  by (simp add: unsigned_of_nat take_bit_nat_eq_self)

section \<open>Reading\<close>

text \<open>
  \<open>io.ReadFull\<close> on a reader that still holds \<open>bs\<close>: \<open>EOF\<close> when nothing is left,
  \<open>UnexpectedEOF\<close> after a short read; the bytes that were there are consumed either way.
\<close>

definition read_full :: "nat \<Rightarrow> bytes \<Rightarrow> (bytes outcome) \<times> bytes" where
  "read_full n bs =
     (if n \<le> length bs then (Ok (take n bs), drop n bs)
      else if bs = [] then (Err EOF, []) else (Err UnexpectedEOF, []))"

text \<open>Sequencing reads: the first failure is the result, with the reader where it stopped.\<close>

fun read_bind ::
  "'a outcome \<times> bytes \<Rightarrow> ('a \<Rightarrow> bytes \<Rightarrow> 'b outcome \<times> bytes) \<Rightarrow> 'b outcome \<times> bytes" where
  "read_bind (Ok x, r) f = f x r"
| "read_bind (Err e, r) f = (Err e, r)"
| "read_bind (Panic, r) f = (Panic, r)"
| "read_bind (Blocked, r) f = (Blocked, r)"

lemma read_bind_Ok:
  "read_bind m f = (Ok y, r) \<longleftrightarrow> (\<exists>x r'. m = (Ok x, r') \<and> f x r' = (Ok y, r))"
  by (cases m; cases "fst m") auto

lemma read_full_append [simp]: "length xs = n \<Longrightarrow> read_full n (xs @ r) = (Ok xs, r)"
  by (simp add: read_full_def)

lemma read_full_rest_le: "length (snd (read_full n bs)) \<le> length bs"
  by (simp add: read_full_def)

lemma read_full_rest_less: "0 < n \<Longrightarrow> bs \<noteq> [] \<Longrightarrow> length (snd (read_full n bs)) < length bs"
  by (simp add: read_full_def)

lemma read_full_ok: "read_full n bs = (Ok xs, r) \<longleftrightarrow> bs = xs @ r \<and> length xs = n"
  by (auto simp: read_full_def)

lemma read_full_err: "read_full n bs = (Err e, r) \<Longrightarrow> r = [] \<and> length bs < n"
  by (auto simp: read_full_def split: if_splits)

lemma read_full_EOF: "read_full n bs = (Err EOF, r) \<Longrightarrow> bs = []"
  by (auto simp: read_full_def split: if_splits)

text \<open>\<open>byte_slice off n bs\<close> is the Go expression \<open>bs[off:off+n]\<close> where it is in range.\<close>

definition byte_slice :: "nat \<Rightarrow> nat \<Rightarrow> bytes \<Rightarrow> bytes" where
  "byte_slice off n bs = take n (drop off bs)"

lemma length_byte_slice [simp]: "off + n \<le> length bs \<Longrightarrow> length (byte_slice off n bs) = n"
  by (simp add: byte_slice_def)

lemma byte_slice_append_left [simp]: "off + n \<le> length xs \<Longrightarrow> byte_slice off n (xs @ ys) = byte_slice off n xs"
  by (simp add: byte_slice_def)

lemma byte_slice_append_right: "byte_slice (length xs + off) n (xs @ ys) = byte_slice off n ys"
  by (simp add: byte_slice_def)

lemma byte_slice_at_end [simp]: "length ys = n \<Longrightarrow> byte_slice (length xs) n (xs @ ys) = ys"
  using byte_slice_append_right [of xs 0 n ys] by (simp add: byte_slice_def)

lemma byte_slice_middle: "length v = n \<Longrightarrow> length xs = off \<Longrightarrow> byte_slice off n (xs @ v @ ys) = v"
  by (simp add: byte_slice_def)

lemma byte_slice_slice: "a + n \<le> m \<Longrightarrow> byte_slice a n (byte_slice b m bs) = byte_slice (b + a) n bs"
  by (simp add: byte_slice_def drop_take min_def add.commute)

text \<open>
  \<open>(*os.File).ReadAt\<close> into a buffer of \<open>n\<close> bytes at the signed 64-bit offset \<open>off\<close>:
  a negative offset is refused, a read of no bytes succeeds anywhere, a short read is
  \<open>EOF\<close>. The bytes that a short read does deliver are \<open>read_at_partial\<close>.
\<close>

definition read_at :: "bytes \<Rightarrow> int \<Rightarrow> nat \<Rightarrow> bytes outcome" where
  "read_at bs off n =
     (if off < 0 then Err (Message ''negative offset'')
      else if nat off + n \<le> length bs \<or> n = 0 then Ok (byte_slice (nat off) n bs)
      else Err EOF)"

definition read_at_partial :: "bytes \<Rightarrow> int \<Rightarrow> nat \<Rightarrow> bytes" where
  "read_at_partial bs off n = (if off < 0 then [] else byte_slice (nat off) n bs)"

lemma read_at_ok:
  "0 \<le> off \<Longrightarrow> nat off + n \<le> length bs \<Longrightarrow> read_at bs off n = Ok (byte_slice (nat off) n bs)"
  by (simp add: read_at_def)

text \<open>Filling the rest of a freshly made buffer leaves its zeros.\<close>

definition zero_fill :: "nat \<Rightarrow> bytes \<Rightarrow> bytes" where
  "zero_fill n bs = bs @ replicate (n - length bs) 0"

lemma length_zero_fill [simp]: "length bs \<le> n \<Longrightarrow> length (zero_fill n bs) = n"
  by (simp add: zero_fill_def)

lemma subset_one:
  assumes "set xs \<subseteq> {x}" "distinct xs"
  shows "xs = [] \<or> xs = [x]"
  using assms by (cases xs; cases "tl xs") auto

text \<open>Replacing one element of a list: sums, filters and members.\<close>

lemma sum_update:
  assumes "i < length xs"
  shows "sum_list (map f (xs[i := x])) + f (xs ! i) = sum_list (map f xs) + (f x :: nat)"
proof -
  have "f (xs ! i) \<le> sum_list (map f xs)" using elem_le_sum_list [of i "map f xs"] assms by simp
  then show ?thesis using assms by (simp add: map_update sum_list_update)
qed

lemma filter_update:
  assumes "i < length xs"
  shows "length (filter p (xs[i := x])) + (if p (xs ! i) then 1 else 0) = length (filter p xs) + (if p x then 1 else 0)"
proof -
  have "length (filter p ys) = sum_list (map (\<lambda>y. if p y then 1 else 0) ys)" for ys by (induction ys) simp_all
  then show ?thesis using sum_update [OF assms, of "\<lambda>y. if p y then 1 else 0" x] by simp
qed

lemma set_update: "y \<in> set (xs[i := x]) \<Longrightarrow> y = x \<or> y \<in> set xs"
  using set_update_subset_insert by fastforce

lemma sint_small: 
  assumes "unat (w :: 64 word) < 2 ^ 63" shows "sint w = int (unat w)"
proof -
  have u: "uint w < 2 ^ 63"
    unfolding uint_nat using assms of_nat_less_numeral_power_cancel_iff by blast
  have "signed_take_bit 63 (uint w) = uint w"
    by (rule signed_take_bit_int_eq_self, rule order_trans [OF _ uint_nonnegative], simp, rule u)
  then have "sint w = uint w" by (simp add: sint_uint)
  then show ?thesis unfolding uint_nat .
qed
lemma unat_ucast_32_64: "unat (ucast (x :: 32 word) :: 64 word) = unat x"
proof -
  have "unat x < 2 ^ LENGTH(32)" by (rule unsigned_less)
  then have "unat x < 2 ^ 64" by simp
  then show ?thesis by (simp add: unsigned_ucast_eq take_bit_nat_eq_self)
qed

end
