(* ===== verification/Framing.thy ===== *)
theory Framing
  imports Prelude
begin

text \<open>
  Two interfaces that several components share. A \<open>frame_codec\<close> is a self-delimiting
  encoding read from a stream: decoding what an encoder wrote gives the value back and
  leaves the rest of the stream untouched. A \<open>byte_fold\<close> is a running check value
  whose step is injective in the state and in the byte.
\<close>

section \<open>Self-delimiting encodings\<close>

text \<open>Reading a fixed number of frames, one after the other.\<close>

fun read_n :: "nat \<Rightarrow> (bytes \<Rightarrow> 'a outcome \<times> bytes) \<Rightarrow> bytes \<Rightarrow> 'a list outcome \<times> bytes" where
  "read_n 0 dec bs = (Ok [], bs)"
| "read_n (Suc n) dec bs =
     read_bind (dec bs) (\<lambda>x r.
     read_bind (read_n n dec r) (\<lambda>xs r'. (Ok (x # xs), r')))"

locale frame_codec =
  fixes enc :: "'a \<Rightarrow> bytes"
    and dec :: "bytes \<Rightarrow> 'a outcome \<times> bytes"
    and ok :: "'a \<Rightarrow> bool"
  assumes dec_enc: "ok x \<Longrightarrow> dec (enc x @ r) = (Ok x, r)"
    and dec_eof: "dec [] = (Err EOF, [])"
begin

lemma enc_nonempty: "ok x \<Longrightarrow> enc x \<noteq> []"
proof
  assume "ok x" and "enc x = []"
  then have "dec [] = (Ok x, [])" using dec_enc [of x "[]"] by simp
  then show False by (simp add: dec_eof)
qed

lemma unique_frame: "ok x \<Longrightarrow> ok y \<Longrightarrow> enc x @ r = enc y @ s \<Longrightarrow> x = y \<and> r = s"
  using dec_enc [of x r] dec_enc [of y s] by (metis outcome.inject(1) prod.inject)

lemma not_proper_prefix: "ok x \<Longrightarrow> ok y \<Longrightarrow> enc y = enc x @ t \<Longrightarrow> t = []"
  using unique_frame [of x y t "[]"] by simp

lemma unique_frames:
  "\<forall>x \<in> set xs. ok x \<Longrightarrow> \<forall>y \<in> set ys. ok y \<Longrightarrow>
   concat (map enc xs) = concat (map enc ys) \<Longrightarrow> xs = ys"
proof (induction xs arbitrary: ys)
  case Nil
  then show ?case by (cases ys) (simp_all add: enc_nonempty)
next
  case (Cons x xs)
  have "enc x \<noteq> []" using Cons.prems(1) enc_nonempty by simp
  then obtain y zs where ys: "ys = y # zs"
    using Cons.prems(3) by (cases ys) simp_all
  then have "x = y \<and> concat (map enc xs) = concat (map enc zs)"
    using Cons.prems(1) Cons.prems(2) Cons.prems(3)
    by (intro unique_frame) (simp_all add: ys)
  moreover have "\<forall>a \<in> set xs. ok a" and "\<forall>a \<in> set zs. ok a"
    using Cons.prems(1,2) by (simp_all add: ys)
  ultimately have "xs = zs" and "x = y" using Cons.IH by blast+
  then show ?case by (simp add: ys)
qed

lemma read_frames:
  "\<forall>x \<in> set xs. ok x \<Longrightarrow>
   read_n (length xs) dec (concat (map enc xs) @ r) = (Ok xs, r)"
  by (induction xs) (simp_all add: dec_enc)

end

section \<open>Injective running checks\<close>

locale byte_fold =
  fixes step :: "'s \<Rightarrow> byte \<Rightarrow> 's"
  assumes step_state: "step s b = step s' b \<Longrightarrow> s = s'"
    and step_byte: "step s b = step s b' \<Longrightarrow> b = b'"
begin

lemma fold_state: "foldl step s bs = foldl step s' bs \<Longrightarrow> s = s'"
  by (induction bs arbitrary: s s') (auto dest: step_state)

lemma fold_detects: "b \<noteq> b' \<Longrightarrow> foldl step s (xs @ b # ys) \<noteq> foldl step s (xs @ b' # ys)"
  using fold_state [of "step (foldl step s xs) b" ys "step (foldl step s xs) b'"]
    step_byte [of "foldl step s xs" b b'] by auto

end

end
