(* ===== verification/Crc32.thy ===== *)
theory Crc32
  imports Framing
begin

unbundle bit_operations_syntax

text \<open>
  \<open>crc32.go\<close>: the wrapper around the standard library's CRC-32 (IEEE polynomial), with
  \<open>hash/crc32\<close>'s table-driven update written out. The step is shown injective in both
  arguments (the table look-up is eight rounds of a linear bijection), so any change
  confined to one byte changes the check value.
\<close>

section \<open>\<open>hash/crc32\<close>: the IEEE table and the update loop\<close>

definition crc_round :: "32 word \<Rightarrow> 32 word" where
  "crc_round c = (if bit c 0 then drop_bit 1 c XOR 0xEDB88320 else drop_bit 1 c)"

definition IEEETable :: "byte \<Rightarrow> 32 word" where
  "IEEETable b = (crc_round ^^ 8) (ucast b)"

definition crc_step :: "32 word \<Rightarrow> byte \<Rightarrow> 32 word" where
  "crc_step crc v = IEEETable (ucast crc XOR v) XOR drop_bit 8 crc"

section \<open>\<open>CRC32\<close> (crc32.go)\<close>

definition CRC32_Update :: "32 word \<Rightarrow> bytes \<Rightarrow> 32 word" where
  "CRC32_Update crc data = NOT (foldl crc_step (NOT crc) data)"

definition CRC32_Sum32 :: "bytes \<Rightarrow> 32 word" where
  "CRC32_Sum32 data = CRC32_Update 0 data"

definition CRC32_Checksum :: "bytes \<Rightarrow> 32 word" where
  "CRC32_Checksum data = CRC32_Sum32 data"

section \<open>The step is injective\<close>

lemma crc_round_xor: "crc_round (a XOR b) = crc_round a XOR crc_round b"
  by (rule bit_word_eqI) (auto simp: crc_round_def bit_simps)

lemma crc_rounds_xor: "(crc_round ^^ n) (a XOR b) = (crc_round ^^ n) a XOR (crc_round ^^ n) b"
  by (induction n) (simp_all add: crc_round_xor)

lemma crc_round_inj: "crc_round a = crc_round b \<Longrightarrow> a = b"
proof (rule bit_word_eqI)
  fix n assume eq: "crc_round a = crc_round b" and n: "n < LENGTH(32)"
  have top: "bit (crc_round c) 31 = bit c 0" for c
    using bit_imp_le_length [of c 32] by (auto simp: crc_round_def bit_simps)
  from eq top have b0: "bit a 0 = bit b 0" by metis
  show "bit a n = bit b n"
  proof (cases n)
    case 0
    with b0 show ?thesis by simp
  next
    case (Suc m)
    from eq have "bit (crc_round a) m = bit (crc_round b) m" by simp
    with b0 Suc n show ?thesis
      by (auto simp: crc_round_def bit_simps split: if_splits)
  qed
qed

lemma crc_rounds_inj: "(crc_round ^^ n) a = (crc_round ^^ n) b \<Longrightarrow> a = b"
  by (induction n) (auto dest: crc_round_inj)

lemma crc_round_shifted: "\<not> bit c 0 \<Longrightarrow> crc_round c = drop_bit 1 c"
  by (simp add: crc_round_def)

lemma crc_rounds_shifted: "n \<le> k \<Longrightarrow> (crc_round ^^ n) (push_bit k c) = drop_bit n (push_bit k c)"
proof (induction n)
  case (Suc n)
  have "\<not> bit (drop_bit n (push_bit k c)) 0"
    using Suc.prems by (simp add: bit_simps)
  with Suc show ?case by (simp add: crc_round_shifted)
qed simp

lemma low_high_split: "(x :: 32 word) = ucast (ucast x :: byte) XOR push_bit 8 (drop_bit 8 x)"
  by (rule bit_word_eqI) (auto simp: bit_simps dest: bit_imp_le_length)

lemma push_drop_byte: "drop_bit 8 (push_bit 8 (drop_bit 8 (x :: 32 word))) = drop_bit 8 x"
  by (rule bit_word_eqI) (auto simp: bit_simps dest: bit_imp_le_length)

text \<open>The table-driven step is eight rounds on the state with the byte mixed in.\<close>

lemma crc_rounds_split: "(crc_round ^^ 8) x = IEEETable (ucast x) XOR drop_bit 8 x"
proof -
  have "(crc_round ^^ 8) x
      = (crc_round ^^ 8) (ucast (ucast x :: byte)) XOR (crc_round ^^ 8) (push_bit 8 (drop_bit 8 x))"
    using low_high_split [of x] crc_rounds_xor by metis
  then show ?thesis
    by (simp add: IEEETable_def crc_rounds_shifted push_drop_byte)
qed

lemma crc_step_rounds: "crc_step c v = (crc_round ^^ 8) (c XOR ucast v)"
proof -
  have "drop_bit 8 (c XOR ucast v) = drop_bit 8 c"
    by (rule bit_word_eqI) (auto simp: bit_simps dest: bit_imp_le_length)
  moreover have "(ucast (c XOR ucast v) :: byte) = ucast c XOR v"
    by (rule bit_word_eqI) (auto simp: bit_simps)
  ultimately show ?thesis
    using crc_rounds_split [of "c XOR ucast v"] by (simp add: crc_step_def)
qed

lemma ucast_byte_back: "(ucast (ucast (b :: byte) :: 32 word) :: byte) = b"
  by (rule bit_word_eqI) (auto simp: bit_simps)

lemma xor_right_cancel: "(a :: 'a::len word) XOR c = b XOR c \<Longrightarrow> a = b"
  by (metis xor.assoc xor.right_neutral xor_self_eq)

interpretation crc: byte_fold crc_step
proof unfold_locales
  fix s s' b assume "crc_step s b = crc_step s' b"
  then show "s = s'"
    by (auto simp: crc_step_rounds dest!: crc_rounds_inj intro: xor_right_cancel)
next
  fix s b b' assume "crc_step s b = crc_step s b'"
  then have "s XOR ucast b = s XOR ucast b'"
    by (auto simp: crc_step_rounds dest!: crc_rounds_inj)
  then have "(ucast b :: 32 word) = ucast b'"
    by (metis xor.commute xor_right_cancel)
  then show "b = b'"
    by (metis ucast_byte_back)
qed

text \<open>Feeding the data in two pieces gives the check value of the whole.\<close>

lemma CRC32_Update_append: "CRC32_Update (CRC32_Update c xs) ys = CRC32_Update c (xs @ ys)"
  by (simp add: CRC32_Update_def)

lemma CRC32_Sum32_detects:
  "b \<noteq> b' \<Longrightarrow> CRC32_Sum32 (xs @ b # ys) \<noteq> CRC32_Sum32 (xs @ b' # ys)"
  using crc.fold_detects [of b b' "NOT 0" xs ys]
  by (simp add: CRC32_Sum32_def CRC32_Update_def)

section \<open>The bit-serial reference\<close>

text \<open>CRC-32 as its definition reads: one bit of the message after the other, lowest bit of a byte first,
  through a shift register with the reflected polynomial.\<close>

definition crc_bit :: "32 word \<Rightarrow> bool \<Rightarrow> 32 word" where
  "crc_bit c b = (if bit c 0 \<noteq> b then drop_bit 1 c XOR 0xEDB88320 else drop_bit 1 c)"

definition message_bits :: "bytes \<Rightarrow> bool list" where
  "message_bits data = concat (map (\<lambda>v. map (bit v) [0..<8]) data)"

definition crc_bitwise :: "bytes \<Rightarrow> 32 word" where
  "crc_bitwise data = NOT (foldl crc_bit (NOT 0) (message_bits data))"

lemma crc_bit_round: "crc_bit c b = crc_round (c XOR (if b then 1 else 0))"
proof -
  have "drop_bit 1 (c XOR 1) = drop_bit 1 c" by (rule bit_word_eqI) (auto simp: bit_simps)
  then show ?thesis by (simp add: crc_bit_def crc_round_def bit_simps)
qed

lemma crc_bits_rounds:
  "n < 32 \<Longrightarrow> foldl crc_bit c (map (bit w) [0..<n]) = (crc_round ^^ n) (c XOR take_bit n (w :: 32 word))"
proof (induction n)
  case (Suc n)
  have t: "take_bit (Suc n) w = take_bit n w XOR (if bit w n then push_bit n 1 else 0)"
    by (rule bit_word_eqI) (auto simp: bit_simps less_Suc_eq)
  have "(crc_round ^^ n) (push_bit n 1) = drop_bit n (push_bit n 1)" by (rule crc_rounds_shifted) simp
  moreover have "drop_bit n (push_bit n (1 :: 32 word)) = 1"
    using Suc.prems by (intro bit_word_eqI) (auto simp: bit_simps)
  moreover have "(crc_round ^^ n) 0 = 0" by (induction n) (simp_all add: crc_round_def)
  ultimately have "(crc_round ^^ n) (c XOR take_bit (Suc n) w) =
      (crc_round ^^ n) (c XOR take_bit n w) XOR (if bit w n then 1 else 0)"
    by (simp add: t crc_rounds_xor flip: xor.assoc)
  then show ?case using Suc by (simp add: crc_bit_round)
qed simp

lemma crc_byte_bits: "foldl crc_bit c (map (bit v) [0..<8]) = crc_step c v"
proof -
  have "map (bit v) [0..<8] = map (bit (ucast v :: 32 word)) [0..<8]" by (simp add: bit_simps)
  moreover have "take_bit 8 (ucast v :: 32 word) = ucast v"
    by (rule bit_word_eqI) (auto simp: bit_simps dest: bit_imp_le_length)
  ultimately show ?thesis
    using crc_bits_rounds [of 8 c "ucast v"] by (simp only: crc_step_rounds)
qed

lemma crc_message_bits: "foldl crc_bit c (message_bits data) = foldl crc_step c data"
  by (induction data arbitrary: c) (simp_all add: message_bits_def crc_byte_bits del: upt_Suc)

end
