(* ===== verification/EntryFormat.thy ===== *)
theory EntryFormat
  imports Crc32
begin

text \<open>
  \<open>entry.go\<close>: the record written to a data file for every put and delete, its
  serialisation, the streaming reader that parses it back, and the checksum over it. The
  main facts are the round trip of the format (also as an instance of \<open>frame_codec\<close>, so a
  data file has at most one reading) and the detection of single-byte corruption.
\<close>

section \<open>Data\<close>

text \<open>
  \<open>CompressionType\<close> is a byte; values other than the named ones can be read from a file
  and fall into the \<open>default\<close> branch of every switch.
\<close>

type_synonym CompressionType = "8 word"

abbreviation (input) NoCompression :: CompressionType where "NoCompression \<equiv> 0"
abbreviation (input) SnappyCompression :: CompressionType where "SnappyCompression \<equiv> 1"
abbreviation (input) ZSTDCompression :: CompressionType where "ZSTDCompression \<equiv> 2"
abbreviation (input) GzipCompression :: CompressionType where "GzipCompression \<equiv> 3"
abbreviation (input) MixedCompression :: CompressionType where "MixedCompression \<equiv> 4"
abbreviation (input) ParallelCompression :: CompressionType where "ParallelCompression \<equiv> 5"
abbreviation (input) StreamCompression :: CompressionType where "StreamCompression \<equiv> 6"

record Entry =
  eCRC :: "32 word"
  eTimestamp :: "32 word"
  eTTL :: "32 word"
  eKeySize :: "16 word"
  eValueSize :: "32 word"
  eCompression :: CompressionType
  eKey :: bytes
  eValue :: bytes

record KeyDir =
  FileID :: "32 word"
  ValueSize :: "32 word"
  ValuePos :: "64 word"
  Timestamp :: "32 word"
  TTL :: "32 word"
  Compression :: CompressionType
  Deleted :: bool

definition HeaderSize :: nat where
  "HeaderSize = 19"

definition TombstoneValue :: bytes where
  "TombstoneValue = str ''__DELETED__''"

section \<open>Writing\<close>

text \<open>\<open>copy(buf[a:a+n], src)\<close> into zeroed memory copies as many bytes as both sides have.\<close>

definition copy_field :: "nat \<Rightarrow> bytes \<Rightarrow> bytes" where
  "copy_field n src = zero_fill n (take n src)"

definition serializeEntry :: "Entry \<Rightarrow> bytes" where
  "serializeEntry e =
     put_u32 (eCRC e) @ put_u32 (eTimestamp e) @ put_u32 (eTTL e) @ put_u16 (eKeySize e) @
     put_u32 (eValueSize e) @ [eCompression e] @
     copy_field (unat (eKeySize e)) (eKey e) @
     copy_field (unat (eValueSize e)) (eValue e)"

text \<open>The sizes in the header are the sizes of the key and the value.\<close>

definition entry_sized :: "Entry \<Rightarrow> bool" where
  "entry_sized e \<longleftrightarrow> length (eKey e) = unat (eKeySize e) \<and> length (eValue e) = unat (eValueSize e)"

lemma length_copy_field [simp, len_simps]: "length (copy_field n src) = n"
  by (simp add: copy_field_def zero_fill_def)

lemma copy_field_exact [simp]: "length src = n \<Longrightarrow> copy_field n src = src"
  by (simp add: copy_field_def zero_fill_def)

lemma length_serializeEntry [simp, len_simps]:
  "length (serializeEntry e) = HeaderSize + unat (eKeySize e) + unat (eValueSize e)"
  by (simp add: serializeEntry_def HeaderSize_def)

section \<open>Reading\<close>

text \<open>The header fields at their offsets, as \<open>readEntry\<close> decodes them.\<close>

definition decode_header :: "bytes \<Rightarrow> Entry" where
  "decode_header h =
     \<lparr>eCRC = get_u32 (byte_slice 0 4 h), eTimestamp = get_u32 (byte_slice 4 4 h),
      eTTL = get_u32 (byte_slice 8 4 h), eKeySize = get_u16 (byte_slice 12 2 h),
      eValueSize = get_u32 (byte_slice 14 4 h), eCompression = h ! 18,
      eKey = [], eValue = []\<rparr>"

text \<open>A field of size 0 is not read, so it cannot fail at the end of the file.\<close>

definition read_field :: "nat \<Rightarrow> bytes \<Rightarrow> bytes outcome \<times> bytes" where
  "read_field n r = (if 0 < n then read_full n r else (Ok [], r))"

definition readEntry :: "bytes \<Rightarrow> (Entry \<times> nat) outcome \<times> bytes" where
  "readEntry r =
     read_bind (read_full HeaderSize r) (\<lambda>header r1.
     let e = decode_header header in
     read_bind (read_field (unat (eKeySize e)) r1) (\<lambda>k r2.
     read_bind (read_field (unat (eValueSize e)) r2) (\<lambda>v r3.
       (Ok (e\<lparr>eKey := k, eValue := v\<rparr>,
            HeaderSize + unat (eKeySize e) + unat (eValueSize e)), r3))))"

lemma read_field_append [simp]: "length xs = n \<Longrightarrow> read_field n (xs @ r) = (Ok xs, r)"
  by (auto simp: read_field_def)

lemma decode_header_encoded [rt_simps]:
  "decode_header (put_u32 c @ put_u32 t @ put_u32 l @ put_u16 ks @ put_u32 vs @ [ct]) =
     \<lparr>eCRC = c, eTimestamp = t, eTTL = l, eKeySize = ks, eValueSize = vs, eCompression = ct,
      eKey = [], eValue = []\<rparr>"
  by (simp add: decode_header_def byte_slice_def nth_append)

lemma readEntry_serializeEntry [rt_simps]:
  assumes "entry_sized e"
  shows "readEntry (serializeEntry e @ r) =
    (Ok (e, HeaderSize + unat (eKeySize e) + unat (eValueSize e)), r)"
proof -
  let ?h = "put_u32 (eCRC e) @ put_u32 (eTimestamp e) @ put_u32 (eTTL e) @
     put_u16 (eKeySize e) @ put_u32 (eValueSize e) @ [eCompression e]"
  have "serializeEntry e @ r = ?h @ (eKey e @ (eValue e @ r))"
    using assms by (simp add: serializeEntry_def entry_sized_def)
  moreover have "length ?h = HeaderSize" by (simp add: HeaderSize_def)
  ultimately show ?thesis
    using assms
    by (simp only: readEntry_def read_full_append read_bind.simps decode_header_encoded Let_def)
      (simp add: entry_sized_def)
qed

lemma readEntry_progress: "readEntry r = (res, r') \<Longrightarrow> r \<noteq> [] \<Longrightarrow> length r' < length r"
proof -
  assume a: "readEntry r = (res, r')" and "r \<noteq> []"
  have f: "length (snd (read_field n x)) \<le> length x" for n x
    by (simp add: read_field_def read_full_rest_le)
  have b: "length (snd (read_bind m k)) \<le> n"
    if "length (snd m) \<le> n" and "\<And>x. length (snd (k x (snd m))) \<le> n"
    for m :: "'x outcome \<times> bytes" and k :: "'x \<Rightarrow> bytes \<Rightarrow> 'y outcome \<times> bytes" and n
    using that by (cases m; cases "fst m") auto
  let ?r1 = "snd (read_full HeaderSize r)"
  have "length (snd (readEntry r)) \<le> length ?r1"
    unfolding readEntry_def Let_def
    by (intro b order_refl order_trans [OF f] f) (auto intro: order_trans [OF f f])
  also have "\<dots> < length r"
    using \<open>r \<noteq> []\<close> by (intro read_full_rest_less) (simp_all add: HeaderSize_def)
  finally show ?thesis using a by simp
qed

lemma readEntry_nil [simp]: "readEntry [] = (Err EOF, [])"
  by (simp add: readEntry_def read_full_def HeaderSize_def)

lemma readEntry_no_panic: "fst (readEntry r) \<noteq> Panic \<and> fst (readEntry r) \<noteq> Blocked"
  by (auto simp: readEntry_def read_field_def read_full_def Let_def)

text \<open>An error leaves nothing in the reader.\<close>

lemma readEntry_err: "readEntry r = (Err x, r') \<Longrightarrow> r' = []"
  by (auto simp: readEntry_def read_field_def read_full_def Let_def split: if_splits)

lemma readEntry_sized: "readEntry r = (Ok (e, n), r') \<Longrightarrow> entry_sized e"
  by (auto simp: readEntry_def read_field_def read_full_def Let_def entry_sized_def
      decode_header_def split: if_splits)

definition decode_entry :: "bytes \<Rightarrow> Entry outcome \<times> bytes" where
  "decode_entry r = read_bind (readEntry r) (\<lambda>(e, _) r'. (Ok e, r'))"

interpretation entry: frame_codec serializeEntry decode_entry entry_sized
  by unfold_locales (simp_all add: decode_entry_def readEntry_serializeEntry)

section \<open>Checksum\<close>

text \<open>The bytes the checksum covers: every field but the checksum itself.\<close>

definition crc_input :: "Entry \<Rightarrow> bytes" where
  "crc_input e =
     put_u32 (eTimestamp e) @ put_u32 (eTTL e) @ put_u16 (eKeySize e) @
     put_u32 (eValueSize e) @ [eCompression e] @ eKey e @ eValue e"

definition calculateCRC :: "Entry \<Rightarrow> 32 word" where
  "calculateCRC e = CRC32_Sum32 (crc_input e)"

definition verifyCRC :: "Entry \<Rightarrow> bool" where
  "verifyCRC e \<longleftrightarrow> calculateCRC e = eCRC e"

lemma crc_input_upd [simp]: "crc_input (e\<lparr>eCRC := c\<rparr>) = crc_input e"
  by (simp add: crc_input_def)

lemma verifyCRC_seal [simp]: "verifyCRC (e\<lparr>eCRC := calculateCRC e\<rparr>)"
  by (simp add: verifyCRC_def calculateCRC_def)

lemma crc_input_serialized:
  "entry_sized e \<Longrightarrow> serializeEntry e = put_u32 (eCRC e) @ crc_input e"
  by (simp add: serializeEntry_def crc_input_def entry_sized_def)

text \<open>
  A record whose covered bytes were changed in one place, its stored checksum intact, is
  rejected.
\<close>

lemma verifyCRC_detects:
  assumes "verifyCRC e" and "eCRC e' = eCRC e"
    and "crc_input e = xs @ b # ys" and "crc_input e' = xs @ b' # ys" and "b \<noteq> b'"
  shows "\<not> verifyCRC e'"
  using assms CRC32_Sum32_detects [of b b' xs ys]
  by (auto simp: verifyCRC_def calculateCRC_def)

text \<open>
  A byte of the key or of the value that changes in the file: the record still parses, as
  another one, and its check value exposes it.
\<close>

lemma flipped_byte:
  assumes "entry_sized e" "verifyCRC e" "serializeEntry e = pre @ b # post"
    and "HeaderSize \<le> length pre" "b \<noteq> b'"
  obtains e' where "serializeEntry e' = pre @ b' # post" "entry_sized e'" "\<not> verifyCRC e'"
    "eKeySize e' = eKeySize e" "eValueSize e' = eValueSize e"
proof -
  define h where "h = put_u32 (eCRC e) @ put_u32 (eTimestamp e) @ put_u32 (eTTL e) @
     put_u16 (eKeySize e) @ put_u32 (eValueSize e) @ [eCompression e]"
  have h: "length h = HeaderSize" by (simp add: h_def HeaderSize_def)
  have ser: "serializeEntry x = put_u32 (eCRC x) @ put_u32 (eTimestamp x) @ put_u32 (eTTL x) @
      put_u16 (eKeySize x) @ put_u32 (eValueSize x) @ [eCompression x] @ eKey x @ eValue x"
    if "entry_sized x" for x using that by (simp add: serializeEntry_def entry_sized_def)
  define p where "p = drop HeaderSize pre"
  have split: "h @ eKey e @ eValue e = pre @ b # post"
    using ser [OF assms(1)] assms(3) by (simp add: h_def)
  then have "take HeaderSize (h @ eKey e @ eValue e) = take HeaderSize (pre @ b # post)" by (rule arg_cong)
  then have "h = take HeaderSize pre" using h assms(4) by simp
  then have pre: "pre = h @ p" by (simp add: p_def)
  with split have body: "eKey e @ eValue e = p @ b # post" by (simp only: append_assoc same_append_eq)
  define body' where "body' = p @ b' # post"
  have len: "length body' = length (eKey e) + length (eValue e)"
    using arg_cong [OF body, of length] by (simp add: body'_def)
  define e' where "e' = e\<lparr>eKey := take (length (eKey e)) body', eValue := drop (length (eKey e)) body'\<rparr>"
  have s: "entry_sized e'" using assms(1) len by (simp add: e'_def entry_sized_def)
  have "serializeEntry e' = pre @ b' # post"
    using ser [OF s] by (simp add: e'_def pre h_def body'_def [symmetric])
  moreover have "\<not> verifyCRC e'"
  proof (rule verifyCRC_detects [OF assms(2) _ _ _ assms(5)])
    let ?c = "put_u32 (eTimestamp e) @ put_u32 (eTTL e) @ put_u16 (eKeySize e) @
      put_u32 (eValueSize e) @ [eCompression e]"
    show "crc_input e = (?c @ p) @ b # post" using body by (simp add: crc_input_def)
    show "crc_input e' = (?c @ p) @ b' # post" by (simp add: crc_input_def e'_def body'_def [symmetric])
    show "eCRC e' = eCRC e" by (simp add: e'_def)
  qed
  ultimately show thesis using s by (intro that [of e']) (simp_all add: e'_def)
qed

section \<open>What can be read was written\<close>

text \<open>Every header is the image of its fields, so a record that is read has the sizes its header says.\<close>

lemma get_u32_bits: "n < 8 \<Longrightarrow> bit (get_u32 [a, b, c, d]) n = bit d n"
  "n < 8 \<Longrightarrow> bit (get_u32 [a, b, c, d]) (8 + n) = bit c n" "n < 8 \<Longrightarrow> bit (get_u32 [a, b, c, d]) (16 + n) = bit b n"
  "n < 8 \<Longrightarrow> bit (get_u32 [a, b, c, d]) (24 + n) = bit a n"
  by (auto simp: get_u32_def bit_simps dest: bit_imp_le_length)

lemma get_u16_bits: "n < 8 \<Longrightarrow> bit (get_u16 [a, b]) n = bit b n" "n < 8 \<Longrightarrow> bit (get_u16 [a, b]) (8 + n) = bit a n"
  by (auto simp: get_u16_def bit_simps dest: bit_imp_le_length)

lemma put_get_u32: "put_u32 (get_u32 [a, b, c, d]) = [a, b, c, d]"
  unfolding put_u32_def list.inject
  by (intro conjI bit_word_eqI) (simp_all add: bit_unsigned_iff bit_drop_bit_eq get_u32_bits)

lemma put_get_u16: "put_u16 (get_u16 [a, b]) = [a, b]"
  unfolding put_u16_def list.inject
  by (intro conjI bit_word_eqI) (simp_all add: bit_unsigned_iff bit_drop_bit_eq get_u16_bits)

lemma four_bytes: "length x = 4 \<Longrightarrow> \<exists>a b c d. x = [a, b, c, d]"
  and two_bytes: "length x = 2 \<Longrightarrow> \<exists>a b. x = [a, b]"
  by (auto simp: numeral_eq_Suc length_Suc_conv)

lemma put_get_field: "length x = 4 \<Longrightarrow> put_u32 (get_u32 x) = x" "length y = 2 \<Longrightarrow> put_u16 (get_u16 y) = y"
  using four_bytes [of x] two_bytes [of y] by (auto simp: put_get_u32 put_get_u16)

lemma header_fields:
  assumes "length h = HeaderSize"
  shows "put_u32 (eCRC (decode_header h)) @ put_u32 (eTimestamp (decode_header h)) @ put_u32 (eTTL (decode_header h)) @
    put_u16 (eKeySize (decode_header h)) @ put_u32 (eValueSize (decode_header h)) @ [eCompression (decode_header h)] = h"
proof -
  have l: "length h = 19" using assms by (simp add: HeaderSize_def)
  have "byte_slice 0 4 h @ byte_slice 4 4 h @ byte_slice 8 4 h @ byte_slice 12 2 h @ byte_slice 14 4 h @ [h ! 18] = h"
  proof (rule nth_equalityI)
    fix i assume "i < length (byte_slice 0 4 h @ byte_slice 4 4 h @ byte_slice 8 4 h @ byte_slice 12 2 h @ byte_slice 14 4 h @ [h ! 18])"
    then have "i < 19" using l by (simp add: byte_slice_def)
    then show "(byte_slice 0 4 h @ byte_slice 4 4 h @ byte_slice 8 4 h @ byte_slice 12 2 h @ byte_slice 14 4 h @ [h ! 18]) ! i = h ! i"
      using l by (cases "i = 18") (auto simp: byte_slice_def nth_append)
  qed (use l in \<open>simp add: byte_slice_def\<close>)
  then show ?thesis using l by (simp add: decode_header_def put_get_field byte_slice_def)
qed

lemma read_field_Ok: "read_field n bs = (Ok x, r) \<Longrightarrow> bs = x @ r \<and> length x = n"
  by (auto simp: read_field_def read_full_ok split: if_splits)

lemma readEntry_image:
  assumes "readEntry bs = (Ok (e, n), r)"
  shows "entry_sized e" "bs = serializeEntry e @ r" "n = length (serializeEntry e)"
proof -
  obtain h r1 k r2 v where h: "read_full HeaderSize bs = (Ok h, r1)" "read_field (unat (eKeySize (decode_header h))) r1 = (Ok k, r2)"
    "read_field (unat (eValueSize (decode_header h))) r2 = (Ok v, r)" "e = (decode_header h)\<lparr>eKey := k, eValue := v\<rparr>"
    "n = HeaderSize + unat (eKeySize (decode_header h)) + unat (eValueSize (decode_header h))"
    using assms by (auto simp: readEntry_def read_bind_Ok Let_def)
  note f = h(1) [unfolded read_full_ok] read_field_Ok [OF h(2)] read_field_Ok [OF h(3)]
  show "entry_sized e" using f by (simp add: entry_sized_def h(4))
  have "serializeEntry e = h @ k @ v"
    using header_fields [of h] f by (simp add: serializeEntry_def h(4))
  then show "bs = serializeEntry e @ r" "n = length (serializeEntry e)" using f by (simp_all add: h(4,5))
qed

end
