(* ===== verification/Decimal.thy ===== *)
theory Decimal
  imports Prelude "HOL-Library.Multiset"
begin

text \<open>
  Decimal numerals as \<open>fmt.Sprintf("%d")\<close> prints them and \<open>strconv.ParseUint\<close> and
  \<open>strconv.Atoi\<close> read them, with the round trip between the two; \<open>strings.TrimSuffix\<close>;
  and the insertion sort that \<open>sort.Slice\<close> performs with a caller's comparison.
\<close>

section \<open>Printing\<close>

fun show_nat :: "nat \<Rightarrow> bytes" where
  "show_nat n = (if n < 10 then [48 + of_nat n]
     else show_nat (n div 10) @ [48 + of_nat (n mod 10)])"

declare show_nat.simps [simp del]

lemma show_nat_digit: "n < 10 \<Longrightarrow> show_nat n = [48 + of_nat n]"
  by (subst show_nat.simps) simp

definition show_int :: "int \<Rightarrow> bytes" where
  "show_int i = (if i < 0 then 45 # show_nat (nat (- i)) else show_nat (nat i))"

definition is_digit :: "byte \<Rightarrow> bool" where
  "is_digit b \<longleftrightarrow> 48 \<le> b \<and> b \<le> 57"

lemma of_nat_digit: "d < 10 \<Longrightarrow> is_digit (48 + of_nat d)"
proof -
  assume "d < 10"
  then have "d \<in> {0, 1, 2, 3, 4, 5, 6, 7, 8, 9}" by auto
  then show ?thesis by (auto simp: is_digit_def)
qed

lemma show_nat_digits: "\<forall>b \<in> set (show_nat n). is_digit b"
proof (induction n rule: show_nat.induct)
  case (1 n)
  then show ?case
    by (subst show_nat.simps) (auto simp: of_nat_digit)
qed

lemma show_nat_nonempty [simp]: "show_nat n \<noteq> []"
  by (subst show_nat.simps) simp

section \<open>Parsing\<close>

definition digits_value :: "bytes \<Rightarrow> nat" where
  "digits_value bs = foldl (\<lambda>a c. 10 * a + unat (c - 48)) 0 bs"

definition all_digits :: "bytes \<Rightarrow> bool" where
  "all_digits bs \<longleftrightarrow> bs \<noteq> [] \<and> list_all is_digit bs"

lemma digits_value_show [simp]: "digits_value (show_nat n) = n"
proof (induction n rule: show_nat.induct)
  case (1 n)
  show ?case
  proof (cases "n < 10")
    case True
    then show ?thesis
      by (subst show_nat.simps) (simp add: digits_value_def unat_of_nat_small)
  next
    case False
    then have "digits_value (show_nat n) = 10 * digits_value (show_nat (n div 10)) + n mod 10"
      by (subst show_nat.simps) (simp add: digits_value_def unat_of_nat_small)
    with False 1 show ?thesis by simp
  qed
qed

lemma all_digits_show [simp]: "all_digits (show_nat n)"
  using show_nat_digits [of n] by (simp add: all_digits_def list_all_iff)

lemma show_nat_inject [simp]: "show_nat m = show_nat n \<longleftrightarrow> m = n"
  by (metis digits_value_show)

text \<open>\<open>strconv.ParseUint(s, 10, 32)\<close>\<close>

definition parse_uint32 :: "bytes \<Rightarrow> 32 word outcome" where
  "parse_uint32 bs =
     (if all_digits bs \<and> digits_value bs < 2 ^ 32 then Ok (of_nat (digits_value bs))
      else Err BadNumber)"

lemma parse_show_uint32 [simp, rt_simps]: "parse_uint32 (show_nat (unat w)) = Ok w"
  using unsigned_less [of w] by (simp add: parse_uint32_def)

text \<open>\<open>strconv.Atoi(s)\<close> on a 64-bit platform: an optional sign, then digits.\<close>

definition parse_int :: "bytes \<Rightarrow> int outcome" where
  "parse_int bs =
     (let neg = (bs \<noteq> [] \<and> hd bs = 45);
          ds = (if bs \<noteq> [] \<and> (hd bs = 45 \<or> hd bs = 43) then tl bs else bs);
          v = (if neg then - int (digits_value ds) else int (digits_value ds))
      in if all_digits ds \<and> - (2 ^ 63) \<le> v \<and> v < 2 ^ 63 then Ok v else Err BadNumber)"

lemma hd_show_nat: "is_digit (hd (show_nat n))"
  using show_nat_digits [of n] by simp

lemma parse_int_show [simp, rt_simps]: "n < 2 ^ 63 \<Longrightarrow> parse_int (show_nat n) = Ok (int n)"
  using hd_show_nat [of n] by (auto simp: parse_int_def Let_def is_digit_def)

lemma show_nat_no_sep: "\<not> is_digit c \<Longrightarrow> c \<notin> set (show_nat n)"
  using show_nat_digits [of n] by auto

section \<open>\<open>strings.TrimSuffix\<close> and \<open>strings.HasSuffix\<close>\<close>

definition has_suffix :: "bytes \<Rightarrow> bytes \<Rightarrow> bool" where
  "has_suffix s suf \<longleftrightarrow> length suf \<le> length s \<and> drop (length s - length suf) s = suf"

definition trim_suffix :: "bytes \<Rightarrow> bytes \<Rightarrow> bytes" where
  "trim_suffix s suf = (if has_suffix s suf then take (length s - length suf) s else s)"

lemma has_suffix_append [simp]: "has_suffix (s @ suf) suf"
  by (simp add: has_suffix_def)

lemma trim_suffix_append [simp]: "trim_suffix (s @ suf) suf = s"
  by (simp add: trim_suffix_def)

section \<open>\<open>sort.Slice\<close>\<close>

text \<open>
  Go sorts a short slice by insertion: element \<open>j\<close> moves left while it is less than its
  left neighbour. The accumulator is the sorted prefix, last element first. On a comparison
  that is a strict linear order every sorting algorithm gives the same list.
\<close>

fun sift_left :: "('a \<Rightarrow> 'a \<Rightarrow> bool) \<Rightarrow> 'a \<Rightarrow> 'a list \<Rightarrow> 'a list" where
  "sift_left lt x [] = [x]"
| "sift_left lt x (y # ys) = (if lt x y then y # sift_left lt x ys else x # y # ys)"

definition sort_slice :: "('a \<Rightarrow> 'a \<Rightarrow> bool) \<Rightarrow> 'a list \<Rightarrow> 'a list" where
  "sort_slice lt xs = rev (foldl (\<lambda>acc x. sift_left lt x acc) [] xs)"

lemma set_sift_left [simp]: "set (sift_left lt x ys) = insert x (set ys)"
  by (induction ys) auto

lemma mset_sift_left [simp]: "mset (sift_left lt x ys) = add_mset x (mset ys)"
  by (induction ys) auto

lemma mset_foldl_sift:
  "mset (foldl (\<lambda>acc x. sift_left lt x acc) acc xs) = mset acc + mset xs"
  by (induction xs arbitrary: acc) auto

lemma mset_sort_slice [simp]: "mset (sort_slice lt xs) = mset xs"
  by (simp add: sort_slice_def mset_foldl_sift)

lemma set_sort_slice [simp]: "set (sort_slice lt xs) = set xs"
  using mset_sort_slice [of lt xs] by (metis set_mset_mset)

lemma length_sort_slice [simp]: "length (sort_slice lt xs) = length xs"
  using mset_sort_slice [of lt xs] by (metis size_mset)

lemma distinct_sort_slice [simp]: "distinct (sort_slice lt xs) \<longleftrightarrow> distinct xs"
  using mset_sort_slice [of lt xs] by (metis mset_eq_imp_distinct_iff)

lemma sift_left_sorted:
  fixes f :: "'a \<Rightarrow> 'b :: linorder"
  assumes "\<And>a b. a \<in> insert x (set ys) \<Longrightarrow> b \<in> insert x (set ys) \<Longrightarrow> lt a b \<longleftrightarrow> f a < f b"
    and "sorted_wrt (\<lambda>a b. f b \<le> f a) ys"
  shows "sorted_wrt (\<lambda>a b. f b \<le> f a) (sift_left lt x ys)"
  using assms
proof (induction ys)
  case (Cons y ys)
  have "sorted_wrt (\<lambda>a b. f b \<le> f a) (sift_left lt x ys)"
    using Cons.prems by (intro Cons.IH) auto
  moreover have "lt x y \<longleftrightarrow> f x < f y" using Cons.prems(1) by simp
  ultimately show ?case using Cons.prems(2) by auto
qed simp

lemma foldl_sift_sorted:
  fixes f :: "'a \<Rightarrow> 'b :: linorder"
  assumes "\<And>a b. a \<in> set acc \<union> set xs \<Longrightarrow> b \<in> set acc \<union> set xs \<Longrightarrow> lt a b \<longleftrightarrow> f a < f b"
    and "sorted_wrt (\<lambda>a b. f b \<le> f a) acc"
  shows "sorted_wrt (\<lambda>a b. f b \<le> f a) (foldl (\<lambda>acc x. sift_left lt x acc) acc xs)"
  using assms
proof (induction xs arbitrary: acc)
  case (Cons x xs)
  have "sorted_wrt (\<lambda>a b. f b \<le> f a) (sift_left lt x acc)"
    using Cons.prems by (intro sift_left_sorted) auto
  then have "sorted_wrt (\<lambda>a b. f b \<le> f a)
      (foldl (\<lambda>acc x. sift_left lt x acc) (sift_left lt x acc) xs)"
    using Cons.prems(1) by (intro Cons.IH) auto
  then show ?case by simp
qed simp

lemma sort_slice_sorted:
  fixes f :: "'a \<Rightarrow> 'b :: linorder"
  assumes "\<And>a b. a \<in> set xs \<Longrightarrow> b \<in> set xs \<Longrightarrow> lt a b \<longleftrightarrow> f a < f b"
  shows "sorted (map f (sort_slice lt xs))"
proof -
  have "sorted_wrt (\<lambda>a b. f b \<le> f a) (foldl (\<lambda>acc x. sift_left lt x acc) [] xs)"
    using assms by (intro foldl_sift_sorted) auto
  then show ?thesis
    by (simp add: sort_slice_def sorted_map sorted_wrt_rev)
qed

end
