(* ===== verification/ShardedMap.thy ===== *)
theory ShardedMap
  imports EntryFormat Decimal
begin

unbundle bit_operations_syntax

text \<open>
  \<open>concurrent.go\<close>, the map: \<open>ConcurrentMap\<close> spreads its entries over shards by the FNV-1a
  hash of the key. The interface \<open>map_store\<close> says what the database relies on (look-ups
  after updates, a duplicate-free enumeration); the sharded map is shown to provide it.
  The items of a shard are kept in the order in which \<open>range\<close> visits them; Go leaves that
  order open, and no fact proved from the interface depends on it.
\<close>

section \<open>\<open>hash/fnv\<close>: 32-bit FNV-1a\<close>

definition fnv_step :: "32 word \<Rightarrow> byte \<Rightarrow> 32 word" where
  "fnv_step h b = (h XOR ucast b) * 16777619"

definition fnv32a :: "bytes \<Rightarrow> 32 word" where
  "fnv32a bs = foldl fnv_step 2166136261 bs"

section \<open>The map\<close>

type_synonym shard = "(key \<times> KeyDir) list"

record ConcurrentMap =
  cmShards :: "shard list"
  cmCount :: "32 word"

definition NewConcurrentMap :: "int \<Rightarrow> ConcurrentMap" where
  "NewConcurrentMap shardCount =
     (let n = (if shardCount \<le> 0 then 16 else shardCount)
      in \<lparr>cmShards = replicate (nat n) [], cmCount = word_of_int n\<rparr>)"

definition getShard :: "ConcurrentMap \<Rightarrow> key \<Rightarrow> nat" where
  "getShard cm k = unat (fnv32a k mod cmCount cm)"

definition cm_Get :: "ConcurrentMap \<Rightarrow> key \<Rightarrow> KeyDir option" where
  "cm_Get cm k = map_of (cmShards cm ! getShard cm k) k"

definition cm_Set :: "key \<Rightarrow> KeyDir \<Rightarrow> ConcurrentMap \<Rightarrow> ConcurrentMap" where
  "cm_Set k v cm =
     (let i = getShard cm k
      in cm\<lparr>cmShards := (cmShards cm)[i := AList.update k v (cmShards cm ! i)]\<rparr>)"

definition cm_Delete :: "key \<Rightarrow> ConcurrentMap \<Rightarrow> ConcurrentMap" where
  "cm_Delete k cm =
     (let i = getShard cm k
      in cm\<lparr>cmShards := (cmShards cm)[i := AList.delete k (cmShards cm ! i)]\<rparr>)"

text \<open>
  \<open>Range\<close> and \<open>RangeWrite\<close>: the callback updates the caller's variables \<open>'s\<close> and says
  whether to go on; a \<open>False\<close> leaves both loops.
\<close>

fun range_items ::
  "(key \<Rightarrow> KeyDir \<Rightarrow> 's \<Rightarrow> bool \<times> 's) \<Rightarrow> shard \<Rightarrow> 's \<Rightarrow> bool \<times> 's" where
  "range_items f [] s = (True, s)"
| "range_items f ((k, v) # xs) s =
     (case f k v s of (True, s') \<Rightarrow> range_items f xs s' | (False, s') \<Rightarrow> (False, s'))"

fun range_shards ::
  "(key \<Rightarrow> KeyDir \<Rightarrow> 's \<Rightarrow> bool \<times> 's) \<Rightarrow> shard list \<Rightarrow> 's \<Rightarrow> 's" where
  "range_shards f [] s = s"
| "range_shards f (sh # shs) s =
     (case range_items f sh s of (True, s') \<Rightarrow> range_shards f shs s' | (False, s') \<Rightarrow> s')"

definition cm_Range ::
  "(key \<Rightarrow> KeyDir \<Rightarrow> 's \<Rightarrow> bool \<times> 's) \<Rightarrow> ConcurrentMap \<Rightarrow> 's \<Rightarrow> 's" where
  "cm_Range f cm s = range_shards f (cmShards cm) s"

definition cm_Size :: "ConcurrentMap \<Rightarrow> nat" where
  "cm_Size cm = sum_list (map length (cmShards cm))"

definition cm_entries :: "ConcurrentMap \<Rightarrow> (key \<times> KeyDir) list" where
  "cm_entries cm = concat (cmShards cm)"

section \<open>Interface\<close>

locale map_store =
  fixes new :: "'m"
    and get :: "'m \<Rightarrow> key \<Rightarrow> 'v option"
    and set_key :: "key \<Rightarrow> 'v \<Rightarrow> 'm \<Rightarrow> 'm"
    and del :: "key \<Rightarrow> 'm \<Rightarrow> 'm"
    and entries :: "'m \<Rightarrow> (key \<times> 'v) list"
    and inv :: "'m \<Rightarrow> bool"
  assumes inv_new: "inv new"
    and inv_set: "inv m \<Longrightarrow> inv (set_key k v m)"
    and inv_del: "inv m \<Longrightarrow> inv (del k m)"
    and get_new: "get new k = None"
    and get_set: "inv m \<Longrightarrow> get (set_key k v m) k' = (if k' = k then Some v else get m k')"
    and get_del: "inv m \<Longrightarrow> get (del k m) k' = (if k' = k then None else get m k')"
    and entries_get: "inv m \<Longrightarrow> (k, v) \<in> set (entries m) \<longleftrightarrow> get m k = Some v"
    and entries_distinct: "inv m \<Longrightarrow> distinct (map fst (entries m))"
begin

definition set_all :: "(key \<times> 'v) list \<Rightarrow> 'm \<Rightarrow> 'm" where
  "set_all kvs m = fold (\<lambda>(k, v). set_key k v) kvs m"

lemma inv_set_all: "inv m \<Longrightarrow> inv (set_all kvs m)"
  unfolding set_all_def by (induction kvs arbitrary: m) (auto simp: inv_set)

lemma get_set_all:
  "inv m \<Longrightarrow> get (set_all kvs m) k =
     (case map_of (rev kvs) k of None \<Rightarrow> get m k | Some v \<Rightarrow> Some v)"
  unfolding set_all_def
  by (induction kvs arbitrary: m)
    (auto simp: inv_set get_set map_add_def split: option.splits)

lemma map_of_entries: "inv m \<Longrightarrow> map_of (entries m) = get m"
proof
  fix k assume i: "inv m"
  show "map_of (entries m) k = get m k"
  proof (cases "get m k")
    case None
    then have "k \<notin> fst ` set (entries m)"
      using entries_get [OF i, of k] by auto
    then show ?thesis using None by (simp add: map_of_eq_None_iff)
  next
    case (Some v)
    then show ?thesis
      using entries_get [OF i] entries_distinct [OF i] by (simp add: map_of_is_SomeI)
  qed
qed

text \<open>A map rebuilt from another map's enumeration holds the same entries.\<close>

lemma rebuild_entries:
  assumes "inv m" and "mset kvs = mset (entries m)"
  shows "get (set_all kvs new) = get m"
proof
  fix k
  have d: "distinct (map fst kvs)"
    using entries_distinct [OF assms(1)] assms(2)
    by (metis mset_map mset_eq_imp_distinct_iff)
  have "set kvs = set (entries m)" using assms(2) by (metis set_mset_mset)
  with d have "map_of (rev kvs) = map_of (entries m)"
    using entries_distinct [OF assms(1)]
    by (subst map_of_inject_set) (simp_all add: rev_map [symmetric])
  then show "get (set_all kvs new) k = get m k"
    using get_set_all [OF inv_new, of kvs k] assms(1)
    by (simp add: map_of_entries get_new split: option.splits)
qed

end

section \<open>The sharded map provides it\<close>

definition shard_ok :: "ConcurrentMap \<Rightarrow> nat \<Rightarrow> shard \<Rightarrow> bool" where
  "shard_ok cm i xs \<longleftrightarrow> distinct (map fst xs) \<and> (\<forall>k \<in> fst ` set xs. getShard cm k = i)"

definition cm_inv :: "ConcurrentMap \<Rightarrow> bool" where
  "cm_inv cm \<longleftrightarrow> 0 < cmCount cm \<and> length (cmShards cm) = unat (cmCount cm) \<and>
     (\<forall>i < length (cmShards cm). shard_ok cm i (cmShards cm ! i))"

lemma getShard_bound: "cm_inv cm \<Longrightarrow> getShard cm k < length (cmShards cm)"
  by (simp add: cm_inv_def getShard_def unat_mod word_greater_zero_iff unat_gt_0)

lemma getShard_update [simp]: "getShard (cm\<lparr>cmShards := ss\<rparr>) k = getShard cm k"
  by (simp add: getShard_def)

lemma shard_ok_update [simp]: "shard_ok (cm\<lparr>cmShards := ss\<rparr>) i xs = shard_ok cm i xs"
  by (simp add: shard_ok_def)

lemma cm_inv_nth: "cm_inv cm \<Longrightarrow> shard_ok cm (getShard cm k) (cmShards cm ! getShard cm k)"
  using getShard_bound [of cm k] by (simp add: cm_inv_def)

lemma cm_inv_shard_update:
  "cm_inv cm \<Longrightarrow> shard_ok cm i xs \<Longrightarrow> cm_inv (cm\<lparr>cmShards := (cmShards cm)[i := xs]\<rparr>)"
  unfolding cm_inv_def
  by simp (metis list_update_beyond not_le nth_list_update)

lemma cm_inv_new: "0 < n \<Longrightarrow> n < 2 ^ 32 \<Longrightarrow> cm_inv (NewConcurrentMap n)"
  by (auto simp: cm_inv_def shard_ok_def NewConcurrentMap_def Let_def word_less_def uint_word_of_int
      unsigned_of_int take_bit_int_eq_self nth_append)

lemma cm_Get_Set:
  assumes "cm_inv cm"
  shows "cm_Get (cm_Set k v cm) k' = (if k' = k then Some v else cm_Get cm k')"
  using getShard_bound [OF assms] by (simp add: cm_Get_def cm_Set_def Let_def nth_list_update update_conv)

lemma cm_Get_Delete:
  assumes "cm_inv cm"
  shows "cm_Get (cm_Delete k cm) k' = (if k' = k then None else cm_Get cm k')"
  using getShard_bound [OF assms]
  by (simp add: cm_Get_def cm_Delete_def Let_def nth_list_update delete_conv)

lemma cm_inv_Set: "cm_inv cm \<Longrightarrow> cm_inv (cm_Set k v cm)"
  using cm_inv_nth [of cm k] unfolding cm_Set_def Let_def
  by (intro cm_inv_shard_update) (auto simp: shard_ok_def distinct_update dom_update)

lemma shard_ok_delete: "shard_ok cm i xs \<Longrightarrow> shard_ok cm i (AList.delete k xs)"
  using delete_keys [of k xs]
  by (auto simp: shard_ok_def distinct_removeAll simp flip: set_map)

lemma cm_inv_Delete: "cm_inv cm \<Longrightarrow> cm_inv (cm_Delete k cm)"
  using cm_inv_nth [of cm k] unfolding cm_Delete_def Let_def
  by (intro cm_inv_shard_update shard_ok_delete)

lemma cm_entries_Get:
  assumes "cm_inv cm"
  shows "(k, v) \<in> set (cm_entries cm) \<longleftrightarrow> cm_Get cm k = Some v"
proof
  assume "(k, v) \<in> set (cm_entries cm)"
  then obtain i where i: "i < length (cmShards cm)" "(k, v) \<in> set (cmShards cm ! i)"
    unfolding cm_entries_def set_concat by (metis UN_E in_set_conv_nth)
  then have "getShard cm k = i" and "distinct (map fst (cmShards cm ! i))"
    using assms by (force simp: cm_inv_def shard_ok_def)+
  with i show "cm_Get cm k = Some v" by (simp add: cm_Get_def)
next
  assume "cm_Get cm k = Some v"
  then have "(k, v) \<in> set (cmShards cm ! getShard cm k)"
    by (auto simp: cm_Get_def dest: map_of_SomeD)
  with getShard_bound [OF assms, of k] show "(k, v) \<in> set (cm_entries cm)"
    by (auto simp: cm_entries_def intro: nth_mem)
qed

lemma distinct_concat_keys:
  fixes g :: "key \<Rightarrow> nat" and ss :: "shard list"
  assumes "\<And>i. i < length ss \<Longrightarrow> distinct (map fst (ss ! i)) \<and> (\<forall>k \<in> fst ` set (ss ! i). g k = i + n)"
  shows "distinct (map fst (concat ss))"
  using assms
proof (induction ss arbitrary: n)
  case (Cons x ss)
  have tail: "distinct (map fst (ss ! i)) \<and> (\<forall>k \<in> fst ` set (ss ! i). g k = i + Suc n)"
    if "i < length ss" for i
    using Cons.prems [of "Suc i"] that by simp
  then have "distinct (map fst (concat ss))" by (rule Cons.IH)
  moreover have "g k > n" if "k \<in> fst ` set (concat ss)" for k
  proof -
    from that obtain i where "i < length ss" "k \<in> fst ` set (ss ! i)"
      unfolding set_concat image_UN by (metis UN_E in_set_conv_nth)
    then show ?thesis using tail [of i] by auto
  qed
  moreover have "g k = n" if "k \<in> fst ` set x" for k
    using Cons.prems [of 0] that by auto
  ultimately show ?case using Cons.prems [of 0] by fastforce
qed simp

lemma cm_entries_distinct: "cm_inv cm \<Longrightarrow> distinct (map fst (cm_entries cm))"
  unfolding cm_entries_def
  by (rule distinct_concat_keys [where g = "getShard cm" and n = 0])
    (simp add: cm_inv_def shard_ok_def)

interpretation cm: map_store "NewConcurrentMap 16" cm_Get cm_Set cm_Delete cm_entries cm_inv
proof unfold_locales
  show "cm_Get (NewConcurrentMap 16) k = None" for k
    using getShard_bound [OF cm_inv_new [of 16], of k]
    by (simp add: cm_Get_def NewConcurrentMap_def Let_def)
qed (simp_all add: cm_inv_new cm_inv_Set cm_inv_Delete cm_Get_Set cm_Get_Delete
  cm_entries_Get cm_entries_distinct)

section \<open>Enumeration\<close>

text \<open>A callback that never asks to stop sees every entry once.\<close>

lemma range_items_all:
  "(\<And>k v s. fst (f k v s)) \<Longrightarrow>
   range_items f xs s = (True, foldl (\<lambda>s (k, v). snd (f k v s)) s xs)"
proof (induction xs arbitrary: s)
  case (Cons x xs)
  obtain k v where x: "x = (k, v)" by (cases x)
  have "f k v s = (True, snd (f k v s))" using Cons.prems [of k v s] by (cases "f k v s") simp
  with Cons.IH [OF Cons.prems] show ?case
    unfolding x range_items.simps foldl_Cons by (metis (no_types, lifting) bool.simps(3) case_prod_conv)
qed simp

lemma cm_Range_all:
  assumes "\<And>k v s. fst (f k v s)"
  shows "cm_Range f cm s = foldl (\<lambda>s (k, v). snd (f k v s)) s (cm_entries cm)"
proof -
  have "range_shards f ss s = foldl (\<lambda>s (k, v). snd (f k v s)) s (concat ss)" for ss
    by (induction ss arbitrary: s) (simp_all add: range_items_all assms)
  then show ?thesis by (simp add: cm_Range_def cm_entries_def)
qed

lemma cm_Size_entries: "cm_Size cm = length (cm_entries cm)"
  by (simp add: cm_Size_def cm_entries_def length_concat)

lemma cm_Size_card: "cm_inv cm \<Longrightarrow> cm_Size cm = card (dom (cm_Get cm))"
  by (metis cm.entries_distinct cm.map_of_entries cm_Size_entries distinct_card dom_map_of_conv_image_fst
      length_map set_map)

lemma cm_Range_collects:
  assumes "cm_inv cm"
  shows "\<exists>kvs. cm_Range (\<lambda>k kd acc. (True, acc @ [(k, kd)])) cm [] = kvs \<and> distinct (map fst kvs) \<and>
    map_of kvs = cm_Get cm \<and> cm_Size cm = length kvs"
proof (intro exI conjI)
  have "foldl (\<lambda>s (k, v). s @ [(k, v)]) acc xs = acc @ xs" for acc xs :: "(key \<times> KeyDir) list"
    by (induction xs arbitrary: acc) auto
  then show "cm_Range (\<lambda>k kd acc. (True, acc @ [(k, kd)])) cm [] = cm_entries cm"
    by (simp add: cm_Range_all)
qed (simp_all add: cm.entries_distinct cm.map_of_entries cm_Size_entries assms)

end
