(* ===== verification/Cache.thy ===== *)
theory Cache
  imports EntryFormat
begin

text \<open>
  \<open>cache.go\<close>: the LRU cache and the two caches built on it. The doubly linked list of
  \<open>container/list\<close> is a list of element addresses, front first; \<open>elems\<close> is the heap the
  addresses point into, \<open>items\<close> the map from keys to addresses. The abstract cache is an
  association list, most recently used first; the concrete operations refine it, and they
  provide the interface \<open>cache_store\<close> that the database's coherence argument uses.
\<close>

section \<open>State\<close>

record CacheItem =
  ciKey :: key
  ciValue :: bytes
  ciFileID :: "32 word"
  ciValuePos :: "64 word"
  ciValueSize :: "32 word"
  ciTimestamp :: "32 word"
  ciAccessed :: instant

type_synonym elem = nat

record LRUCache =
  capacity :: int
  items :: "(key \<times> elem) list"
  lru :: "elem list"
  elems :: "(elem \<times> CacheItem) list"
  nextElem :: elem
  hits :: "64 word"
  misses :: "64 word"

definition NewLRUCache :: "int \<Rightarrow> LRUCache" where
  "NewLRUCache cap =
     \<lparr>capacity = cap, items = [], lru = [], elems = [], nextElem = 0, hits = 0, misses = 0\<rparr>"

section \<open>\<open>container/list\<close>\<close>

definition list_remove :: "elem \<Rightarrow> LRUCache \<Rightarrow> LRUCache" where
  "list_remove e c = c\<lparr>lru := removeAll e (lru c)\<rparr>"

definition list_move_to_front :: "elem \<Rightarrow> LRUCache \<Rightarrow> LRUCache" where
  "list_move_to_front e c =
     (if e \<in> set (lru c) then c\<lparr>lru := e # removeAll e (lru c)\<rparr> else c)"

definition list_push_front :: "CacheItem \<Rightarrow> LRUCache \<Rightarrow> elem \<times> LRUCache" where
  "list_push_front it c =
     (nextElem c,
      c\<lparr>lru := nextElem c # lru c, elems := (nextElem c, it) # elems c,
        nextElem := nextElem c + 1\<rparr>)"

definition elem_value :: "LRUCache \<Rightarrow> elem \<Rightarrow> CacheItem option" where
  "elem_value c e = map_of (elems c) e"

definition set_elem_value :: "elem \<Rightarrow> CacheItem \<Rightarrow> LRUCache \<Rightarrow> LRUCache" where
  "set_elem_value e it c = c\<lparr>elems := AList.update e it (elems c)\<rparr>"

section \<open>\<open>LRUCache\<close>\<close>

definition lru_Get :: "instant \<Rightarrow> key \<Rightarrow> LRUCache \<Rightarrow> bytes option \<times> LRUCache" where
  "lru_Get now k c =
     (case map_of (items c) k of
        Some e \<Rightarrow>
          (case elem_value c e of
             Some item \<Rightarrow>
               let c1 = set_elem_value e (item\<lparr>ciAccessed := now\<rparr>) c;
                   c2 = list_move_to_front e c1
               in (Some (ciValue item), c2\<lparr>hits := hits c2 + 1\<rparr>)
           | None \<Rightarrow> (None, c))
      | None \<Rightarrow> (None, c\<lparr>misses := misses c + 1\<rparr>))"

definition lru_delete_key :: "key \<Rightarrow> LRUCache \<Rightarrow> LRUCache" where
  "lru_delete_key k c = c\<lparr>items := AList.delete k (items c)\<rparr>"

definition evictOldest :: "LRUCache \<Rightarrow> LRUCache" where
  "evictOldest c =
     (if lru c = [] then c
      else let e = last (lru c) in
        (case elem_value c e of
           Some item \<Rightarrow> lru_delete_key (ciKey item) (list_remove e c)
         | None \<Rightarrow> c))"

definition lru_Remove :: "key \<Rightarrow> LRUCache \<Rightarrow> LRUCache" where
  "lru_Remove k c =
     (case map_of (items c) k of
        Some e \<Rightarrow> lru_delete_key k (list_remove e c)
      | None \<Rightarrow> c)"

definition lru_Set ::
  "instant \<Rightarrow> key \<Rightarrow> bytes \<Rightarrow> 32 word \<Rightarrow> 64 word \<Rightarrow> 32 word \<Rightarrow> 32 word \<Rightarrow> LRUCache \<Rightarrow> LRUCache" where
  "lru_Set now k v fid pos sz ts c =
     (let c1 = (case map_of (items c) k of
                  Some e \<Rightarrow> lru_delete_key k (list_remove e c)
                | None \<Rightarrow> c);
          c2 = (if capacity c1 \<le> int (length (lru c1)) then evictOldest c1 else c1);
          (e, c3) = list_push_front
            \<lparr>ciKey = k, ciValue = v, ciFileID = fid, ciValuePos = pos, ciValueSize = sz,
             ciTimestamp = ts, ciAccessed = now\<rparr> c2
      in c3\<lparr>items := AList.update k e (items c3)\<rparr>)"

definition lru_Clear :: "LRUCache \<Rightarrow> LRUCache" where
  "lru_Clear c = c\<lparr>items := [], lru := []\<rparr>"

definition lru_Stats :: "LRUCache \<Rightarrow> 64 word \<times> 64 word" where
  "lru_Stats c = (hits c, misses c)"

section \<open>Invariant and abstraction\<close>

text \<open>
  The map and the list agree: a key maps to an address exactly when the address is in the
  list and its element carries that key. Fresh addresses are not in use.
\<close>

definition elem_key :: "LRUCache \<Rightarrow> elem \<Rightarrow> key option" where
  "elem_key c e = map_option ciKey (map_of (elems c) e)"

definition lru_inv :: "LRUCache \<Rightarrow> bool" where
  "lru_inv c \<longleftrightarrow> distinct (lru c) \<and> distinct (map fst (items c)) \<and>
     (\<forall>e \<in> set (lru c). e < nextElem c \<and> elem_key c e \<noteq> None) \<and>
     (\<forall>k e. map_of (items c) k = Some e \<longleftrightarrow> e \<in> set (lru c) \<and> elem_key c e = Some k) \<and>
     int (length (lru c)) \<le> max 1 (capacity c)"

definition elem_pair :: "LRUCache \<Rightarrow> elem \<Rightarrow> key \<times> bytes" where
  "elem_pair c e =
     (case map_of (elems c) e of Some it \<Rightarrow> (ciKey it, ciValue it) | None \<Rightarrow> ([], []))"

definition lru_abs :: "LRUCache \<Rightarrow> (key \<times> bytes) list" where
  "lru_abs c = map (elem_pair c) (lru c)"

definition lru_peek :: "LRUCache \<Rightarrow> key \<Rightarrow> bytes option" where
  "lru_peek c k = fst (lru_Get 0 k c)"

text \<open>The reference cache: an association list, most recently used first.\<close>

definition spec_touch :: "key \<Rightarrow> (key \<times> bytes) list \<Rightarrow> (key \<times> bytes) list" where
  "spec_touch k xs =
     (case map_of xs k of Some v \<Rightarrow> (k, v) # AList.delete k xs | None \<Rightarrow> xs)"

definition spec_set :: "int \<Rightarrow> key \<Rightarrow> bytes \<Rightarrow> (key \<times> bytes) list \<Rightarrow> (key \<times> bytes) list" where
  "spec_set cap k v xs =
     (let ys = AList.delete k xs
      in (k, v) # (if cap \<le> int (length ys) then butlast ys else ys))"

lemma lru_inv_new: "lru_inv (NewLRUCache cap)"
  by (simp add: lru_inv_def NewLRUCache_def)

lemma lru_abs_new [simp]: "lru_abs (NewLRUCache cap) = []"
  by (simp add: lru_abs_def NewLRUCache_def)

lemma lru_invD:
  assumes "lru_inv c"
  shows "distinct (lru c)" and "distinct (map fst (items c))"
    and "e \<in> set (lru c) \<Longrightarrow> e < nextElem c"
    and "e \<in> set (lru c) \<Longrightarrow> elem_key c e \<noteq> None"
    and "map_of (items c) k = Some e \<longleftrightarrow> e \<in> set (lru c) \<and> elem_key c e = Some k"
    and "int (length (lru c)) \<le> max 1 (capacity c)"
  using assms unfolding lru_inv_def by blast+

lemma elem_key_pair: "elem_key c e = Some k \<Longrightarrow> fst (elem_pair c e) = k"
  by (auto simp: elem_key_def elem_pair_def)

lemma elem_items_key:
  assumes "lru_inv c" and "e \<in> set (lru c)"
  shows "map_of (items c) (fst (elem_pair c e)) = Some e"
proof -
  obtain k where "elem_key c e = Some k" using lru_invD(4) [OF assms] by auto
  then show ?thesis using lru_invD(5) [OF assms(1)] assms(2) elem_key_pair by blast
qed

lemma items_elem:
  assumes "lru_inv c" and "map_of (items c) k = Some e"
  obtains it where "e \<in> set (lru c)" "map_of (elems c) e = Some it" "ciKey it = k"
  using lru_invD(5) [OF assms(1), of k e] assms(2) that by (auto simp: elem_key_def)

text \<open>The invariant depends on the elements' keys only.\<close>

lemma lru_inv_cong:
  assumes "lru_inv c" and "distinct (lru c')" and "set (lru c') = set (lru c)"
    and "items c' = items c" and "nextElem c' = nextElem c" and "capacity c' = capacity c"
    and "elem_key c' = elem_key c"
  shows "lru_inv c'"
proof -
  have "length (lru c') = length (lru c)"
    using assms(2,3) lru_invD(1) [OF assms(1)] by (metis distinct_card)
  then show ?thesis using assms unfolding lru_inv_def by auto
qed

text \<open>Distinct addresses in the list carry distinct keys.\<close>

lemma lru_keys_inj: "lru_inv c \<Longrightarrow> inj_on (\<lambda>e. fst (elem_pair c e)) (set (lru c))"
  by (rule inj_onI) (metis elem_items_key option.inject)

lemma lru_abs_distinct: "lru_inv c \<Longrightarrow> distinct (map fst (lru_abs c))"
  using lru_keys_inj [of c] lru_invD(1) [of c]
  by (simp add: lru_abs_def distinct_map o_def)

lemma items_abs:
  assumes "lru_inv c"
  shows "map_of (lru_abs c) k =
    (case map_of (items c) k of Some e \<Rightarrow> Some (snd (elem_pair c e)) | None \<Rightarrow> None)"
proof (cases "map_of (items c) k")
  case None
  have "k \<noteq> fst (elem_pair c e)" if "e \<in> set (lru c)" for e
    using elem_items_key [OF assms that] None by auto
  then have "k \<notin> fst ` set (lru_abs c)" unfolding lru_abs_def set_map image_image by blast
  then have "map_of (lru_abs c) k = None" by (simp add: map_of_eq_None_iff)
  then show ?thesis using None by simp
next
  case (Some e)
  with assms obtain it where e: "e \<in> set (lru c)" "map_of (elems c) e = Some it" "ciKey it = k"
    by (rule items_elem)
  then have "elem_pair c e = (k, snd (elem_pair c e))" by (simp add: elem_pair_def)
  then have "(k, snd (elem_pair c e)) \<in> set (lru_abs c)"
    using e(1) unfolding lru_abs_def by (metis image_eqI list.set_map)
  with Some show ?thesis
    using lru_abs_distinct [OF assms] by (simp add: map_of_is_SomeI)
qed

lemma items_None_abs: "lru_inv c \<Longrightarrow> map_of (items c) k = None \<longleftrightarrow> map_of (lru_abs c) k = None"
  using items_abs [of c k] by (cases "map_of (items c) k") auto

lemma abs_removeAll:
  assumes "lru_inv c" and "map_of (items c) k = Some e"
  shows "map (elem_pair c) (removeAll e (lru c)) = AList.delete k (lru_abs c)"
proof -
  have "fst (elem_pair c e) = k"
    using assms by (auto elim!: items_elem simp: elem_pair_def)
  moreover have "e' = e" if "e' \<in> set (lru c)" "fst (elem_pair c e') = k" for e'
    using elem_items_key [OF assms(1) that(1)] that(2) assms(2) by simp
  ultimately have "filter (\<lambda>e'. e \<noteq> e') (lru c) = filter (\<lambda>e'. k \<noteq> fst (elem_pair c e')) (lru c)"
    by (intro filter_cong) auto
  then show ?thesis
    by (simp add: lru_abs_def removeAll_filter_not_eq AList.delete_eq filter_map o_def case_prod_beta)
qed

subsection \<open>Look-up\<close>

lemma touch_simps [simp]:
  assumes "map_of (elems c) e = Some it"
  shows "elem_pair (c\<lparr>elems := AList.update e (it\<lparr>ciAccessed := t\<rparr>) (elems c), lru := l, hits := h\<rparr>)
      = elem_pair c"
    and "elem_key (c\<lparr>elems := AList.update e (it\<lparr>ciAccessed := t\<rparr>) (elems c), lru := l, hits := h\<rparr>)
      = elem_key c"
  using assms by (auto simp: elem_pair_def elem_key_def update_conv fun_eq_iff)

lemma lru_Get_hit:
  assumes "map_of (items c) k = Some e" "map_of (elems c) e = Some it" "e \<in> set (lru c)"
  shows "lru_Get t k c = (Some (ciValue it),
    c\<lparr>elems := AList.update e (it\<lparr>ciAccessed := t\<rparr>) (elems c),
      lru := e # removeAll e (lru c), hits := hits c + 1\<rparr>)"
  using assms
  by (simp add: lru_Get_def elem_value_def Let_def set_elem_value_def list_move_to_front_def)

lemma lru_Get_miss:
  "map_of (items c) k = None \<Longrightarrow> lru_Get t k c = (None, c\<lparr>misses := misses c + 1\<rparr>)"
  by (simp add: lru_Get_def)

lemma lru_inv_touch:
  assumes "lru_inv c" and "e \<in> set (lru c)" and "map_of (elems c) e = Some it"
  shows "lru_inv (c\<lparr>elems := AList.update e (it\<lparr>ciAccessed := t\<rparr>) (elems c),
      lru := e # removeAll e (lru c), hits := h\<rparr>)"
  using assms lru_invD(1) [OF assms(1)]
  by (intro lru_inv_cong [OF assms(1)]) (auto simp: distinct_removeAll)

lemma lru_Get_refines:
  assumes inv: "lru_inv c"
  shows "fst (lru_Get t k c) = map_of (lru_abs c) k"
    and "lru_abs (snd (lru_Get t k c)) = spec_touch k (lru_abs c)"
    and "lru_inv (snd (lru_Get t k c))"
proof -
  have "fst (lru_Get t k c) = map_of (lru_abs c) k \<and>
    lru_abs (snd (lru_Get t k c)) = spec_touch k (lru_abs c) \<and> lru_inv (snd (lru_Get t k c))"
  proof (cases "map_of (items c) k")
    case None
    then have "map_of (lru_abs c) k = None" by (simp add: items_abs [OF inv])
    then show ?thesis
      using inv None
      by (simp add: lru_Get_miss spec_touch_def lru_abs_def elem_pair_def [abs_def] elem_key_def
          lru_inv_def)
  next
    case (Some e)
    with inv obtain it where e: "e \<in> set (lru c)" "map_of (elems c) e = Some it" "ciKey it = k"
      by (rule items_elem)
    then have p: "elem_pair c e = (k, ciValue it)" by (simp add: elem_pair_def)
    have m: "map_of (lru_abs c) k = Some (ciValue it)"
      by (simp add: items_abs [OF inv] Some p)
    show ?thesis
      using lru_inv_touch [OF inv e(1,2)] abs_removeAll [OF inv Some] m p
      by (simp add: lru_Get_hit [OF Some e(2,1)] spec_touch_def lru_abs_def e)
  qed
  then show "fst (lru_Get t k c) = map_of (lru_abs c) k"
    and "lru_abs (snd (lru_Get t k c)) = spec_touch k (lru_abs c)"
    and "lru_inv (snd (lru_Get t k c))" by blast+
qed

subsection \<open>Removal\<close>

definition lru_drop :: "key \<Rightarrow> elem \<Rightarrow> LRUCache \<Rightarrow> LRUCache" where
  "lru_drop k e c = lru_delete_key k (list_remove e c)"

lemma lru_drop_simps [simp]:
  "capacity (lru_drop k e c) = capacity c" "lru (lru_drop k e c) = removeAll e (lru c)"
  "items (lru_drop k e c) = AList.delete k (items c)" "elem_pair (lru_drop k e c) = elem_pair c"
  "elem_key (lru_drop k e c) = elem_key c" "nextElem (lru_drop k e c) = nextElem c"
  by (auto simp: lru_drop_def lru_delete_key_def list_remove_def elem_pair_def elem_key_def fun_eq_iff)

lemma lru_drop_refines:
  assumes inv: "lru_inv c" and e: "map_of (items c) k = Some e"
  shows "lru_inv (lru_drop k e c)" and "lru_abs (lru_drop k e c) = AList.delete k (lru_abs c)"
proof -
  have uniq: "e' = e" if "e' \<in> set (lru c)" "elem_key c e' = Some k" for e'
    using that e lru_invD(5) [OF inv, of k e'] by simp
  have ke: "elem_key c e = Some k" using e lru_invD(5) [OF inv] by blast
  have m: "map_of (AList.delete k (items c)) k' = Some e' \<longleftrightarrow>
      e' \<in> set (removeAll e (lru c)) \<and> elem_key c e' = Some k'" for k' e'
  proof (cases "k' = k")
    case True
    then show ?thesis using uniq [of e'] by (auto simp: delete_conv')
  next
    case False
    then have "map_of (AList.delete k (items c)) k' = Some e' \<longleftrightarrow>
        e' \<in> set (lru c) \<and> elem_key c e' = Some k'"
      by (simp add: delete_conv' lru_invD(5) [OF inv])
    then show ?thesis using False ke by auto
  qed
  have "length (removeAll e (lru c)) \<le> length (lru c)" by (rule length_removeAll_less_eq)
  then have "int (length (removeAll e (lru c))) \<le> max 1 (capacity c)"
    using lru_invD(6) [OF inv] by linarith
  with m show "lru_inv (lru_drop k e c)"
    using lru_invD(1-4) [OF inv]
    by (simp add: lru_inv_def distinct_removeAll distinct_delete)
  show "lru_abs (lru_drop k e c) = AList.delete k (lru_abs c)"
    using abs_removeAll [OF inv e] by (simp add: lru_abs_def)
qed

lemma lru_Remove_refines:
  assumes "lru_inv c"
  shows "lru_inv (lru_Remove k c)" and "lru_abs (lru_Remove k c) = AList.delete k (lru_abs c)"
    and "capacity (lru_Remove k c) = capacity c"
proof -
  have "lru_inv (lru_Remove k c) \<and> lru_abs (lru_Remove k c) = AList.delete k (lru_abs c) \<and>
    capacity (lru_Remove k c) = capacity c"
  proof (cases "map_of (items c) k")
    case None
    then have "map_of (lru_abs c) k = None" by (simp add: items_abs [OF assms])
    then have "AList.delete k (lru_abs c) = lru_abs c"
      by (simp add: map_of_eq_None_iff delete_id)
    then show ?thesis using None assms by (simp add: lru_Remove_def)
  next
    case (Some e)
    then show ?thesis
      using lru_drop_refines [OF assms Some] by (simp add: lru_Remove_def flip: lru_drop_def)
  qed
  then show "lru_inv (lru_Remove k c)" and "lru_abs (lru_Remove k c) = AList.delete k (lru_abs c)"
    and "capacity (lru_Remove k c) = capacity c" by blast+
qed

lemma delete_last:
  "distinct (map fst xs) \<Longrightarrow> xs \<noteq> [] \<Longrightarrow> AList.delete (fst (last xs)) xs = butlast xs"
proof (induction xs rule: rev_induct)
  case (snoc x xs)
  then have "fst x \<notin> fst ` set xs" by simp
  then show ?case by (cases x) (force simp: AList.delete_eq filter_id_conv)
qed simp

lemma evictOldest_refines:
  assumes inv: "lru_inv c"
  shows "lru_inv (evictOldest c)" and "lru_abs (evictOldest c) = butlast (lru_abs c)"
    and "capacity (evictOldest c) = capacity c"
proof -
  have "lru_inv (evictOldest c) \<and> lru_abs (evictOldest c) = butlast (lru_abs c) \<and>
    capacity (evictOldest c) = capacity c"
  proof (cases "lru c = []")
    case True
    then show ?thesis using inv by (simp add: evictOldest_def lru_abs_def)
  next
    case False
    let ?e = "last (lru c)" and ?k = "fst (elem_pair c (last (lru c)))"
    have e: "?e \<in> set (lru c)" using False by simp
    note it = elem_items_key [OF inv e]
    then obtain i where i: "map_of (elems c) ?e = Some i" "ciKey i = ?k"
      using inv by (metis items_elem)
    have "evictOldest c = lru_drop ?k ?e c"
      using False i by (simp add: evictOldest_def elem_value_def lru_drop_def Let_def)
    moreover have "fst (last (lru_abs c)) = ?k" using False by (simp add: lru_abs_def last_map)
    ultimately show ?thesis
      using lru_drop_refines [OF inv it] delete_last [OF lru_abs_distinct [OF inv]] False
      by (simp add: lru_abs_def)
  qed
  then show "lru_inv (evictOldest c)" and "lru_abs (evictOldest c) = butlast (lru_abs c)"
    and "capacity (evictOldest c) = capacity c" by blast+
qed

subsection \<open>Insertion\<close>

definition lru_push :: "CacheItem \<Rightarrow> LRUCache \<Rightarrow> LRUCache" where
  "lru_push it c =
     (let (e, c') = list_push_front it c
      in c'\<lparr>items := AList.update (ciKey it) e (items c')\<rparr>)"

lemma lru_push_refines:
  assumes inv: "lru_inv c" and new: "map_of (items c) (ciKey it) = None"
    and room: "int (length (lru c)) < max 1 (capacity c)"
  shows "lru_inv (lru_push it c)" and "lru_abs (lru_push it c) = (ciKey it, ciValue it) # lru_abs c"
proof -
  let ?n = "nextElem c" and ?c = "lru_push it c"
  have fresh: "?n \<notin> set (lru c)" using lru_invD(3) [OF inv] by blast
  have f: "lru ?c = ?n # lru c" "items ?c = AList.update (ciKey it) ?n (items c)"
    "elems ?c = (?n, it) # elems c" "nextElem ?c = ?n + 1" "capacity ?c = capacity c"
    by (simp_all add: lru_push_def list_push_front_def)
  have kn: "elem_key ?c ?n = Some (ciKey it)"
    and ko: "\<And>e. e \<in> set (lru c) \<Longrightarrow> elem_key ?c e = elem_key c e"
    and po: "\<And>e. e \<in> set (lru c) \<Longrightarrow> elem_pair ?c e = elem_pair c e"
    using fresh by (auto simp: elem_key_def elem_pair_def f)
  have m: "map_of (items ?c) k = Some e \<longleftrightarrow> e \<in> set (lru ?c) \<and> elem_key ?c e = Some k" for k e
    using lru_invD(5) [OF inv, of k e] lru_invD(5) [OF inv, of "ciKey it" e] new fresh kn ko
    by (auto simp: f update_conv')
  show "lru_inv ?c"
    using lru_invD(1-4) [OF inv] m room fresh kn ko
    by (auto simp: lru_inv_def f distinct_update less_Suc_eq)
  show "lru_abs ?c = (ciKey it, ciValue it) # lru_abs c"
    using po by (auto simp: lru_abs_def f elem_pair_def [of ?c ?n])
qed

lemma lru_Set_push:
  "lru_Set now k v fid pos sz ts c =
     (let c1 = lru_Remove k c;
          c2 = (if capacity c1 \<le> int (length (lru c1)) then evictOldest c1 else c1)
      in lru_push \<lparr>ciKey = k, ciValue = v, ciFileID = fid, ciValuePos = pos, ciValueSize = sz,
             ciTimestamp = ts, ciAccessed = now\<rparr> c2)"
  by (simp add: lru_Set_def lru_Remove_def lru_push_def Let_def)

lemma length_lru_abs [simp]: "length (lru_abs c) = length (lru c)"
  by (simp add: lru_abs_def)

lemma key_notin_delete: "k \<notin> fst ` set (AList.delete k xs)"
  using delete_keys [of k xs] by (metis removeAll_id set_map set_removeAll Diff_iff singletonI)

lemma lru_Set_refines:
  assumes inv: "lru_inv c"
  shows "lru_inv (lru_Set now k v fid pos sz ts c)"
    and "lru_abs (lru_Set now k v fid pos sz ts c) = spec_set (capacity c) k v (lru_abs c)"
proof -
  let ?c1 = "lru_Remove k c"
  let ?c2 = "if capacity ?c1 \<le> int (length (lru ?c1)) then evictOldest ?c1 else ?c1"
  let ?it = "\<lparr>ciKey = k, ciValue = v, ciFileID = fid, ciValuePos = pos, ciValueSize = sz,
             ciTimestamp = ts, ciAccessed = now\<rparr>"
  note r = lru_Remove_refines [OF inv, of k]
  note e = evictOldest_refines [OF r(1)]
  have len: "length (lru ?c1) = length (AList.delete k (lru_abs c))"
    using r(2) by (metis length_lru_abs)
  have i2: "lru_inv ?c2" and cap2: "capacity ?c2 = capacity c"
    using r e by simp_all
  have a2: "lru_abs ?c2 = (if capacity c \<le> int (length (AList.delete k (lru_abs c)))
      then butlast (AList.delete k (lru_abs c)) else AList.delete k (lru_abs c))"
    using r e len by simp
  then have "k \<notin> fst ` set (lru_abs ?c2)"
    using key_notin_delete [of k "lru_abs c"] by (auto dest!: in_set_butlastD split: if_splits)
  then have new: "map_of (items ?c2) k = None"
    using items_None_abs [OF i2] by (metis map_of_eq_None_iff)
  have "length (lru ?c1) - 1 < length (lru ?c1) \<or> length (lru ?c1) = 0" by linarith
  moreover have "length (lru ?c2) =
      (if capacity c \<le> int (length (lru ?c1)) then length (lru ?c1) - 1 else length (lru ?c1))"
    using a2 len by (metis length_butlast length_lru_abs)
  ultimately have room: "int (length (lru ?c2)) < max 1 (capacity ?c2)"
    using lru_invD(6) [OF r(1)] r(3) cap2 by (auto split: if_splits)
  show "lru_inv (lru_Set now k v fid pos sz ts c)"
    and "lru_abs (lru_Set now k v fid pos sz ts c) = spec_set (capacity c) k v (lru_abs c)"
    using lru_push_refines [OF i2 _ room, of ?it] new a2
    by (simp_all add: lru_Set_push Let_def spec_set_def)
qed

lemma lru_Clear_refines:
  "lru_inv c \<Longrightarrow> lru_inv (lru_Clear c)" "lru_abs (lru_Clear c) = []"
  by (auto simp: lru_inv_def lru_Clear_def lru_abs_def)

section \<open>Interface\<close>

text \<open>
  What the clients of a cache rely on: a stored value is found until something displaces
  it, nothing is invented, clearing forgets everything. \<open>'m\<close> is the metadata a store carries.
\<close>

locale cache_store =
  fixes peek :: "'c \<Rightarrow> key \<Rightarrow> bytes option"
    and touch :: "instant \<Rightarrow> key \<Rightarrow> 'c \<Rightarrow> 'c"
    and store :: "'m \<Rightarrow> key \<Rightarrow> bytes \<Rightarrow> 'c \<Rightarrow> 'c"
    and remove :: "key \<Rightarrow> 'c \<Rightarrow> 'c"
    and clear :: "'c \<Rightarrow> 'c"
    and inv :: "'c \<Rightarrow> bool"
  assumes inv_touch: "inv c \<Longrightarrow> inv (touch t k c)"
    and inv_store: "inv c \<Longrightarrow> inv (store m k v c)"
    and inv_remove: "inv c \<Longrightarrow> inv (remove k c)"
    and inv_clear: "inv c \<Longrightarrow> inv (clear c)"
    and peek_touch: "inv c \<Longrightarrow> peek (touch t k c) k' = peek c k'"
    and peek_store_same: "inv c \<Longrightarrow> peek (store m k v c) k = Some v"
    and peek_store_other:
      "inv c \<Longrightarrow> k' \<noteq> k \<Longrightarrow> peek (store m k v c) k' = Some w \<Longrightarrow> peek c k' = Some w"
    and peek_remove: "inv c \<Longrightarrow> peek (remove k c) k' = (if k' = k then None else peek c k')"
    and peek_clear: "inv c \<Longrightarrow> peek (clear c) k = None"
begin

definition coherent :: "(key \<Rightarrow> bytes \<Rightarrow> bool) \<Rightarrow> 'c \<Rightarrow> bool" where
  "coherent P c \<longleftrightarrow> (\<forall>k v. peek c k = Some v \<longrightarrow> P k v)"

lemma coherentD: "coherent P c \<Longrightarrow> peek c k = Some v \<Longrightarrow> P k v"
  by (simp add: coherent_def)

lemma coherent_mono: "coherent P c \<Longrightarrow> (\<And>k v. P k v \<Longrightarrow> Q k v) \<Longrightarrow> coherent Q c"
  by (auto simp: coherent_def)

lemma coherent_touch: "inv c \<Longrightarrow> coherent P (touch t k c) \<longleftrightarrow> coherent P c"
  by (simp add: coherent_def peek_touch)

lemma coherent_store: "inv c \<Longrightarrow> coherent P c \<Longrightarrow> P k v \<Longrightarrow> coherent P (store m k v c)"
  unfolding coherent_def by (metis option.inject peek_store_other peek_store_same)

lemma coherent_remove: "inv c \<Longrightarrow> coherent P c \<Longrightarrow> coherent P (remove k c)"
  by (auto simp: coherent_def peek_remove)

lemma coherent_clear: "inv c \<Longrightarrow> coherent P (clear c)"
  by (simp add: coherent_def peek_clear)

end

type_synonym item_meta = "instant \<times> 32 word \<times> 64 word \<times> 32 word \<times> 32 word"

definition lru_touch :: "instant \<Rightarrow> key \<Rightarrow> LRUCache \<Rightarrow> LRUCache" where
  "lru_touch t k c = snd (lru_Get t k c)"

definition lru_store :: "item_meta \<Rightarrow> key \<Rightarrow> bytes \<Rightarrow> LRUCache \<Rightarrow> LRUCache" where
  "lru_store m k v c = (case m of (now, fid, pos, sz, ts) \<Rightarrow> lru_Set now k v fid pos sz ts c)"

lemma lru_peek_abs: "lru_inv c \<Longrightarrow> lru_peek c k = map_of (lru_abs c) k"
  by (simp add: lru_peek_def lru_Get_refines(1))

lemma map_of_butlast:
  "distinct (map fst xs) \<Longrightarrow> map_of (butlast xs) k = Some v \<Longrightarrow> map_of xs k = Some v"
  by (metis distinct_butlast in_set_butlastD map_butlast map_of_SomeD map_of_is_SomeI)

lemma map_of_spec_touch: "map_of (spec_touch k xs) k' = map_of xs k'"
  by (auto simp: spec_touch_def delete_conv' split: option.splits)

lemma map_of_spec_set:
  assumes "distinct (map fst xs)"
  shows "map_of (spec_set cap k v xs) k = Some v"
    and "k' \<noteq> k \<Longrightarrow> map_of (spec_set cap k v xs) k' = Some w \<Longrightarrow> map_of xs k' = Some w"
  using assms map_of_butlast [OF distinct_delete [OF assms], of k k' w]
  by (auto simp: spec_set_def Let_def delete_conv' split: if_splits)

interpretation lru: cache_store lru_peek lru_touch lru_store lru_Remove lru_Clear lru_inv
proof unfold_locales
  fix c t k k' v w and m :: item_meta
  assume inv: "lru_inv c"
  obtain now fid pos sz ts where m: "m = (now, fid, pos, sz, ts)" by (metis surj_pair)
  note set = lru_Set_refines [OF inv, of now k v fid pos sz ts]
  show "lru_inv (lru_touch t k c)" using inv by (simp add: lru_touch_def lru_Get_refines)
  show "lru_inv (lru_store m k v c)" using set by (simp add: lru_store_def m)
  show "lru_inv (lru_Remove k c)" using inv by (rule lru_Remove_refines)
  show "lru_inv (lru_Clear c)" using inv by (rule lru_Clear_refines)
  show "lru_peek (lru_touch t k c) k' = lru_peek c k'"
    using inv by (simp add: lru_touch_def lru_peek_abs lru_Get_refines map_of_spec_touch)
  show "lru_peek (lru_store m k v c) k = Some v"
    using set map_of_spec_set(1) [OF lru_abs_distinct [OF inv]]
    by (simp add: lru_store_def m lru_peek_abs)
  show "lru_peek c k' = Some w" if "k' \<noteq> k" "lru_peek (lru_store m k v c) k' = Some w"
    using that set map_of_spec_set(2) [OF lru_abs_distinct [OF inv] that(1)] inv
    by (simp add: lru_store_def m lru_peek_abs)
  show "lru_peek (lru_Remove k c) k' = (if k' = k then None else lru_peek c k')"
    using lru_Remove_refines [OF inv] inv by (simp add: lru_peek_abs delete_conv')
  show "lru_peek (lru_Clear c) k = None"
    using lru_Clear_refines(1) [OF inv] lru_Clear_refines(2) [of c]
    by (simp add: lru_peek_abs)
qed

section \<open>\<open>BlockCache\<close>\<close>

text \<open>\<open>crypto/sha256\<close> is a parameter; what the cache needs of it is that it separates blocks.\<close>

record BlockCache =
  bcCache :: LRUCache
  blockSize :: int
  maxBlocks :: int

definition NewBlockCache :: "int \<Rightarrow> int \<Rightarrow> BlockCache" where
  "NewBlockCache maxb bsize = \<lparr>bcCache = NewLRUCache maxb, blockSize = bsize, maxBlocks = maxb\<rparr>"

definition generateBlockKey :: "(bytes \<Rightarrow> bytes) \<Rightarrow> 32 word \<Rightarrow> 64 word \<Rightarrow> key" where
  "generateBlockKey sha fid off = sha (put_u32 fid @ put_u64 off)"

definition GetBlock ::
  "(bytes \<Rightarrow> bytes) \<Rightarrow> instant \<Rightarrow> 32 word \<Rightarrow> 64 word \<Rightarrow> 32 word \<Rightarrow> BlockCache \<Rightarrow>
   bytes option \<times> BlockCache" where
  "GetBlock sha now fid off sz bc =
     (let (r, c) = lru_Get now (generateBlockKey sha fid off) (bcCache bc)
      in (r, bc\<lparr>bcCache := c\<rparr>))"

definition SetBlock ::
  "(bytes \<Rightarrow> bytes) \<Rightarrow> instant \<Rightarrow> 32 word \<Rightarrow> 64 word \<Rightarrow> bytes \<Rightarrow> BlockCache \<Rightarrow> BlockCache" where
  "SetBlock sha now fid off data bc =
     bc\<lparr>bcCache := lru_Set now (generateBlockKey sha fid off) data fid off
          (of_nat (length data)) (unix32 now) (bcCache bc)\<rparr>"

text \<open>Invalidating one file empties the whole cache, as the source's comment says.\<close>

definition InvalidateFile :: "32 word \<Rightarrow> BlockCache \<Rightarrow> BlockCache" where
  "InvalidateFile fid bc = bc\<lparr>bcCache := lru_Clear (bcCache bc)\<rparr>"

text \<open>Block keys are separated when the hash is injective on the twelve-byte descriptors.\<close>

definition sha_separates :: "(bytes \<Rightarrow> bytes) \<Rightarrow> bool" where
  "sha_separates sha \<longleftrightarrow> inj_on sha {b. length b = 12}"

lemma generateBlockKey_inj:
  "sha_separates sha \<Longrightarrow> generateBlockKey sha f o1 = generateBlockKey sha g o2 \<longleftrightarrow> f = g \<and> o1 = o2"
proof -
  assume sep: "sha_separates sha"
  have "sha (put_u32 f @ put_u64 o1) = sha (put_u32 g @ put_u64 o2) \<longleftrightarrow>
      put_u32 f @ put_u64 o1 = put_u32 g @ put_u64 o2"
    by (rule inj_on_eq_iff [OF sep [unfolded sha_separates_def]]) simp_all
  also have "\<dots> \<longleftrightarrow> put_u32 f = put_u32 g \<and> put_u64 o1 = put_u64 o2"
    by (rule append_eq_append_conv) simp
  finally show ?thesis by (simp add: generateBlockKey_def)
qed

section \<open>\<open>KeyCache\<close>\<close>

text \<open>
  The index entry is kept as 16 bytes: file, position and size. The other fields are not
  stored, so an entry read back has no timestamp, no expiry, no compression and is not
  deleted.
\<close>

record KeyCache =
  kcCache :: LRUCache

definition NewKeyCache :: "int \<Rightarrow> KeyCache" where
  "NewKeyCache cap = \<lparr>kcCache = NewLRUCache cap\<rparr>"

definition encode_KeyDir :: "KeyDir \<Rightarrow> bytes" where
  "encode_KeyDir kd = put_u32 (FileID kd) @ put_u64 (ValuePos kd) @ put_u32 (ValueSize kd)"

definition decode_KeyDir :: "bytes \<Rightarrow> KeyDir" where
  "decode_KeyDir data =
     \<lparr>FileID = get_u32 (byte_slice 0 4 data), ValueSize = get_u32 (byte_slice 12 4 data),
      ValuePos = get_u64 (byte_slice 4 8 data), Timestamp = 0, TTL = 0, Compression = NoCompression,
      Deleted = False\<rparr>"

definition GetKeyDir :: "instant \<Rightarrow> key \<Rightarrow> KeyCache \<Rightarrow> KeyDir option \<times> KeyCache" where
  "GetKeyDir now k kc =
     (let (r, c) = lru_Get now k (kcCache kc)
      in (map_option decode_KeyDir r, kc\<lparr>kcCache := c\<rparr>))"

definition SetKeyDir :: "instant \<Rightarrow> key \<Rightarrow> KeyDir \<Rightarrow> KeyCache \<Rightarrow> KeyCache" where
  "SetKeyDir now k kd kc =
     kc\<lparr>kcCache := lru_Set now k (encode_KeyDir kd) (FileID kd) (ValuePos kd) (ValueSize kd)
          (unix32 now) (kcCache kc)\<rparr>"

definition RemoveKey :: "key \<Rightarrow> KeyCache \<Rightarrow> KeyCache" where
  "RemoveKey k kc = kc\<lparr>kcCache := lru_Remove k (kcCache kc)\<rparr>"

lemma decode_encode_KeyDir [rt_simps]:
  "decode_KeyDir (encode_KeyDir kd) =
     kd\<lparr>Timestamp := 0, TTL := 0, Compression := NoCompression, Deleted := False\<rparr>"
  by (simp add: decode_KeyDir_def encode_KeyDir_def byte_slice_def)

end
