(* ===== verification/Platform.thy ===== *)
theory Platform
  imports EntryFormat Decimal
begin

text \<open>
  What the program takes from outside: the compression packages, the hash, the wall clock,
  the number of processors, the order in which Go visits a map, the outcome of each write
  to a file. They are the fields of \<open>Platform\<close>, an argument of every definition that uses
  them, so a theorem holds for each of them unless it assumes a documented law
  (\<open>codec_ok\<close>, \<open>order_ok\<close>, \<open>writes_ok\<close>). \<open>World\<close> is what the program leaves behind: the files
  of the data directory, those of the snapshot directories, and how many clock readings and
  writes there have been.
\<close>

section \<open>Records of the log\<close>

type_synonym WALOpType = "8 word"

abbreviation (input) WALPut :: WALOpType where "WALPut \<equiv> 1"
abbreviation (input) WALDelete :: WALOpType where "WALDelete \<equiv> 2"
abbreviation (input) WALBegin :: WALOpType where "WALBegin \<equiv> 3"
abbreviation (input) WALCommit :: WALOpType where "WALCommit \<equiv> 4"
abbreviation (input) WALRollback :: WALOpType where "WALRollback \<equiv> 5"

text \<open>\<open>WALEntry\<close>, the struct \<open>encoding/json\<close> writes and reads.\<close>

record WALEntry =
  weType :: WALOpType
  weTimestamp :: "64 word"
  weKey :: key
  weValue :: bytes
  weTxID :: key

section \<open>The platform\<close>

text \<open>
  Decoders are partial. \<open>range_order t ks\<close> is the order in which the loop that starts at
  clock tick \<open>t\<close> visits a map with the keys \<open>ks\<close>. \<open>write_fault n\<close> is what happens to the
  \<open>n\<close>-th write: \<open>None\<close> when it succeeds, \<open>Some m\<close> when only \<open>m\<close> bytes reach the file and the
  call returns an error.
\<close>

record Platform =
  snappyEncode :: "bytes \<Rightarrow> bytes"
  snappyDecode :: "bytes \<Rightarrow> bytes option"
  zstdEncode :: "bytes \<Rightarrow> bytes"
  zstdDecode :: "bytes \<Rightarrow> bytes option"
  gzipEncode :: "bytes \<Rightarrow> bytes"
  gzipDecode :: "bytes \<Rightarrow> bytes option"
  sha256 :: "bytes \<Rightarrow> bytes"
  jsonMarshal :: "WALEntry \<Rightarrow> bytes"
  jsonUnmarshal :: "bytes \<Rightarrow> WALEntry option"
  clock :: "nat \<Rightarrow> instant"
  numCPU :: nat
  range_order :: "nat \<Rightarrow> key list \<Rightarrow> key list"
  write_fault :: "nat \<Rightarrow> nat option"

definition codec_ok :: "Platform \<Rightarrow> bool" where
  "codec_ok P \<longleftrightarrow>
     (\<forall>d. snappyDecode P (snappyEncode P d) = Some d) \<and>
     (\<forall>d. zstdDecode P (zstdEncode P d) = Some d) \<and>
     (\<forall>d. gzipDecode P (gzipEncode P d) = Some d)"

definition order_ok :: "Platform \<Rightarrow> bool" where
  "order_ok P \<longleftrightarrow> (\<forall>t ks. mset (range_order P t ks) = mset ks)"

definition writes_ok :: "Platform \<Rightarrow> bool" where
  "writes_ok P \<longleftrightarrow> (\<forall>n. write_fault P n = None)"

definition clock_mono :: "Platform \<Rightarrow> bool" where
  "clock_mono P \<longleftrightarrow> (\<forall>m n. m \<le> n \<longrightarrow> clock P m \<le> clock P n)"

text \<open>The map visited in that order.\<close>

definition visit :: "Platform \<Rightarrow> nat \<Rightarrow> (key \<times> 'v) list \<Rightarrow> (key \<times> 'v) list" where
  "visit P t m =
     concat (map (\<lambda>k. case map_of m k of Some v \<Rightarrow> [(k, v)] | None \<Rightarrow> [])
       (range_order P t (map fst m)))"

lemma visit_map_of:
  assumes "order_ok P" "distinct (map fst m)"
  shows "map_of (visit P t m) = map_of m"
proof -
  have s: "set (range_order P t (map fst m)) = fst ` set m"
    using assms(1) by (metis list.set_map order_ok_def set_mset_mset)
  have "map_of (concat (map (\<lambda>k. case map_of m k of Some v \<Rightarrow> [(k, v)] | None \<Rightarrow> []) ks)) k =
      (if k \<in> set ks then map_of m k else None)" for ks k
    by (induction ks) (auto split: option.splits)
  then have "map_of (visit P t m) k = (if k \<in> fst ` set m then map_of m k else None)" for k
    by (simp add: visit_def s)
  then show ?thesis by (intro ext) (metis map_of_eq_None_iff)
qed

lemma visit_distinct:
  assumes "order_ok P" "distinct (map fst m)"
  shows "distinct (map fst (visit P t m))"
proof -
  let ?ks = "range_order P t (map fst m)"
  have d: "distinct ?ks"
    using assms by (metis mset_eq_imp_distinct_iff order_ok_def)
  have s: "set ?ks = fst ` set m"
    using assms(1) by (metis list.set_map order_ok_def set_mset_mset)
  have "map fst (concat (map (\<lambda>k. case map_of m k of Some v \<Rightarrow> [(k, v)] | None \<Rightarrow> []) ks)) = ks"
    if "set ks \<subseteq> fst ` set m" for ks
    using that by (induction ks) (auto split: option.splits simp: map_of_eq_None_iff)
  then have "map fst (visit P t m) = ?ks"
    by (simp add: visit_def s)
  then show ?thesis using d by simp
qed

section \<open>The world\<close>

type_synonym files = "(bytes \<times> bytes) list"

record World =
  wFiles :: files
  wSnaps :: "(bytes \<times> files) list"
  wTicks :: nat
  wWrites :: nat

text \<open>One reading of \<open>time.Now()\<close>.\<close>

definition read_clock :: "Platform \<Rightarrow> World \<Rightarrow> instant \<times> World" where
  "read_clock P w = (clock P (wTicks w), w\<lparr>wTicks := Suc (wTicks w)\<rparr>)"

definition contents :: "bytes \<Rightarrow> files \<Rightarrow> bytes" where
  "contents f fs = (case map_of fs f of Some c \<Rightarrow> c | None \<Rightarrow> [])"

text \<open>\<open>O_CREATE\<close>: an empty file where there is none.\<close>

definition create_missing :: "bytes \<Rightarrow> files \<Rightarrow> files" where
  "create_missing f fs = (if map_of fs f = None then AList.update f [] fs else fs)"

text \<open>
  Writing to a file opened for appending. A closed or missing handle is \<open>InvalidHandle\<close>.
  No handle is kept across the removal of its file, so its name identifies the file.
\<close>

definition append_file ::
  "Platform \<Rightarrow> bytes option \<Rightarrow> bytes \<Rightarrow> World \<Rightarrow> unit outcome \<times> World" where
  "append_file P h data w =
     (case h of
        None \<Rightarrow> (Err InvalidHandle, w)
      | Some f \<Rightarrow>
          let put = (\<lambda>d. w\<lparr>wFiles := AList.update f (contents f (wFiles w) @ d) (wFiles w),
                           wWrites := Suc (wWrites w)\<rparr>)
          in (case write_fault P (wWrites w) of
                None \<Rightarrow> (Ok (), put data)
              | Some n \<Rightarrow> (Err WriteFailed, put (take n data))))"

text \<open>The size of the file behind a handle: \<open>Stat\<close>, or \<open>Seek\<close> to the end.\<close>

definition file_size :: "bytes option \<Rightarrow> World \<Rightarrow> nat outcome" where
  "file_size h w =
     (case h of None \<Rightarrow> Err InvalidHandle | Some f \<Rightarrow> Ok (length (contents f (wFiles w))))"

text \<open>\<open>filepath.Glob(DataPath + "/*.data")\<close> and the same in a snapshot directory.\<close>

definition DataSuffix :: bytes where
  "DataSuffix = str ''.data''"

definition glob_data :: "files \<Rightarrow> bytes list" where
  "glob_data fs = sort (filter (\<lambda>f. has_suffix f DataSuffix) (map fst fs))"

lemma contents_update:
  "contents f (AList.update g d fs) = (if f = g then d else contents f fs)"
  by (simp add: contents_def update_conv')

lemma contents_create_missing [simp]: "contents f (create_missing g fs) = contents f fs"
  by (simp add: create_missing_def contents_def update_conv')

lemma dom_create_missing: "dom (map_of (create_missing f fs)) = insert f (dom (map_of fs))"
  by (auto simp: create_missing_def update_conv' dom_def)

lemma append_file_ok:
  assumes "write_fault P (wWrites w) = None"
  shows "append_file P (Some f) d w =
    (Ok (), w\<lparr>wFiles := AList.update f (contents f (wFiles w) @ d) (wFiles w),
       wWrites := Suc (wWrites w)\<rparr>)"
  using assms by (simp add: append_file_def)

text \<open>Whatever a write does, each file keeps what it held and grows by a prefix of the data.\<close>

lemma append_file_extends:
  assumes "append_file P h d w = (r, w')"
  shows "\<exists>n. contents f (wFiles w') =
      contents f (wFiles w) @ (if h = Some f then take n d else []) \<and>
      (r = Ok () \<longrightarrow> n = length d)"
proof (cases h)
  case None
  then show ?thesis using assms by (auto simp: append_file_def)
next
  case (Some g)
  show ?thesis
  proof (cases "write_fault P (wWrites w)")
    case None
    then show ?thesis using assms Some
      by (intro exI [of _ "length d"]) (auto simp: append_file_def contents_update)
  next
    case (Some n)
    then show ?thesis using assms \<open>h = Some g\<close>
      by (intro exI [of _ n]) (auto simp: append_file_def contents_update)
  qed
qed

lemma append_file_frame [frame_simps]:
  assumes "append_file P h d w = (r, w')"
  shows "wSnaps w' = wSnaps w" "wTicks w' = wTicks w"
  using assms by (auto simp: append_file_def Let_def split: option.splits)

end
