(* ===== verification/Codecs.thy ===== *)
theory Codecs
  imports Platform Framing
begin

text \<open>
  The byte formats of \<open>smart_compression.go\<close>: one value compressed by one algorithm, and the
  three chunked formats (mixed, parallel, stream) with the decoder that tells formats apart by
  their first byte. The round trips hold for every codec that has one.
\<close>

section \<open>One algorithm\<close>

definition compressWithAlgorithm :: "Platform \<Rightarrow> bytes \<Rightarrow> CompressionType \<Rightarrow> bytes" where
  "compressWithAlgorithm P data a =
     (if a = SnappyCompression then snappyEncode P data
      else if a = ZSTDCompression then zstdEncode P data
      else if a = GzipCompression then gzipEncode P data
      else data)"

definition decompressChunk :: "Platform \<Rightarrow> bytes \<Rightarrow> CompressionType \<Rightarrow> bytes outcome" where
  "decompressChunk P data a =
     (if a = SnappyCompression then of_option CodecError (snappyDecode P data)
      else if a = ZSTDCompression then of_option CodecError (zstdDecode P data)
      else if a = GzipCompression then of_option CodecError (gzipDecode P data)
      else Ok data)"

lemma decompressChunk_compress [simp, rt_simps]:
  "codec_ok P \<Longrightarrow> decompressChunk P (compressWithAlgorithm P d a) a = Ok d"
  by (simp add: codec_ok_def decompressChunk_def compressWithAlgorithm_def of_option_def)

lemma decompressChunk_returns:
  "decompressChunk P d a \<noteq> Panic" "decompressChunk P d a \<noteq> Blocked"
  by (auto simp: decompressChunk_def of_option_def split: option.splits)

section \<open>Chunks\<close>

text \<open>\<open>data[i*n : min((i+1)*n, len)]\<close> for the first \<open>m\<close> chunks.\<close>

definition split_chunks :: "nat \<Rightarrow> nat \<Rightarrow> bytes \<Rightarrow> bytes list" where
  "split_chunks m n data = map (\<lambda>i. byte_slice (i * n) n data) [0..<m]"

definition chunk_count :: "nat \<Rightarrow> nat \<Rightarrow> nat" where
  "chunk_count len n = len div n + (if len mod n \<noteq> 0 then 1 else 0)"

text \<open>The header \<open>"%d:%d:"\<close> of a chunk in the mixed format.\<close>

definition mixed_block :: "CompressionType \<Rightarrow> bytes \<Rightarrow> bytes" where
  "mixed_block a z = show_nat (unat a) @ [58] @ show_nat (length z) @ [58] @ z"

text \<open>A block of the parallel and of the stream format.\<close>

definition parallel_block :: "Platform \<Rightarrow> CompressionType \<times> bytes \<Rightarrow> bytes" where
  "parallel_block P j =
     (let z = compressWithAlgorithm P (snd j) (fst j)
      in fst j # put_u32_le (of_nat (length (snd j))) @ put_u32_le (of_nat (length z)) @ z)"

definition stream_block :: "Platform \<Rightarrow> CompressionType \<Rightarrow> bytes \<Rightarrow> bytes" where
  "stream_block P a c =
     (let z = compressWithAlgorithm P c a
      in put_u32_le (of_nat (length c)) @ put_u32_le (of_nat (length z)) @ z)"

section \<open>Decoding\<close>

definition mixed_algorithm :: "bytes \<Rightarrow> CompressionType" where
  "mixed_algorithm s =
     (if s = str ''1'' then SnappyCompression
      else if s = str ''2'' then ZSTDCompression
      else if s = str ''3'' then GzipCompression
      else NoCompression)"

text \<open>
  The loop over the blocks: \<open>r\<close> is \<open>data[pos:]\<close>, \<open>len\<close> the length of all the data. Without two
  more colons the rest is ignored. A negative size, or one that overflows \<open>int\<close> when the
  start is added, passes the boundary check and makes the slice expression panic.
\<close>

function (sequential) mixed_decode :: "Platform \<Rightarrow> int \<Rightarrow> bytes \<Rightarrow> bytes \<Rightarrow> bytes outcome" where
  "mixed_decode P len r acc =
     (if 58 \<notin> set r then Ok acc
      else let algoStr = takeWhile (\<lambda>b. b \<noteq> 58) r; r1 = drop (length algoStr + 1) r
      in if 58 \<notin> set r1 then Ok acc
      else let sizeStr = takeWhile (\<lambda>b. b \<noteq> 58) r1; r2 = drop (length sizeStr + 1) r1
      in case parse_int sizeStr of
           Ok n \<Rightarrow>
             let dataStart = len - int (length r2)
             in if n < 0 \<or> dataStart + n \<ge> 2 ^ 63 then Panic
                else if n > int (length r2) then Err (Message ''invalid chunk data boundary'')
                else (case decompressChunk P (take (nat n) r2) (mixed_algorithm algoStr) of
                        Ok d \<Rightarrow> mixed_decode P len (drop (nat n) r2) (acc @ d)
                      | Err e \<Rightarrow> Err (Wrapped ''failed to decompress chunk'' e)
                      | Panic \<Rightarrow> Panic
                      | Blocked \<Rightarrow> Blocked)
         | Err e \<Rightarrow> Err (Wrapped ''invalid chunk size'' e)
         | Panic \<Rightarrow> Panic
         | Blocked \<Rightarrow> Blocked)"
  by pat_completeness auto

termination
  by (relation "measure (\<lambda>(P, len, r, acc). length r)")
    (auto simp: Let_def length_pos_if_in_set intro!: diff_less)

declare mixed_decode.simps [simp del]

definition decompressMixedMode :: "Platform \<Rightarrow> bytes \<Rightarrow> bytes outcome" where
  "decompressMixedMode P data =
     (if data = [] \<or> hd data \<noteq> 0x01 then Ok data
      else mixed_decode P (int (length data)) (tl data) [])"

text \<open>Reading a little-endian \<open>uint32\<close> and a byte from the reader.\<close>

definition read_u32_le :: "bytes \<Rightarrow> 32 word outcome \<times> bytes" where
  "read_u32_le r = read_bind (read_full 4 r) (\<lambda>b r1. (Ok (get_u32_le b), r1))"

definition read_byte :: "bytes \<Rightarrow> byte outcome \<times> bytes" where
  "read_byte r = (case r of [] \<Rightarrow> (Err EOF, []) | b # r1 \<Rightarrow> (Ok b, r1))"

definition err_in :: "string \<Rightarrow> 'a outcome \<times> bytes \<Rightarrow> 'a outcome \<times> bytes" where
  "err_in m x = (map_err (Wrapped m) (fst x), snd x)"

text \<open>
  One block after its algorithm: the two sizes, the compressed bytes, the decoded bytes, whose
  number must be the original size.
\<close>

definition read_block ::
  "Platform \<Rightarrow> CompressionType \<Rightarrow> bytes \<Rightarrow> bytes outcome \<times> bytes" where
  "read_block P a r =
     read_bind (err_in ''failed to read original size'' (read_u32_le r)) (\<lambda>osize r1.
     read_bind (err_in ''failed to read compressed size'' (read_u32_le r1)) (\<lambda>csize r2.
     read_bind (err_in ''failed to read compressed data'' (read_full (unat csize) r2)) (\<lambda>z r3.
     read_bind (err_in ''failed to decompress chunk'' (decompressChunk P z a, r3)) (\<lambda>d r4.
       if length d \<noteq> unat osize then (Err (Message ''chunk size mismatch''), r4)
       else (Ok d, r4)))))"

definition read_parallel_block :: "Platform \<Rightarrow> bytes \<Rightarrow> bytes outcome \<times> bytes" where
  "read_parallel_block P r =
     read_bind (err_in ''failed to read algorithm type'' (read_byte r)) (\<lambda>a r1. read_block P a r1)"

fun read_blocks ::
  "(bytes \<Rightarrow> bytes outcome \<times> bytes) \<Rightarrow> nat \<Rightarrow> bytes \<Rightarrow> bytes outcome \<times> bytes" where
  "read_blocks f 0 r = (Ok [], r)"
| "read_blocks f (Suc n) r =
     read_bind (f r) (\<lambda>d r1. read_bind (read_blocks f n r1) (\<lambda>ds r2. (Ok (d @ ds), r2)))"

definition decompressParallelMode :: "Platform \<Rightarrow> bytes \<Rightarrow> bytes outcome" where
  "decompressParallelMode P data =
     (if data = [] \<or> hd data \<noteq> 0x02 then Ok data
      else if length data < 5 then Err (Message ''invalid parallel compression format'')
      else fst (read_bind (err_in ''failed to read chunk count'' (read_u32_le (tl data))) (\<lambda>n r1.
             read_blocks (read_parallel_block P) (unat n) r1)))"

definition decompressStreamMode :: "Platform \<Rightarrow> bytes \<Rightarrow> bytes outcome" where
  "decompressStreamMode P data =
     (if data = [] \<or> hd data \<noteq> 0x03 then Ok data
      else if length data < 6 then Err (Message ''invalid stream compression format'')
      else fst (read_bind (err_in ''failed to read chunk count'' (read_u32_le (tl data))) (\<lambda>n r1.
                read_bind (err_in ''failed to read algorithm type'' (read_byte r1)) (\<lambda>a r2.
                  read_blocks (read_block P a) (unat n) r2))))"

text \<open>Trying one codec after the other; what none recognises is returned as it is.\<close>

definition decompressSimpleFormat :: "Platform \<Rightarrow> bytes \<Rightarrow> bytes outcome" where
  "decompressSimpleFormat P data =
     (case (if data \<noteq> [] then snappyDecode P data else None) of
        Some d \<Rightarrow> Ok d
      | None \<Rightarrow>
          (case zstdDecode P data of
             Some d \<Rightarrow> Ok d
           | None \<Rightarrow>
               if 2 \<le> length data \<and> data ! 0 = 0x1f \<and> data ! 1 = 0x8b
               then map_err (Wrapped ''failed to decompress'')
                      (of_option CodecError (gzipDecode P data))
               else Ok data))"

definition smart_Decompress :: "Platform \<Rightarrow> bytes \<Rightarrow> bytes outcome" where
  "smart_Decompress P data =
     (if data = [] then Ok []
      else if hd data = 0x01 then decompressMixedMode P data
      else if hd data = 0x02 then decompressParallelMode P data
      else if hd data = 0x03 then decompressStreamMode P data
      else decompressSimpleFormat P data)"

section \<open>Round trips\<close>

lemma length_split_chunks [simp]: "length (split_chunks m n data) = m"
  by (simp add: split_chunks_def)

lemma split_chunks_Suc: "split_chunks (Suc m) n data = split_chunks m n data @ [byte_slice (m * n) n data]"
  by (simp add: split_chunks_def)

lemma concat_split_chunks: "concat (split_chunks m n data) = take (m * n) data"
  by (induction m) (simp_all add: split_chunks_Suc byte_slice_def take_add [symmetric] add.commute,
      simp add: split_chunks_def)

lemma split_chunks_length: "c \<in> set (split_chunks m n data) \<Longrightarrow> length c \<le> n"
  by (auto simp: split_chunks_def byte_slice_def)

lemma split_chunks_length_data: "c \<in> set (split_chunks m n data) \<Longrightarrow> length c \<le> length data"
  by (auto simp: split_chunks_def byte_slice_def)

lemma chunk_count_covers: "0 < n \<Longrightarrow> len \<le> chunk_count len n * n"
proof (cases "len mod n = 0")
  case True
  then have "chunk_count len n = len div n" by (simp add: chunk_count_def)
  moreover have "len div n * n = len" using div_mult_mod_eq [of len n] True by linarith
  ultimately show ?thesis by simp
next
  case False
  assume "0 < n"
  then have "len mod n < n" by simp
  moreover have "len div n * n + len mod n = len" by (rule div_mult_mod_eq)
  moreover have "chunk_count len n * n = len div n * n + n"
    using False by (simp add: chunk_count_def)
  ultimately show ?thesis by linarith
qed

lemma concat_all_chunks: "0 < n \<Longrightarrow> concat (split_chunks (chunk_count (length d) n) n d) = d"
  using chunk_count_covers [of n "length d"] by (simp add: concat_split_chunks)

subsection \<open>Mixed\<close>

lemma mixed_decode_nil [simp]: "mixed_decode P len [] acc = Ok acc"
  by (simp add: mixed_decode.simps)

lemma takeWhile_no_colon [simp]:
  "58 \<notin> set xs \<Longrightarrow> takeWhile (\<lambda>b. b \<noteq> 58) (xs @ 58 # r) = (xs :: bytes)"
  by (induction xs) auto

lemma show_nat_no_colon [simp]: "58 \<notin> set (show_nat n)"
  by (rule show_nat_no_sep) (simp add: is_digit_def)

lemma mixed_decode_block:
  assumes "decompressChunk P z (mixed_algorithm (show_nat (unat a))) = Ok d"
    and "int (length r + length z) \<le> len" "len < 2 ^ 63"
  shows "mixed_decode P len (mixed_block a z @ r) acc = mixed_decode P len r (acc @ d)"
  using assms by (subst mixed_decode.simps) (simp add: mixed_block_def Let_def)

lemma mixed_algorithm_show:
  "a \<le> 3 \<Longrightarrow> mixed_algorithm (show_nat (unat a)) = a"
proof -
  assume "a \<le> 3"
  then have "a = 0 \<or> a = 1 \<or> a = 2 \<or> a = 3"
    by (auto simp: word_le_nat_alt unat_eq_0 [symmetric] word_unat_eq_iff)
  then show ?thesis
    by (elim disjE) (simp_all add: mixed_algorithm_def show_nat.simps str_def)
qed

lemma length_mixed_block: "length z \<le> length (mixed_block a z)"
  by (simp add: mixed_block_def)

text \<open>Decoding the blocks that \<open>zs\<close> lists gives the chunks back.\<close>

lemma mixed_decode_blocks:
  assumes "codec_ok P" "\<forall>(a, c) \<in> set js. a \<le> 3"
    and "int (length (concat (map (\<lambda>(a, c). mixed_block a (compressWithAlgorithm P c a)) js))) \<le> len"
    and "len < 2 ^ 63"
  shows "mixed_decode P len (concat (map (\<lambda>(a, c). mixed_block a (compressWithAlgorithm P c a)) js)) acc =
    Ok (acc @ concat (map snd js))"
  using assms(2,3)
proof (induction js arbitrary: acc)
  case (Cons j js)
  obtain a c where j: "j = (a, c)" by (cases j)
  show ?case
    using Cons.prems Cons.IH [of "acc @ c"] assms(1,4)
      length_mixed_block [of "compressWithAlgorithm P c a" a]
    by (simp add: j mixed_decode_block [of _ _ _ c] mixed_algorithm_show)
qed simp

subsection \<open>Parallel and stream\<close>

lemma read_u32_le_put [simp]: "read_u32_le (put_u32_le v @ r) = (Ok v, r)"
  by (simp add: read_u32_le_def read_full_append)

lemma err_in_Ok [simp]: "err_in m (Ok x, r) = (Ok x, r)"
  by (simp add: err_in_def)

lemma read_block_stream:
  assumes "codec_ok P" "length c < 2 ^ 32" "length (compressWithAlgorithm P c a) < 2 ^ 32"
  shows "read_block P a (stream_block P a c @ r) = (Ok c, r)"
  using assms by (simp add: read_block_def stream_block_def Let_def unat_of_nat_small read_full_append)

lemma parallel_block_stream: "parallel_block P (a, c) = a # stream_block P a c"
  by (simp add: parallel_block_def stream_block_def Let_def)

lemma read_parallel_block_put:
  assumes "codec_ok P" "length c < 2 ^ 32" "length (compressWithAlgorithm P c a) < 2 ^ 32"
  shows "read_parallel_block P (parallel_block P (a, c) @ r) = (Ok c, r)"
  using assms by (simp add: read_parallel_block_def parallel_block_stream read_byte_def read_block_stream)

lemma read_blocks_all:
  assumes "\<And>x r. x \<in> set xs \<Longrightarrow> f (enc x @ r) = (Ok (dec x), r)"
  shows "read_blocks f (length xs) (concat (map enc xs) @ r) = (Ok (concat (map dec xs)), r)"
  using assms by (induction xs) auto

text \<open>The sizes of a block fit their 32-bit fields.\<close>

definition block_fits :: "Platform \<Rightarrow> CompressionType \<times> bytes \<Rightarrow> bool" where
  "block_fits P j \<longleftrightarrow> length (snd j) < 2 ^ 32 \<and> length (compressWithAlgorithm P (snd j) (fst j)) < 2 ^ 32"

lemma decompressParallelMode_blocks:
  assumes "codec_ok P" "list_all (block_fits P) js" "length js < 2 ^ 32"
  shows "decompressParallelMode P
      (0x02 # put_u32_le (of_nat (length js)) @ concat (map (parallel_block P) js)) =
    Ok (concat (map snd js))"
proof -
  have "read_blocks (read_parallel_block P) (length js) (concat (map (parallel_block P) js) @ []) =
      (Ok (concat (map snd js)), [])"
    using assms(1,2)
    by (intro read_blocks_all) (auto simp: list_all_iff block_fits_def read_parallel_block_put)
  then show ?thesis
    using assms(3) by (simp add: decompressParallelMode_def unat_of_nat_small)
qed

lemma decompressStreamMode_blocks:
  assumes "codec_ok P" "list_all (\<lambda>c. block_fits P (a, c)) cs" "length cs < 2 ^ 32"
  shows "decompressStreamMode P
      (0x03 # put_u32_le (of_nat (length cs)) @ [a] @ concat (map (stream_block P a) cs)) =
    Ok (concat cs)"
proof -
  have "read_blocks (read_block P a) (length cs) (concat (map (stream_block P a) cs) @ []) =
      (Ok (concat (map id cs)), [])"
    using assms(1,2)
    by (intro read_blocks_all) (auto simp: list_all_iff block_fits_def read_block_stream)
  then show ?thesis
    using assms(3) by (simp add: decompressStreamMode_def unat_of_nat_small read_byte_def)
qed

text \<open>The two sized formats never panic; the mixed format can.\<close>

definition returns :: "'a outcome \<Rightarrow> bool" where
  "returns r \<longleftrightarrow> (\<exists>x. r = Ok x) \<or> (\<exists>e. r = Err e)"

lemma returns_simps [simp]:
  "returns (Ok x)" "returns (Err e)" "\<not> returns Panic" "\<not> returns Blocked"
  by (auto simp: returns_def)

lemma returns_read_bind:
  "returns (fst m) \<Longrightarrow> (\<And>x r. m = (Ok x, r) \<Longrightarrow> returns (fst (f x r))) \<Longrightarrow> returns (fst (read_bind m f))"
  by (cases m; cases "fst m") auto

lemma returns_map_err [simp]: "returns (map_err g r) \<longleftrightarrow> returns r"
  by (cases r) auto

lemma returns_err_in [simp]: "returns (fst (err_in m x)) \<longleftrightarrow> returns (fst x)"
  by (simp add: err_in_def)

lemma returns_read_full [simp]: "returns (fst (read_full n r))"
  by (simp add: read_full_def)

lemma returns_of_option [simp]: "returns (of_option e x)"
  by (simp add: of_option_def split: option.splits)

lemma returns_decompressChunk [simp]: "returns (decompressChunk P d a)"
  by (simp add: decompressChunk_def)

lemma returns_read_u32_le [simp]: "returns (fst (read_u32_le r))"
  unfolding read_u32_le_def by (rule returns_read_bind) simp_all

lemma returns_read_byte [simp]: "returns (fst (read_byte r))"
  by (simp add: read_byte_def split: list.splits)

lemma returns_read_block [simp]: "returns (fst (read_block P a r))"
  unfolding read_block_def by (intro returns_read_bind) (simp_all add: returns_read_bind)

lemma returns_read_parallel_block [simp]: "returns (fst (read_parallel_block P r))"
  unfolding read_parallel_block_def by (intro returns_read_bind) simp_all

lemma returns_read_blocks: "(\<And>r. returns (fst (f r))) \<Longrightarrow> returns (fst (read_blocks f n r))"
  by (induction n arbitrary: r) (simp_all add: returns_read_bind)

lemma returns_sized_modes:
  "returns (decompressParallelMode P d)" "returns (decompressStreamMode P d)"
  by (auto simp: decompressParallelMode_def decompressStreamMode_def
      intro!: returns_read_bind returns_read_blocks)

lemma returns_decompressSimpleFormat [simp]: "returns (decompressSimpleFormat P d)"
  by (simp add: decompressSimpleFormat_def split: option.splits)

lemma returns_smart_Decompress:
  "hd d \<noteq> 0x01 \<Longrightarrow> returns (smart_Decompress P d)"
  by (simp add: smart_Decompress_def returns_sized_modes)

end
