(* ===== verification/SmartCompression.thy ===== *)
theory SmartCompression
  imports Codecs Complex_Main
begin

text \<open>
  \<open>smart_compression.go\<close>: the compressor that decides per value whether and how to compress.
  Its state is the configuration, the statistics, a cache of earlier results, the training
  samples of the dictionaries and the worker pool. The chunked formats (mixed, parallel,
  stream) and the decoder that tells formats apart by their first byte are modelled byte
  for byte; the codecs are those of the platform. \<open>float64\<close> is modelled by the reals and
  \<open>int\<close>, which has 64 bits, by the integers.
\<close>

section \<open>State\<close>

record SmartCompressionConfig =
  MinSize :: int
  MaxSize :: int
  CompressionGain :: real
  Algorithm :: bytes
  EnableAdaptive :: bool
  SampleSize :: int
  EnableParallel :: bool
  MaxParallelism :: int
  EnableStreaming :: bool
  EnableCache :: bool
  CacheSize :: int
  EnableDictionary :: bool
  DictionarySize :: int
  EnableMixedMode :: bool
  ChunkSize :: int

text \<open>
  The counters are updated atomically and wrap. \<open>MixedModeSavings\<close> is declared \<open>float64\<close> but
  written through a cast pointer as an \<open>int64\<close>, so the field is its bit pattern.
\<close>

record CompressionStats =
  TotalBytes :: "64 word"
  CompressedBytes :: "64 word"
  SkippedCount :: "64 word"
  CompressedCount :: "64 word"
  CacheHitCount :: "64 word"
  CacheMissCount :: "64 word"
  ParallelJobs :: "64 word"
  DictionaryHits :: "64 word"
  MixedModeSavings :: "64 word"

record CacheEntry =
  ceData :: bytes
  ceAlgorithm :: CompressionType
  ceTimestamp :: instant
  ceHitCount :: nat

record CompressionCache =
  ccEntries :: "(key \<times> CacheEntry) list"
  ccSize :: int

record CompressionDictionary =
  dData :: bytes
  dType :: CompressionType
  dSamples :: "bytes list"
  dUpdatedAt :: instant

text \<open>\<open>scWorkers\<close> is the number of goroutines serving the job channel.\<close>

record SmartCompressor =
  scConfig :: SmartCompressionConfig
  scStats :: CompressionStats
  scCache :: CompressionCache
  scDicts :: "(CompressionType \<times> CompressionDictionary) list"
  scWorkers :: int
  scClosed :: bool

definition zero_stats :: CompressionStats where
  "zero_stats = \<lparr>TotalBytes = 0, CompressedBytes = 0, SkippedCount = 0, CompressedCount = 0,
     CacheHitCount = 0, CacheMissCount = 0, ParallelJobs = 0, DictionaryHits = 0,
     MixedModeSavings = 0\<rparr>"

definition newCompressionCache :: "int \<Rightarrow> CompressionCache" where
  "newCompressionCache sz = \<lparr>ccEntries = [], ccSize = (if sz \<le> 0 then 1000 else sz)\<rparr>"

definition initDictionaries ::
  "Platform \<Rightarrow> World \<Rightarrow> (CompressionType \<times> CompressionDictionary) list \<times> World" where
  "initDictionaries P w =
     (let (t1, w1) = read_clock P w; (t2, w2) = read_clock P w1; (t3, w3) = read_clock P w2;
          d = (\<lambda>a t. (a, \<lparr>dData = [], dType = a, dSamples = [], dUpdatedAt = t\<rparr>))
      in ([d SnappyCompression t1, d ZSTDCompression t2, d GzipCompression t3], w3))"

definition max_workers :: "Platform \<Rightarrow> SmartCompressionConfig \<Rightarrow> int" where
  "max_workers P cfg =
     (if MaxParallelism cfg \<le> 0 then int (numCPU P) else MaxParallelism cfg)"

definition NewSmartCompressor ::
  "Platform \<Rightarrow> SmartCompressionConfig \<Rightarrow> World \<Rightarrow> SmartCompressor \<times> World" where
  "NewSmartCompressor P cfg w =
     (let (ds, w1) = (if EnableDictionary cfg then initDictionaries P w else ([], w))
      in (\<lparr>scConfig = cfg, scStats = zero_stats, scCache = newCompressionCache (CacheSize cfg),
           scDicts = ds, scWorkers = (if EnableParallel cfg then max_workers P cfg else 0),
           scClosed = False\<rparr>, w1))"

text \<open>\<open>DefaultSmartCompressionConfig\<close>; its parallelism is the number of processors.\<close>

definition DefaultSmartCompressionConfig :: "Platform \<Rightarrow> SmartCompressionConfig" where
  "DefaultSmartCompressionConfig P =
     \<lparr>MinSize = 64, MaxSize = 1024 * 1024, CompressionGain = 10, Algorithm = str ''auto'',
      EnableAdaptive = True, SampleSize = 1024, EnableParallel = True,
      MaxParallelism = int (numCPU P), EnableStreaming = True, EnableCache = True,
      CacheSize = 10000, EnableDictionary = True, DictionarySize = 64 * 1024,
      EnableMixedMode = True, ChunkSize = 256 * 1024\<rparr>"

section \<open>Measuring an algorithm\<close>

text \<open>The saving in percent.\<close>

definition gain :: "bytes \<Rightarrow> bytes \<Rightarrow> real" where
  "gain data compressed =
     real_of_int (int (length data) - int (length compressed)) / real (length data) * 100"

definition testCompression :: "Platform \<Rightarrow> bytes \<Rightarrow> CompressionType \<Rightarrow> real" where
  "testCompression P data a =
     (if data = [] then 0 else gain data (compressWithAlgorithm P data a))"

section \<open>Choosing an algorithm\<close>

definition getDefaultAlgorithm :: "SmartCompressionConfig \<Rightarrow> CompressionType" where
  "getDefaultAlgorithm cfg =
     (if Algorithm cfg = str ''snappy'' then SnappyCompression
      else if Algorithm cfg = str ''zstd'' then ZSTDCompression
      else if Algorithm cfg = str ''gzip'' then GzipCompression
      else SnappyCompression)"

definition try_algorithm ::
  "Platform \<Rightarrow> bytes \<Rightarrow> CompressionType \<Rightarrow> CompressionType \<times> real \<Rightarrow> CompressionType \<times> real" where
  "try_algorithm P sample a best =
     (let g = testCompression P sample a in if g > snd best then (a, g) else best)"

text \<open>A negative sample size makes the slice expression panic.\<close>

definition selectBestAlgorithm ::
  "Platform \<Rightarrow> SmartCompressionConfig \<Rightarrow> bytes \<Rightarrow> (CompressionType \<times> real) outcome" where
  "selectBestAlgorithm P cfg data =
     (if int (length data) > SampleSize cfg \<and> SampleSize cfg < 0 then Panic
      else let sample = (if int (length data) > SampleSize cfg
                         then take (nat (SampleSize cfg)) data else data)
           in Ok (fold (try_algorithm P sample)
                [SnappyCompression, ZSTDCompression, GzipCompression] (NoCompression, 0)))"

definition printable :: "byte \<Rightarrow> bool" where
  "printable b \<longleftrightarrow> 32 \<le> b \<and> b \<le> 126"

definition printable_ratio :: "bytes \<Rightarrow> real" where
  "printable_ratio data = real (length (filter printable data)) / real (length data)"

definition identifyDataType :: "bytes \<Rightarrow> string" where
  "identifyDataType data =
     (if data = [] then ''empty''
      else if (hd data = 123 \<and> last data = 125) \<or> (hd data = 91 \<and> last data = 93) then ''json''
      else if printable_ratio data > 8 / 10 then ''text''
      else ''binary'')"

definition selectBestAlgorithmWithContext ::
  "Platform \<Rightarrow> SmartCompressionConfig \<Rightarrow> bytes \<Rightarrow> CompressionType outcome" where
  "selectBestAlgorithmWithContext P cfg data =
     (if \<not> EnableAdaptive cfg then Ok (getDefaultAlgorithm cfg)
      else let ty = identifyDataType data
           in if ty = ''text'' then Ok ZSTDCompression
              else if ty = ''json'' then Ok GzipCompression
              else if ty = ''binary'' then Ok SnappyCompression
              else bind_outcome (selectBestAlgorithm P cfg data) (\<lambda>(a, _). Ok a))"

section \<open>Whether to compress\<close>

definition calculateEntropy :: "bytes \<Rightarrow> real" where
  "calculateEntropy data =
     (if data = [] then 0
      else sum_list (map (\<lambda>b. let p = real (count_list data b) / real (length data)
                              in - (p * log 2 p)) (remdups data)))"

definition window :: "bytes \<Rightarrow> nat \<Rightarrow> bytes" where
  "window data i = byte_slice i 4 data"

text \<open>Some window of four bytes that starts early enough occurs at least three times.\<close>

definition has_pattern :: "bytes \<Rightarrow> bool" where
  "has_pattern data \<longleftrightarrow>
     list_ex (\<lambda>i. 3 \<le> length (filter (\<lambda>j. window data j = window data i) [0..<length data - 3]))
       [0..<length data - 4]"

definition hasLowRedundancy :: "bytes \<Rightarrow> bool" where
  "hasLowRedundancy data \<longleftrightarrow>
     32 \<le> length data \<and>
     (real (length (remdups data)) / real (length data) > 9 / 10 \<or>
      (\<not> has_pattern data \<and> printable_ratio data < 7 / 10))"

definition ShouldCompress :: "Platform \<Rightarrow> SmartCompressionConfig \<Rightarrow> bytes \<Rightarrow> bool outcome" where
  "ShouldCompress P cfg data =
     (if int (length data) < MinSize cfg then Ok False
      else if int (length data) > MaxSize cfg then Ok False
      else if calculateEntropy data > 78 / 10 then Ok False
      else if hasLowRedundancy data then Ok False
      else if EnableAdaptive cfg
           then bind_outcome (selectBestAlgorithm P cfg data) (\<lambda>(_, g). Ok (g \<ge> CompressionGain cfg))
           else Ok (testCompression P data (getDefaultAlgorithm cfg) \<ge> CompressionGain cfg))"

definition PredictCompressionGain ::
  "Platform \<Rightarrow> SmartCompressionConfig \<Rightarrow> bytes \<Rightarrow> (CompressionType \<times> real \<times> bool) outcome" where
  "PredictCompressionGain P cfg data =
     (if int (length data) < MinSize cfg then Ok (NoCompression, 0, False)
      else if calculateEntropy data > 78 / 10 then Ok (NoCompression, 0, False)
      else bind_outcome (selectBestAlgorithm P cfg data)
             (\<lambda>(a, g). Ok (a, g, g \<ge> CompressionGain cfg)))"

section \<open>The cache of results\<close>

text \<open>\<open>get\<close> counts the hit on a copy of the entry, so the cache does not change.\<close>

definition cc_get :: "CompressionCache \<Rightarrow> key \<Rightarrow> (bytes \<times> CompressionType) option" where
  "cc_get cc k = map_option (\<lambda>e. (ceData e, ceAlgorithm e)) (map_of (ccEntries cc) k)"

text \<open>The scan for the oldest entry; an empty key found so far counts as none found.\<close>

definition older :: "key \<times> CacheEntry \<Rightarrow> key \<times> instant \<Rightarrow> key \<times> instant" where
  "older kv best =
     (if fst best = [] \<or> ceTimestamp (snd kv) < snd best
      then (fst kv, ceTimestamp (snd kv)) else best)"

definition cc_set ::
  "Platform \<Rightarrow> key \<Rightarrow> bytes \<Rightarrow> CompressionType \<Rightarrow> CompressionCache \<Rightarrow> World \<Rightarrow>
   CompressionCache \<times> World" where
  "cc_set P k data a cc w =
     (let es = (if int (length (ccEntries cc)) \<ge> ccSize cc
                then AList.delete
                       (fst (fold older (visit P (wTicks w) (ccEntries cc)) ([], 0))) (ccEntries cc)
                else ccEntries cc);
          (now, w1) = read_clock P w
      in (cc\<lparr>ccEntries := AList.update k
            \<lparr>ceData = data, ceAlgorithm = a, ceTimestamp = now, ceHitCount = 0\<rparr> es\<rparr>, w1))"

section \<open>Dictionaries\<close>

text \<open>All windows of eight bytes, and how often each occurs.\<close>

definition patterns_of :: "bytes list \<Rightarrow> bytes list" where
  "patterns_of samples =
     concat (map (\<lambda>s. if length s < 8 then []
       else map (\<lambda>i. byte_slice i 8 s) [0..<length s - 7]) samples)"

definition pattern_freq :: "bytes list \<Rightarrow> (key \<times> nat) list" where
  "pattern_freq samples =
     (let ps = patterns_of samples in map (\<lambda>p. (p, count_list ps p)) (remdups ps))"

definition extractCommonPatterns :: "Platform \<Rightarrow> nat \<Rightarrow> bytes list \<Rightarrow> bytes" where
  "extractCommonPatterns P t samples =
     fold (\<lambda>(p, n) acc. if n > 5 \<and> length acc < 100 * 8 then acc @ p else acc)
       (visit P t (pattern_freq samples)) []"

definition trainDictionary ::
  "Platform \<Rightarrow> CompressionType \<Rightarrow> bytes list \<Rightarrow> SmartCompressor \<Rightarrow> World \<Rightarrow>
   SmartCompressor \<times> World" where
  "trainDictionary P a samples sc w =
     (if \<not> EnableDictionary (scConfig sc) \<or> length samples < 10 then (sc, w)
      else let pats = extractCommonPatterns P (wTicks w) samples
           in if pats = [] then (sc, w)
              else case map_of (scDicts sc) a of
                     None \<Rightarrow> (sc, w)
                   | Some d \<Rightarrow>
                       let (now, w1) = read_clock P w
                       in (sc\<lparr>scDicts := AList.update a
                             (d\<lparr>dData := pats, dSamples := samples, dUpdatedAt := now\<rparr>)
                             (scDicts sc)\<rparr>, w1))"

text \<open>
  The dictionary of an algorithm that has none is a nil pointer, whose use panics. (In
  \<open>trainDictionary\<close> the dictionary is always there: its only caller has just used it.)
\<close>

definition addToDictionaryTraining ::
  "Platform \<Rightarrow> CompressionType \<Rightarrow> bytes \<Rightarrow> SmartCompressor \<Rightarrow> World \<Rightarrow>
   unit outcome \<times> SmartCompressor \<times> World" where
  "addToDictionaryTraining P a data sc w =
     (if \<not> EnableDictionary (scConfig sc) then (Ok (), sc, w)
      else case map_of (scDicts sc) a of
             None \<Rightarrow> (Panic, sc, w)
           | Some d \<Rightarrow>
               let d1 = (if length (dSamples d) < 1000
                         then d\<lparr>dSamples := dSamples d @ [data]\<rparr> else d);
                   sc1 = sc\<lparr>scDicts := AList.update a d1 (scDicts sc)\<rparr>;
                   (sc2, w2) = (if length (dSamples d1) \<ge> 100
                                then trainDictionary P a (dSamples d1) sc1 w else (sc1, w))
               in (Ok (), sc2, w2))"

definition compressWithAlgorithmAndDictionary ::
  "Platform \<Rightarrow> bytes \<Rightarrow> CompressionType \<Rightarrow> SmartCompressor \<Rightarrow> bytes \<times> SmartCompressor" where
  "compressWithAlgorithmAndDictionary P data a sc =
     (let hit = EnableDictionary (scConfig sc) \<and>
            (case map_of (scDicts sc) a of Some d \<Rightarrow> dData d \<noteq> [] | None \<Rightarrow> False);
          sc1 = (if hit then sc\<lparr>scStats := (scStats sc)\<lparr>DictionaryHits := DictionaryHits (scStats sc) + 1\<rparr>\<rparr>
                 else sc)
      in (compressWithAlgorithm P data a, sc1))"

section \<open>Chunked formats\<close>

fun mixed_chunks ::
  "Platform \<Rightarrow> bytes list \<Rightarrow> bytes \<Rightarrow> nat \<Rightarrow> SmartCompressor \<Rightarrow>
   (bytes \<times> nat) outcome \<times> SmartCompressor" where
  "mixed_chunks P [] acc tot sc = (Ok (acc, tot), sc)"
| "mixed_chunks P (c # cs) acc tot sc =
     (case selectBestAlgorithmWithContext P (scConfig sc) c of
        Ok a \<Rightarrow>
          let (z, sc1) = compressWithAlgorithmAndDictionary P c a sc
          in mixed_chunks P cs (acc @ mixed_block a z) (tot + length z) sc1
      | Err e \<Rightarrow> (Err e, sc)
      | Panic \<Rightarrow> (Panic, sc)
      | Blocked \<Rightarrow> (Blocked, sc))"

text \<open>\<open>int64(x)\<close> truncates towards zero.\<close>

definition go_trunc :: "real \<Rightarrow> int" where
  "go_trunc x = (if x < 0 then \<lceil>x\<rceil> else \<lfloor>x\<rfloor>)"

definition compressMixedMode ::
  "Platform \<Rightarrow> bytes \<Rightarrow> SmartCompressor \<Rightarrow>
   (bytes \<times> CompressionType) outcome \<times> SmartCompressor" where
  "compressMixedMode P data sc =
     (let n = (if ChunkSize (scConfig sc) \<le> 0 then 64 * 1024 else nat (ChunkSize (scConfig sc)));
          m = chunk_count (length data) n
      in case mixed_chunks P (split_chunks m n data) [0x01] 0 sc of
           (Ok (out, tot), sc1) \<Rightarrow>
             let savings = real_of_int (int (length data) - int tot) / real (length data) * 100
             in (Ok (out, MixedCompression),
                 sc1\<lparr>scStats := (scStats sc1)\<lparr>MixedModeSavings := word_of_int (go_trunc (savings * 100))\<rparr>\<rparr>)
         | (Err e, sc1) \<Rightarrow> (Err e, sc1)
         | (Panic, sc1) \<Rightarrow> (Panic, sc1)
         | (Blocked, sc1) \<Rightarrow> (Blocked, sc1))"

text \<open>
  A job sent to the channel is compressed by a worker. Sending after \<open>Close\<close> panics; with no
  worker the sender, or the receive of the first result, waits for ever.
\<close>

fun make_jobs ::
  "Platform \<Rightarrow> SmartCompressor \<Rightarrow> bytes list \<Rightarrow> (CompressionType \<times> bytes) list outcome" where
  "make_jobs P sc [] = Ok []"
| "make_jobs P sc (c # cs) =
     bind_outcome (selectBestAlgorithmWithContext P (scConfig sc) c) (\<lambda>a.
       if scClosed sc then Panic
       else bind_outcome (make_jobs P sc cs) (\<lambda>js. Ok ((a, c) # js)))"

text \<open>Chunk size and number of chunks; more chunks than workers makes the chunks larger.\<close>

definition parallel_split :: "Platform \<Rightarrow> SmartCompressionConfig \<Rightarrow> nat \<Rightarrow> nat \<times> nat" where
  "parallel_split P cfg len =
     (let n0 = (if ChunkSize cfg \<le> 0 then 256 * 1024 else nat (ChunkSize cfg));
          m0 = chunk_count len n0;
          mx = nat (max_workers P cfg)
      in if m0 > mx then (len div mx, mx) else (n0, m0))"

definition compressParallel ::
  "Platform \<Rightarrow> bytes \<Rightarrow> SmartCompressor \<Rightarrow>
   (bytes \<times> CompressionType) outcome \<times> SmartCompressor" where
  "compressParallel P data sc =
     (let (n, m) = parallel_split P (scConfig sc) (length data)
      in if data \<noteq> [] \<and> m = 0 then (Panic, sc)
         else case make_jobs P sc (split_chunks m n data) of
           Ok js \<Rightarrow>
             if js \<noteq> [] \<and> scWorkers sc \<le> 0 then (Blocked, sc)
             else (Ok (0x02 # put_u32_le (of_nat m) @ concat (map (parallel_block P) js),
                       ParallelCompression),
                   sc\<lparr>scStats := (scStats sc)\<lparr>ParallelJobs := ParallelJobs (scStats sc) + of_nat m\<rparr>\<rparr>)
         | Err e \<Rightarrow> (Err e, sc)
         | Panic \<Rightarrow> (Panic, sc)
         | Blocked \<Rightarrow> (Blocked, sc))"

text \<open>
  Called only for data longer than the chunk size, so the branch that hands short data back
  to \<open>CompressWithSmartChoice\<close> is not reached. A chunk size of zero divides by zero; a
  negative one gives a negative, zero or single negative-length block count.
\<close>

definition go_chunk_count :: "int \<Rightarrow> int \<Rightarrow> int" where
  "go_chunk_count len n =
     (if n > 0 then len div n else - (len div (- n))) + (if len mod \<bar>n\<bar> \<noteq> 0 then 1 else 0)"

definition compressStream ::
  "Platform \<Rightarrow> bytes \<Rightarrow> int \<Rightarrow> SmartCompressor \<Rightarrow> (bytes \<times> CompressionType) outcome" where
  "compressStream P data n sc =
     (if n = 0 then Panic
      else let m = go_chunk_count (int (length data)) n
           in bind_outcome (selectBestAlgorithmWithContext P (scConfig sc) data) (\<lambda>a.
                let header = 0x03 # put_u32_le (word_of_int m) @ [a]
                in if m = 0 then Ok (header, StreamCompression)
                   else if m < 0 \<or> n < 0 \<or> scClosed sc then Panic
                   else if scWorkers sc \<le> 0 then Blocked
                   else Ok (header @ concat (map (stream_block P a)
                              (split_chunks (nat m) (nat n) data)), StreamCompression)))"

section \<open>Smart choice\<close>

definition sc_stat :: "(CompressionStats \<Rightarrow> CompressionStats) \<Rightarrow> SmartCompressor \<Rightarrow> SmartCompressor" where
  "sc_stat f sc = sc\<lparr>scStats := f (scStats sc)\<rparr>"

definition sc_cache_set ::
  "Platform \<Rightarrow> key \<Rightarrow> bytes \<Rightarrow> CompressionType \<Rightarrow> SmartCompressor \<Rightarrow> World \<Rightarrow>
   SmartCompressor \<times> World" where
  "sc_cache_set P k data a sc w =
     (if EnableCache (scConfig sc)
      then let (cc, w1) = cc_set P k data a (scCache sc) w in (sc\<lparr>scCache := cc\<rparr>, w1)
      else (sc, w))"

text \<open>Steps 6 to 10: one algorithm for the whole value. \<open>updateDecision\<close> has an empty body.\<close>

definition compress_single ::
  "Platform \<Rightarrow> bytes \<Rightarrow> SmartCompressor \<Rightarrow> World \<Rightarrow>
   (bytes \<times> CompressionType) outcome \<times> SmartCompressor \<times> World" where
  "compress_single P data sc w =
     (case selectBestAlgorithmWithContext P (scConfig sc) data of
        Ok a \<Rightarrow>
          let (z, sc1) = compressWithAlgorithmAndDictionary P data a sc
          in if gain data z < CompressionGain (scConfig sc)
             then let (sc2, w2) = sc_cache_set P data data NoCompression sc1 w
                  in (Ok (data, NoCompression), sc2, w2)
             else let sc2 = sc_stat (\<lambda>s. s\<lparr>CompressedCount := CompressedCount s + 1,
                              TotalBytes := TotalBytes s + of_nat (length data),
                              CompressedBytes := CompressedBytes s + of_nat (length z)\<rparr>) sc1;
                      (r, sc3, w3) = addToDictionaryTraining P a data sc2 w
                  in case r of
                       Ok _ \<Rightarrow> let (sc4, w4) = sc_cache_set P data z a sc3 w3
                               in (Ok (z, a), sc4, w4)
                     | Err e \<Rightarrow> (Err e, sc3, w3)
                     | Panic \<Rightarrow> (Panic, sc3, w3)
                     | Blocked \<Rightarrow> (Blocked, sc3, w3)
      | Err e \<Rightarrow> (Err e, sc, w)
      | Panic \<Rightarrow> (Panic, sc, w)
      | Blocked \<Rightarrow> (Blocked, sc, w))"

text \<open>Steps 2 to 10, when the cache had nothing.\<close>

definition compress_uncached ::
  "Platform \<Rightarrow> bytes \<Rightarrow> SmartCompressor \<Rightarrow> World \<Rightarrow>
   (bytes \<times> CompressionType) outcome \<times> SmartCompressor \<times> World" where
  "compress_uncached P data sc w =
     (let cfg = scConfig sc; big = (int (length data) > ChunkSize cfg)
      in case ShouldCompress P cfg data of
           Ok False \<Rightarrow>
             let sc1 = sc_stat (\<lambda>s. s\<lparr>SkippedCount := SkippedCount s + 1\<rparr>) sc;
                 (sc2, w2) = sc_cache_set P data data NoCompression sc1 w
             in (Ok (data, NoCompression), sc2, w2)
         | Ok True \<Rightarrow>
             if EnableMixedMode cfg \<and> big
             then let (r, sc1) = compressMixedMode P data sc in (r, sc1, w)
             else if EnableParallel cfg \<and> big
             then let (r, sc1) = compressParallel P data sc in (r, sc1, w)
             else if EnableStreaming cfg \<and> big
             then (compressStream P data (ChunkSize cfg) sc, sc, w)
             else compress_single P data sc w
         | Err e \<Rightarrow> (Err e, sc, w)
         | Panic \<Rightarrow> (Panic, sc, w)
         | Blocked \<Rightarrow> (Blocked, sc, w))"

definition CompressWithSmartChoice ::
  "Platform \<Rightarrow> bytes \<Rightarrow> SmartCompressor \<Rightarrow> World \<Rightarrow>
   (bytes \<times> CompressionType) outcome \<times> SmartCompressor \<times> World" where
  "CompressWithSmartChoice P data sc w =
     (if EnableCache (scConfig sc)
      then case cc_get (scCache sc) data of
             Some r \<Rightarrow> (Ok r, sc_stat (\<lambda>s. s\<lparr>CacheHitCount := CacheHitCount s + 1\<rparr>) sc, w)
           | None \<Rightarrow> compress_uncached P data
               (sc_stat (\<lambda>s. s\<lparr>CacheMissCount := CacheMissCount s + 1\<rparr>) sc) w
      else compress_uncached P data sc w)"

section \<open>Statistics and shutdown\<close>

definition calculateOverallRatio :: "SmartCompressor \<Rightarrow> real" where
  "calculateOverallRatio sc =
     (let t = TotalBytes (scStats sc); c = CompressedBytes (scStats sc)
      in if t = 0 then 0 else real_of_int (sint (t - c)) / real_of_int (sint t) * 100)"

definition ResetStats :: "SmartCompressor \<Rightarrow> SmartCompressor" where
  "ResetStats = sc_stat (\<lambda>s. s\<lparr>TotalBytes := 0, CompressedBytes := 0, SkippedCount := 0,
     CompressedCount := 0\<rparr>)"

definition algorithmToString :: "CompressionType \<Rightarrow> string" where
  "algorithmToString a =
     (if a = SnappyCompression then ''snappy''
      else if a = ZSTDCompression then ''zstd''
      else if a = GzipCompression then ''gzip'' else ''none'')"

text \<open>
  \<open>Close\<close> cancels the workers and then sends one \<open>nil\<close> for each into a channel of capacity
  100; \<open>taken\<close> is how many of them workers receive before they see the cancellation.
\<close>

definition smart_Close :: "Platform \<Rightarrow> int \<Rightarrow> SmartCompressor \<Rightarrow> unit outcome \<times> SmartCompressor" where
  "smart_Close P taken sc =
     (let n = max_workers P (scConfig sc)
      in if scClosed sc then (Panic, sc)
         else if n - min taken (scWorkers sc) > 100 then (Blocked, sc\<lparr>scWorkers := 0\<rparr>)
         else (Ok (), sc\<lparr>scWorkers := 0, scClosed := True\<rparr>))"

section \<open>The choice of an algorithm\<close>

lemma getDefaultAlgorithm_range: "getDefaultAlgorithm cfg \<in> {1, 2, 3}"
  by (simp add: getDefaultAlgorithm_def)

lemma try_algorithm_range:
  "fst best \<le> 3 \<Longrightarrow> a \<le> 3 \<Longrightarrow> fst (try_algorithm P s a best) \<le> 3"
  by (simp add: try_algorithm_def Let_def)

text \<open>The best of the three gains, never negative.\<close>

lemma selectBestAlgorithm_best:
  assumes "selectBestAlgorithm P cfg data = Ok (a, g)"
  shows "a \<le> 3" "0 \<le> g"
    and "\<And>b. b \<in> {1, 2, 3} \<Longrightarrow> int (length data) \<le> SampleSize cfg \<Longrightarrow> testCompression P data b \<le> g"
    and "int (length data) \<le> SampleSize cfg \<Longrightarrow> g = (if a = NoCompression then 0 else testCompression P data a)"
  using assms by (auto simp: selectBestAlgorithm_def try_algorithm_def Let_def split: if_splits)

lemma selectBestAlgorithmWithContext_range:
  "selectBestAlgorithmWithContext P cfg data = Ok a \<Longrightarrow> a \<le> 3"
  using getDefaultAlgorithm_range [of cfg]
  by (auto simp: selectBestAlgorithmWithContext_def Let_def bind_outcome_Ok
      dest!: selectBestAlgorithm_best(1) split: if_splits)

lemma selectBestAlgorithmWithContext_no_err:
  "selectBestAlgorithmWithContext P cfg data \<noteq> Err e" "selectBestAlgorithmWithContext P cfg data \<noteq> Blocked"
  by (auto simp: selectBestAlgorithmWithContext_def selectBestAlgorithm_def Let_def
      split: prod.splits)

lemma compressWithAlgorithm_none [simp]: "compressWithAlgorithm P d 0 = d"
  by (simp add: compressWithAlgorithm_def)

section \<open>Chunked results decode to the value\<close>

lemma compressWithAlgorithmAndDictionary_result [simp]:
  "fst (compressWithAlgorithmAndDictionary P d a sc) = compressWithAlgorithm P d a"
  "scConfig (snd (compressWithAlgorithmAndDictionary P d a sc)) = scConfig sc"
  "scCache (snd (compressWithAlgorithmAndDictionary P d a sc)) = scCache sc"
  "scDicts (snd (compressWithAlgorithmAndDictionary P d a sc)) = scDicts sc"
  by (simp_all add: compressWithAlgorithmAndDictionary_def Let_def)

lemma mixed_chunks_blocks:
  assumes "mixed_chunks P cs acc t sc = (Ok (out, t'), sc')"
  shows "\<exists>js. map snd js = cs \<and> (\<forall>(a, c) \<in> set js. a \<le> 3) \<and>
    out = acc @ concat (map (\<lambda>(a, c). mixed_block a (compressWithAlgorithm P c a)) js)"
    and "scConfig sc' = scConfig sc" and "scCache sc' = scCache sc"
  using assms
proof (induction cs arbitrary: acc t sc)
  case Nil
  { case 1 then show ?case by simp }
  { case 2 then show ?case by simp }
  { case 3 then show ?case by simp }
next
  case (Cons c cs)
  have *: "\<exists>a. selectBestAlgorithmWithContext P (scConfig sc) c = Ok a \<and>
      mixed_chunks P cs (acc @ mixed_block a (compressWithAlgorithm P c a))
        (t + length (compressWithAlgorithm P c a))
        (snd (compressWithAlgorithmAndDictionary P c a sc)) = (Ok (out, t'), sc')"
    if "mixed_chunks P (c # cs) acc t sc = (Ok (out, t'), sc')" for acc t sc
    using that by (auto split: outcome.splits simp: Let_def
        simp add: compressWithAlgorithmAndDictionary_def)
  { case 1
    then obtain a where a: "selectBestAlgorithmWithContext P (scConfig sc) c = Ok a"
      and m: "mixed_chunks P cs (acc @ mixed_block a (compressWithAlgorithm P c a))
        (t + length (compressWithAlgorithm P c a))
        (snd (compressWithAlgorithmAndDictionary P c a sc)) = (Ok (out, t'), sc')"
      using * by blast
    obtain js where "map snd js = cs" "\<forall>(a, c) \<in> set js. a \<le> 3"
      "out = (acc @ mixed_block a (compressWithAlgorithm P c a)) @
        concat (map (\<lambda>(a, c). mixed_block a (compressWithAlgorithm P c a)) js)"
      using Cons.IH(1) [OF m] by blast
    then show ?case
      using selectBestAlgorithmWithContext_range [OF a] by (intro exI [of _ "(a, c) # js"]) auto }
  { case 2
    then obtain a where m: "mixed_chunks P cs (acc @ mixed_block a (compressWithAlgorithm P c a))
        (t + length (compressWithAlgorithm P c a))
        (snd (compressWithAlgorithmAndDictionary P c a sc)) = (Ok (out, t'), sc')"
      using * by blast
    show ?case using Cons.IH(2) [OF m] by simp }
  { case 3
    then obtain a where m: "mixed_chunks P cs (acc @ mixed_block a (compressWithAlgorithm P c a))
        (t + length (compressWithAlgorithm P c a))
        (snd (compressWithAlgorithmAndDictionary P c a sc)) = (Ok (out, t'), sc')"
      using * by blast
    show ?case using Cons.IH(3) [OF m] by simp }
qed

lemma compressMixedMode_chunks:
  assumes "compressMixedMode P data sc = (Ok (out, a), sc')"
  obtains t sc1 where
    "mixed_chunks P (split_chunks (chunk_count (length data) (if ChunkSize (scConfig sc) \<le> 0 then 64 * 1024
        else nat (ChunkSize (scConfig sc)))) (if ChunkSize (scConfig sc) \<le> 0 then 64 * 1024
        else nat (ChunkSize (scConfig sc))) data) [1] 0 sc = (Ok (out, t), sc1)"
    "a = MixedCompression" "scConfig sc' = scConfig sc1" "scCache sc' = scCache sc1"
  using assms by (auto simp: compressMixedMode_def Let_def split: prod.splits outcome.splits)

lemma compressMixedMode_decodes:
  assumes "codec_ok P" "length out < 2 ^ 63"
    and "compressMixedMode P data sc = (Ok (out, a), sc')"
  shows "smart_Decompress P out = Ok data" "a = MixedCompression"
    "scConfig sc' = scConfig sc" "scCache sc' = scCache sc"
proof -
  let ?n = "if ChunkSize (scConfig sc) \<le> 0 then 64 * 1024 else nat (ChunkSize (scConfig sc))"
  obtain t sc1 where
    m: "mixed_chunks P (split_chunks (chunk_count (length data) ?n) ?n data) [1] 0 sc = (Ok (out, t), sc1)"
    and r: "a = MixedCompression" "scConfig sc' = scConfig sc1" "scCache sc' = scCache sc1"
    using compressMixedMode_chunks [OF assms(3)] by blast
  obtain js where js: "map snd js = split_chunks (chunk_count (length data) ?n) ?n data"
      "\<forall>(a, c) \<in> set js. a \<le> 3"
      "out = [1] @ concat (map (\<lambda>(a, c). mixed_block a (compressWithAlgorithm P c a)) js)"
    using mixed_chunks_blocks(1) [OF m] by blast
  have "concat (map snd js) = data"
    unfolding js(1) by (rule concat_all_chunks) simp
  moreover have "mixed_decode P (int (length out)) (tl out) [] = Ok ([] @ concat (map snd js))"
    using mixed_decode_blocks [OF assms(1) js(2), of "int (length out)" "[]"] assms(2)
    by (simp add: js(3))
  ultimately show "smart_Decompress P out = Ok data"
    by (simp add: smart_Decompress_def decompressMixedMode_def js(3))
  show "a = MixedCompression" "scConfig sc' = scConfig sc" "scCache sc' = scCache sc"
    using r mixed_chunks_blocks(2,3) [OF m] by simp_all
qed

lemma make_jobs_chunks:
  "make_jobs P sc cs = Ok js \<Longrightarrow> map snd js = cs"
  by (induction cs arbitrary: js) (auto simp: bind_outcome_Ok split: if_splits)

text \<open>
  The parallel format decodes to the bytes that the chunks cover: all of them when the
  chunks were not enlarged, all but a remainder when they were.
\<close>

lemma compressParallel_decodes:
  assumes "codec_ok P" "compressParallel P data sc = (Ok (out, a), sc')"
    and "parallel_split P (scConfig sc) (length data) = (n, m)" "m < 2 ^ 32" "n < 2 ^ 32"
    and "\<And>c b. length c \<le> n \<Longrightarrow> length (compressWithAlgorithm P c b) < 2 ^ 32"
  shows "smart_Decompress P out = Ok (take (m * n) data)" "a = ParallelCompression"
    "scConfig sc' = scConfig sc" "scCache sc' = scCache sc"
proof -
  obtain js where js: "make_jobs P sc (split_chunks m n data) = Ok js"
    "out = 0x02 # put_u32_le (of_nat m) @ concat (map (parallel_block P) js)"
    and r: "a = ParallelCompression" "scConfig sc' = scConfig sc" "scCache sc' = scCache sc"
    using assms(2,3) by (auto simp: compressParallel_def Let_def split: outcome.splits if_splits)
  have s: "map snd js = split_chunks m n data" using js(1) by (rule make_jobs_chunks)
  then have l: "length js = m" by (metis length_map length_split_chunks)
  have "length (snd j) \<le> n" if "j \<in> set js" for j
    using that s split_chunks_length by (metis image_eqI list.set_map)
  then have "list_all (block_fits P) js"
    using assms(5,6) by (fastforce simp: list_all_iff block_fits_def)
  then have "decompressParallelMode P out = Ok (concat (map snd js))"
    using decompressParallelMode_blocks [of P js] assms(1,4) by (simp add: js(2) l)
  then show "smart_Decompress P out = Ok (take (m * n) data)"
    by (simp add: smart_Decompress_def js(2) s concat_split_chunks)
  show "a = ParallelCompression" "scConfig sc' = scConfig sc" "scCache sc' = scCache sc"
    using r by simp_all
qed

text \<open>Without workers the stream format is never produced for a positive chunk size.\<close>

lemma selectBestAlgorithmWithContext_chosen:
  assumes "data \<noteq> []"
  shows "\<exists>a. selectBestAlgorithmWithContext P cfg data = Ok a"
  using assms by (simp add: selectBestAlgorithmWithContext_def identifyDataType_def Let_def)

lemma compressStream_never_returns:
  assumes "0 < n" "n < int (length data)" "scWorkers sc \<le> 0" "\<not> scClosed sc"
  shows "compressStream P data n sc = Blocked"
proof -
  have "data \<noteq> []" using assms(1,2) by auto
  then obtain a where "selectBestAlgorithmWithContext P (scConfig sc) data = Ok a"
    using selectBestAlgorithmWithContext_chosen by blast
  moreover have "0 < int (length data) div n"
    using assms(1,2) by (simp add: pos_imp_zdiv_pos_iff)
  then have "0 < go_chunk_count (int (length data)) n"
    using assms(1) by (simp add: go_chunk_count_def)
  ultimately show ?thesis using assms by (simp add: compressStream_def Let_def)
qed

section \<open>The cache and the single-algorithm path\<close>

text \<open>Every cached result is its key compressed by the recorded algorithm.\<close>

definition cc_coherent :: "Platform \<Rightarrow> CompressionCache \<Rightarrow> bool" where
  "cc_coherent P cc \<longleftrightarrow>
     (\<forall>k e. map_of (ccEntries cc) k = Some e \<longrightarrow>
        ceAlgorithm e \<le> 3 \<and> ceData e = compressWithAlgorithm P k (ceAlgorithm e))"

definition cc_bounded :: "CompressionCache \<Rightarrow> bool" where
  "cc_bounded cc \<longleftrightarrow>
     0 < ccSize cc \<and> int (length (ccEntries cc)) \<le> ccSize cc \<and> distinct (map fst (ccEntries cc))"

lemma cc_coherent_new [simp]: "cc_coherent P (newCompressionCache n)"
  by (simp add: cc_coherent_def newCompressionCache_def)

lemma cc_bounded_new [simp]: "cc_bounded (newCompressionCache n)"
  by (simp add: cc_bounded_def newCompressionCache_def)

lemma cc_get_coherent:
  "cc_coherent P cc \<Longrightarrow> cc_get cc k = Some (d, a) \<Longrightarrow> a \<le> 3 \<and> d = compressWithAlgorithm P k a"
  by (auto simp: cc_get_def cc_coherent_def)

lemma cc_set_coherent:
  assumes "cc_coherent P cc" "a \<le> 3" "d = compressWithAlgorithm P k a"
  shows "cc_coherent P (fst (cc_set P k d a cc w))"
  using assms by (auto simp: cc_coherent_def cc_set_def read_clock_def Let_def update_conv' delete_conv')

lemma older_in: "fst (fold older xs b) \<in> insert (fst b) (fst ` set xs)"
proof (induction xs arbitrary: b)
  case (Cons x xs)
  show ?case using Cons [of "older x b"] by (auto simp: older_def split: if_splits)
qed simp


lemma cc_set_bounded:
  assumes "order_ok P" "cc_bounded cc"
  shows "cc_bounded (fst (cc_set P k d a cc w))"
proof -
  let ?es = "ccEntries cc"
  let ?v = "visit P (wTicks w) ?es"
  let ?o = "fst (fold older ?v ([], 0))"
  let ?es' = "if ccSize cc \<le> int (length ?es) then AList.delete ?o ?es else ?es"
  have d: "distinct (map fst ?es)" and s: "0 < ccSize cc" "int (length ?es) \<le> ccSize cc"
    using assms(2) by (simp_all add: cc_bounded_def)
  have dv: "dom (map_of ?v) = dom (map_of ?es)" using visit_map_of [OF assms(1) d] by simp
  then have vs: "fst ` set ?v = fst ` set ?es" by (simp add: dom_map_of_conv_image_fst)
  have "length (AList.delete ?o ?es) < length ?es" if "?es \<noteq> []"
  proof -
    have "?v \<noteq> []" using that vs by auto
    then obtain x xs where v: "?v = x # xs" by (cases ?v) auto
    have "?o \<in> fst ` set ?v"
      using older_in [of xs "older x ([], 0)"] by (auto simp: v older_def)
    then have "?o \<in> set (map fst ?es)" using vs by simp
    then have "length (removeAll ?o (map fst ?es)) < length (map fst ?es)"
      by (rule length_removeAll_less)
    then show ?thesis by (metis delete_keys length_map)
  qed
  then have "int (length ?es') < ccSize cc"
    using s by (cases "?es = []") auto
  have "length (AList.update k x es) \<le> Suc (length es)" for x :: CacheEntry and es
    by (induction es) auto
  moreover have "n \<le> Suc m \<Longrightarrow> int m < c \<Longrightarrow> int n \<le> c" for n m :: nat and c by linarith
  ultimately have "int (length (AList.update k x ?es')) \<le> ccSize cc" for x
    using \<open>int (length ?es') < ccSize cc\<close> by blast
  moreover have "distinct (map fst (AList.update k x ?es'))" for x
    using d by (auto intro: distinct_update distinct_delete)
  ultimately show ?thesis
    using s(1) by (simp add: cc_set_def read_clock_def Let_def cc_bounded_def)
qed

text \<open>The invariant of the compressor.\<close>

definition sc_inv :: "Platform \<Rightarrow> SmartCompressor \<Rightarrow> bool" where
  "sc_inv P sc \<longleftrightarrow> cc_coherent P (scCache sc) \<and> cc_bounded (scCache sc)"

lemma sc_inv_new: "sc_inv P (fst (NewSmartCompressor P cfg w))"
  by (simp add: NewSmartCompressor_def sc_inv_def split: prod.splits)

lemma sc_inv_cong: "scCache sc' = scCache sc \<Longrightarrow> sc_inv P sc' = sc_inv P sc"
  by (simp add: sc_inv_def)

lemma sc_stat_frame [simp]:
  "scCache (sc_stat f sc) = scCache sc" "scConfig (sc_stat f sc) = scConfig sc"
  "scWorkers (sc_stat f sc) = scWorkers sc" "scClosed (sc_stat f sc) = scClosed sc"
  "sc_inv P (sc_stat f sc) = sc_inv P sc"
  by (simp_all add: sc_stat_def sc_inv_def)

lemma sc_cache_set_inv:
  assumes "order_ok P" "sc_inv P sc" "a \<le> 3" "d = compressWithAlgorithm P k a"
    and "sc_cache_set P k d a sc w = (sc', w')"
  shows "sc_inv P sc'"
  using assms cc_set_coherent [of P "scCache sc" a d k w] cc_set_bounded [of P "scCache sc" k d a w]
  by (auto simp: sc_cache_set_def sc_inv_def split: prod.splits if_splits)

lemma sc_cache_set_config: "sc_cache_set P k d a sc w = (sc', w') \<Longrightarrow> scConfig sc' = scConfig sc"
  by (auto simp: sc_cache_set_def split: prod.splits if_splits)

lemma addToDictionaryTraining_frame:
  assumes "addToDictionaryTraining P a d sc w = (r, sc', w')"
  shows "scCache sc' = scCache sc" "scConfig sc' = scConfig sc" "r = Ok () \<or> r = Panic"
  using assms
  by (auto simp: addToDictionaryTraining_def trainDictionary_def read_clock_def Let_def
      split: if_splits option.splits)

text \<open>What one run returns, and the invariant it keeps.\<close>

lemma compress_single_sound:
  assumes "order_ok P" "sc_inv P sc" "compress_single P data sc w = (r, sc', w')"
  shows "sc_inv P sc'" "scConfig sc' = scConfig sc"
    "r = Panic \<or> (\<exists>a \<le> 3. r = Ok (compressWithAlgorithm P data a, a) \<and>
       (a = 0 \<or> gain data (compressWithAlgorithm P data a) \<ge> CompressionGain (scConfig sc)))"
proof -
  have "sc_inv P sc' \<and> scConfig sc' = scConfig sc \<and>
    (r = Panic \<or> (\<exists>a \<le> 3. r = Ok (compressWithAlgorithm P data a, a) \<and>
       (a = 0 \<or> gain data (compressWithAlgorithm P data a) \<ge> CompressionGain (scConfig sc))))"
  proof (cases "selectBestAlgorithmWithContext P (scConfig sc) data")
    case (Ok a)
    have a: "a \<le> 3" using Ok by (rule selectBestAlgorithmWithContext_range)
    let ?z = "compressWithAlgorithm P data a"
    obtain sc1 where sc1: "compressWithAlgorithmAndDictionary P data a sc = (?z, sc1)"
        "scConfig sc1 = scConfig sc" "sc_inv P sc1"
      using compressWithAlgorithmAndDictionary_result [of P data a sc] assms(2)
      by (metis prod.collapse sc_inv_cong)
    show ?thesis
    proof (cases "gain data ?z < CompressionGain (scConfig sc)")
      case True
      obtain sc2 w2 where s: "sc_cache_set P data data 0 sc1 w = (sc2, w2)" by (rule prod.exhaust)
      then show ?thesis
        using assms(3) sc_cache_set_inv [OF assms(1) sc1(3) _ _ s] sc_cache_set_config [OF s]
        by (auto simp: compress_single_def Ok sc1 True intro!: exI [of _ 0])
    next
      case False
      let ?sc2 = "sc_stat (\<lambda>s. s\<lparr>CompressedCount := CompressedCount s + 1,
            TotalBytes := TotalBytes s + of_nat (length data),
            CompressedBytes := CompressedBytes s + of_nat (length ?z)\<rparr>) sc1"
      obtain r3 sc3 w3 where t: "addToDictionaryTraining P a data ?sc2 w = (r3, sc3, w3)"
        by (rule prod_cases3)
      have f: "scConfig sc3 = scConfig sc" "sc_inv P sc3" "r3 = Ok () \<or> r3 = Panic"
        using addToDictionaryTraining_frame [OF t] sc1(2,3) sc_inv_cong [of sc3 sc1 P] by simp_all
      obtain sc4 w4 where s: "sc_cache_set P data ?z a sc3 w3 = (sc4, w4)" by (rule prod.exhaust)
      show ?thesis
        using f(3) assms(3) f a False sc_cache_set_inv [OF assms(1) f(2) a refl s] sc_cache_set_config [OF s]
        by (auto simp: compress_single_def Ok sc1 t s Let_def)
    qed
  next
    case Panic
    then show ?thesis using assms by (simp add: compress_single_def)
  qed (use selectBestAlgorithmWithContext_no_err in auto)
  then show "sc_inv P sc'" "scConfig sc' = scConfig sc"
    "r = Panic \<or> (\<exists>a \<le> 3. r = Ok (compressWithAlgorithm P data a, a) \<and>
       (a = 0 \<or> gain data (compressWithAlgorithm P data a) \<ge> CompressionGain (scConfig sc)))"
    by blast+
qed

section \<open>The choice as a whole\<close>

lemma compressMixedMode_frame:
  assumes "compressMixedMode P data sc = (Ok (out, a), sc')"
  shows "scConfig sc' = scConfig sc" "scCache sc' = scCache sc"
proof -
  let ?n = "if ChunkSize (scConfig sc) \<le> 0 then 64 * 1024 else nat (ChunkSize (scConfig sc))"
  obtain t sc1 where
    m: "mixed_chunks P (split_chunks (chunk_count (length data) ?n) ?n data) [1] 0 sc = (Ok (out, t), sc1)"
    and r: "scConfig sc' = scConfig sc1" "scCache sc' = scCache sc1"
    using compressMixedMode_chunks [OF assms] by blast
  show "scConfig sc' = scConfig sc" "scCache sc' = scCache sc"
    using r mixed_chunks_blocks(2,3) [OF m] by simp_all
qed

lemma compressParallel_frame:
  assumes "compressParallel P data sc = (r, sc')"
  shows "scConfig sc' = scConfig sc" "scCache sc' = scCache sc"
  using assms by (auto simp: compressParallel_def Let_def split: outcome.splits if_splits prod.splits)

text \<open>The four ways a value is compressed; the first covers cached results and values left raw.\<close>

definition smart_path ::
  "Platform \<Rightarrow> SmartCompressionConfig \<Rightarrow> bytes \<Rightarrow> bytes \<Rightarrow> CompressionType \<Rightarrow> bool" where
  "smart_path P cfg data out a \<longleftrightarrow>
     a \<le> 3 \<and> out = compressWithAlgorithm P data a \<or>
     int (length data) > ChunkSize cfg \<and>
     (\<exists>sc sc'. scConfig sc = cfg \<and>
        (EnableMixedMode cfg \<and> compressMixedMode P data sc = (Ok (out, a), sc') \<or>
         \<not> EnableMixedMode cfg \<and> EnableParallel cfg \<and>
           compressParallel P data sc = (Ok (out, a), sc') \<or>
         \<not> EnableMixedMode cfg \<and> \<not> EnableParallel cfg \<and> EnableStreaming cfg \<and>
           compressStream P data (ChunkSize cfg) sc = Ok (out, a)))"

lemma compress_uncached_path:
  assumes "order_ok P" "sc_inv P sc" "compress_uncached P data sc w = (Ok (out, a), sc', w')"
  shows "sc_inv P sc' \<and> scConfig sc' = scConfig sc \<and> smart_path P (scConfig sc) data out a"
proof -
  let ?cfg = "scConfig sc" and ?big = "int (length data) > ChunkSize (scConfig sc)"
  note run = assms(3) [unfolded compress_uncached_def Let_def]
  obtain b where b: "ShouldCompress P ?cfg data = Ok b"
    using run by (cases "ShouldCompress P ?cfg data") auto
  show ?thesis
  proof (cases b)
    case False
    obtain sc3 w3 where s: "sc_cache_set P data data 0
        (sc_stat (\<lambda>s. s\<lparr>SkippedCount := SkippedCount s + 1\<rparr>) sc) w = (sc3, w3)"
      by (rule prod.exhaust)
    have "sc_inv P sc3" using sc_cache_set_inv [OF assms(1) _ _ _ s] assms(2) by simp
    moreover have "scConfig sc3 = ?cfg" using sc_cache_set_config [OF s] by simp
    ultimately show ?thesis using run b False s by (simp add: smart_path_def)
  next
    case True
    consider (mixed) "EnableMixedMode ?cfg" "?big"
      | (par) "\<not> EnableMixedMode ?cfg" "EnableParallel ?cfg" "?big"
      | (stream) "\<not> EnableMixedMode ?cfg" "\<not> EnableParallel ?cfg" "EnableStreaming ?cfg" "?big"
      | (single) "\<not> (EnableMixedMode ?cfg \<and> ?big)" "\<not> (EnableParallel ?cfg \<and> ?big)"
          "\<not> (EnableStreaming ?cfg \<and> ?big)"
      by blast
    then show ?thesis
    proof cases
      case mixed
      then have m: "compressMixedMode P data sc = (Ok (out, a), sc')"
        using run b True by (simp split: prod.splits)
      then show ?thesis
        using mixed assms(2) compressMixedMode_frame [OF m] sc_inv_cong [of sc' sc P]
        by (auto simp: smart_path_def)
    next
      case par
      then have m: "compressParallel P data sc = (Ok (out, a), sc')"
        using run b True by (simp split: prod.splits)
      then show ?thesis
        using par assms(2) compressParallel_frame [OF m] sc_inv_cong [of sc' sc P]
        by (auto simp: smart_path_def)
    next
      case stream
      then have "(compressStream P data (ChunkSize ?cfg) sc, sc, w) = (Ok (out, a), sc', w')"
        using run b True by auto
      then have m: "compressStream P data (ChunkSize ?cfg) sc = Ok (out, a)" "sc' = sc" by blast+
      then show ?thesis using stream assms(2) by (auto simp: smart_path_def)
    next
      case single
      then have m: "compress_single P data sc w = (Ok (out, a), sc', w')"
        using run b True by (simp split: if_splits)
      show ?thesis
        using compress_single_sound [OF assms(1,2) m] by (auto simp: smart_path_def)
    qed
  qed
qed

lemma smart_choice_path:
  assumes "order_ok P" "sc_inv P sc" "CompressWithSmartChoice P data sc w = (Ok (out, a), sc', w')"
  shows "sc_inv P sc'" "scConfig sc' = scConfig sc" "smart_path P (scConfig sc) data out a"
proof -
  let ?miss = "sc_stat (\<lambda>s. s\<lparr>CacheMissCount := CacheMissCount s + 1\<rparr>) sc"
  consider (hit) r where "EnableCache (scConfig sc)" "cc_get (scCache sc) data = Some r"
    | (miss) "EnableCache (scConfig sc)" "cc_get (scCache sc) data = None"
    | (off) "\<not> EnableCache (scConfig sc)"
    by fastforce
  then have "sc_inv P sc' \<and> scConfig sc' = scConfig sc \<and> smart_path P (scConfig sc) data out a"
  proof cases
    case hit
    then show ?thesis
      using assms(2,3) cc_get_coherent [of P "scCache sc" data out a]
      by (auto simp: CompressWithSmartChoice_def smart_path_def sc_inv_def)
  next
    case miss
    then have "compress_uncached P data ?miss w = (Ok (out, a), sc', w')"
      using assms(3) by (simp add: CompressWithSmartChoice_def)
    then show ?thesis
      using compress_uncached_path [of P ?miss data w out a sc' w'] assms(1,2) by simp
  next
    case off
    then show ?thesis
      using assms compress_uncached_path [of P sc data w out a sc' w']
      by (simp add: CompressWithSmartChoice_def)
  qed
  then show "sc_inv P sc'" "scConfig sc' = scConfig sc"
    "smart_path P (scConfig sc) data out a" by blast+
qed

section \<open>Telling the formats apart\<close>

text \<open>
  What \<open>Decompress\<close> needs of the codecs: each rejects the output of the ones tried after it,
  gzip output starts with its magic number, and none of them starts with a format byte. (The
  first byte of a snappy block is the low part of the length, hence the bound.)
\<close>

definition formats_distinct :: "Platform \<Rightarrow> bool" where
  "formats_distinct P \<longleftrightarrow>
     (\<forall>d. d \<noteq> [] \<longrightarrow>
        snappyDecode P (zstdEncode P d) = None \<and> snappyDecode P (gzipEncode P d) = None \<and>
        zstdDecode P (gzipEncode P d) = None \<and>
        take 2 (gzipEncode P d) = [0x1f, 0x8b] \<and>
        zstdEncode P d \<noteq> [] \<and> hd (zstdEncode P d) \<notin> {1, 2, 3}) \<and>
     (\<forall>d. 4 \<le> length d \<longrightarrow> snappyEncode P d \<noteq> [] \<and> hd (snappyEncode P d) \<notin> {1, 2, 3})"

text \<open>A value stored as it is and recognised by no decoder.\<close>

definition raw_safe :: "Platform \<Rightarrow> bytes \<Rightarrow> bool" where
  "raw_safe P d \<longleftrightarrow>
     d = [] \<or> hd d \<notin> {1, 2, 3} \<and> snappyDecode P d = None \<and> zstdDecode P d = None \<and>
       take 2 d \<noteq> [0x1f, 0x8b]"

lemma take_2_conv: "take 2 d = [x, y] \<longleftrightarrow> 2 \<le> length d \<and> d ! 0 = x \<and> d ! 1 = y"
  by (cases d; cases "tl d") (auto simp: numeral_2_eq_2)

lemma Decompress_raw: "raw_safe P d \<Longrightarrow> smart_Decompress P d = Ok d"
  by (auto simp: raw_safe_def smart_Decompress_def decompressSimpleFormat_def take_2_conv)

lemma Decompress_compressed:
  assumes "codec_ok P" "formats_distinct P" "4 \<le> length d" "a \<in> {1, 2, 3}"
  shows "smart_Decompress P (compressWithAlgorithm P d a) = Ok d"
proof -
  have d: "d \<noteq> []" using assms(3) by auto
  then have g: "2 \<le> length (gzipEncode P d)" "gzipEncode P d ! 0 = 0x1f" "gzipEncode P d ! 1 = 0x8b"
    using assms(2) by (simp_all add: formats_distinct_def take_2_conv)
  then have h: "gzipEncode P d \<noteq> []" by auto
  then have h1: "hd (gzipEncode P d) = 0x1f" using g(2) by (simp add: hd_conv_nth)
  have z: "snappyDecode P (zstdEncode P d) = None" "snappyDecode P (gzipEncode P d) = None"
    "zstdDecode P (gzipEncode P d) = None" "zstdEncode P d \<noteq> []" "hd (zstdEncode P d) \<notin> {1, 2, 3}"
    "snappyEncode P d \<noteq> []" "hd (snappyEncode P d) \<notin> {1, 2, 3}"
    using assms(2,3) d by (simp_all add: formats_distinct_def)
  have c: "snappyDecode P (snappyEncode P d) = Some d" "zstdDecode P (zstdEncode P d) = Some d"
    "gzipDecode P (gzipEncode P d) = Some d"
    using assms(1) by (simp_all add: codec_ok_def)
  from assms(4) consider "a = 1" | "a = 2" | "a = 3" by blast
  then show ?thesis
    using g h h1 z c
    by cases (simp_all add: compressWithAlgorithm_def smart_Decompress_def
        decompressSimpleFormat_def of_option_def)
qed

text \<open>
  A value of recognisable form that was compressed comes back. Mixed mode has to be on, because
  the parallel format can lose a tail and the stream format never returns.
\<close>

lemma smart_round_trip_lemma:
  assumes "codec_ok P" "formats_distinct P" "order_ok P" "sc_inv P sc"
    and "EnableMixedMode (scConfig sc) \<or> int (length data) \<le> ChunkSize (scConfig sc)"
    and "raw_safe P data" "4 \<le> length data"
    and "CompressWithSmartChoice P data sc w = (Ok (out, a), sc', w')" "length out < 2 ^ 63"
  shows "smart_Decompress P out = Ok data"
proof -
  have "smart_path P (scConfig sc) data out a"
    using smart_choice_path [OF assms(3,4,8)] by simp
  then consider (one) "a \<le> 3" "out = compressWithAlgorithm P data a"
    | (mixed) sc1 sc2 where "compressMixedMode P data sc1 = (Ok (out, a), sc2)"
    using assms(5) by (auto simp: smart_path_def)
  then show ?thesis
  proof cases
    case one
    then have "a = 0 \<or> a \<in> {1, 2, 3}"
      by (auto simp: word_le_nat_alt unat_eq_0 [symmetric] word_unat_eq_iff)
    then show ?thesis
      using one Decompress_compressed [OF assms(1,2,7)] Decompress_raw [OF assms(6)] by auto
  next
    case mixed
    then show ?thesis using compressMixedMode_decodes(1) [OF assms(1,9)] by blast
  qed
qed

text \<open>
  Without recognisable form it does not: a short value that starts with a format byte is stored
  as it is and then read as blocks.
\<close>

lemma smart_Decompress_no_blocks:
  "58 \<notin> set d \<Longrightarrow> smart_Decompress P (1 # d) = Ok []"
  by (simp add: smart_Decompress_def decompressMixedMode_def mixed_decode.simps)

lemma smart_short_raw:
  assumes "int (length d) < MinSize (scConfig sc)" "cc_get (scCache sc) d = None"
  shows "fst (CompressWithSmartChoice P d sc w) = Ok (d, NoCompression)"
  using assms by (simp add: CompressWithSmartChoice_def compress_uncached_def ShouldCompress_def
      Let_def split: prod.splits)

text \<open>With a fixed algorithm the mixed mode always succeeds.\<close>

lemma mixed_chunks_fixed:
  assumes "\<not> EnableAdaptive (scConfig sc)" "getDefaultAlgorithm (scConfig sc) = a"
  shows "\<exists>n sc'. mixed_chunks P cs acc t sc =
    (Ok (acc @ concat (map (\<lambda>c. mixed_block a (compressWithAlgorithm P c a)) cs), n), sc')"
  using assms
proof (induction cs arbitrary: acc t sc)
  case (Cons c cs)
  let ?sc = "snd (compressWithAlgorithmAndDictionary P c a sc)"
  have "scConfig ?sc = scConfig sc" by simp
  with Cons.prems obtain n sc' where "mixed_chunks P cs (acc @ mixed_block a (compressWithAlgorithm P c a))
      (t + length (compressWithAlgorithm P c a)) ?sc =
      (Ok ((acc @ mixed_block a (compressWithAlgorithm P c a)) @
        concat (map (\<lambda>c. mixed_block a (compressWithAlgorithm P c a)) cs), n), sc')"
    using Cons.IH [of ?sc] by metis
  then show ?case
    using Cons.prems by (simp add: selectBestAlgorithmWithContext_def split_beta)
qed simp

lemma compressMixedMode_fixed:
  assumes "\<not> EnableAdaptive (scConfig sc)" "getDefaultAlgorithm (scConfig sc) = a"
    and "ChunkSize (scConfig sc) = int n" "0 < n"
  shows "\<exists>sc'. compressMixedMode P data sc =
    (Ok (1 # concat (map (\<lambda>c. mixed_block a (compressWithAlgorithm P c a))
       (split_chunks (chunk_count (length data) n) n data)), MixedCompression), sc')"
proof -
  obtain k sc' where "mixed_chunks P (split_chunks (chunk_count (length data) n) n data) [1] 0 sc =
      (Ok ([1] @ concat (map (\<lambda>c. mixed_block a (compressWithAlgorithm P c a))
        (split_chunks (chunk_count (length data) n) n data)), k), sc')"
    using mixed_chunks_fixed [OF assms(1,2)] by blast
  then show ?thesis using assms(3,4) by (simp add: compressMixedMode_def Let_def)
qed

end
