(* ===== verification/Config.thy ===== *)
theory Config
  imports SmartCompression
begin

text \<open>
  \<open>config.go\<close>: the configuration of the database and of the program around it, the defaults
  written when there is no file, and the loading of the file. Reading and writing YAML is a
  parameter.
\<close>

record CacheConfig =
  BlockCacheSize :: int
  KeyCacheSize :: int
  cacheEnabled :: bool

record GojiDBConfig =
  DataPath :: bytes
  MaxFileSize :: int
  cfgCompressionType :: CompressionType
  SyncWrites :: bool
  CompactionThreshold :: real
  TTLCheckInterval :: int
  EnableMetrics :: bool
  EnableTTL :: bool
  cfgCache :: CacheConfig
  cfgSmart :: "SmartCompressionConfig option"
  EnableWAL :: bool
  WALFlushInterval :: int
  WALMaxSize :: int
  WALSyncWrites :: bool

record AppConfig =
  appName :: bytes
  appVersion :: bytes
  appDescription :: bytes

record DatabaseConfig =
  DataDir :: bytes
  MaxMemoryMB :: int
  AutoCompact :: bool
  dbCompression :: bool
  CompressionLevel :: int
  dbCompressionType :: bytes
  EnableSmartCompression :: bool

record CLIConfig =
  Prompt :: bytes
  Theme :: bytes
  ShowBanner :: bool
  ShowStats :: bool

record PerformanceConfig =
  BatchSize :: int
  FlushInterval :: int
  MaxOpenFiles :: int

record LoggingConfig =
  logLevel :: bytes
  logFile :: bytes
  MaxSizeMB :: int
  MaxBackups :: int

record FeaturesConfig =
  TTLSupport :: bool
  TransactionSupport :: bool
  BackupSupport :: bool
  MetricsSupport :: bool

record Config =
  App :: AppConfig
  Database :: DatabaseConfig
  CLI :: CLIConfig
  Performance :: PerformanceConfig
  Logging :: LoggingConfig
  Features :: FeaturesConfig
  CacheSection :: CacheConfig
  GojiDB_section :: GojiDBConfig

text \<open>The description is a Chinese text, given by its UTF-8 bytes.\<close>

definition default_description :: bytes where
  "default_description =
     [233, 171, 152, 230, 128, 167, 232, 131, 189, 233, 148, 174, 229, 128, 188, 229, 173, 152,
      229, 130, 168, 230, 149, 176, 230, 141, 174, 229, 186, 147]"

definition createDefaultConfig :: "Platform \<Rightarrow> Config" where
  "createDefaultConfig P =
     \<lparr>App = \<lparr>appName = str ''GojiDB'', appVersion = str ''2.1.0'',
              appDescription = default_description\<rparr>,
      Database = \<lparr>DataDir = str ''../data'', MaxMemoryMB = 512, AutoCompact = True,
                   dbCompression = True, CompressionLevel = 0, dbCompressionType = [],
                   EnableSmartCompression = True\<rparr>,
      CLI = \<lparr>Prompt = str ''GojiDB> '', Theme = str ''default'', ShowBanner = True,
              ShowStats = True\<rparr>,
      Performance = \<lparr>BatchSize = 1000, FlushInterval = 5, MaxOpenFiles = 1000\<rparr>,
      Logging = \<lparr>logLevel = str ''info'', logFile = str ''../data/gojidb.log'', MaxSizeMB = 100,
                  MaxBackups = 3\<rparr>,
      Features = \<lparr>TTLSupport = True, TransactionSupport = True, BackupSupport = True,
                   MetricsSupport = True\<rparr>,
      CacheSection = \<lparr>BlockCacheSize = 1024, KeyCacheSize = 8192, cacheEnabled = True\<rparr>,
      GojiDB_section =
        \<lparr>DataPath = str ''../data'', MaxFileSize = 64 * 1024 * 1024,
         cfgCompressionType = SnappyCompression, SyncWrites = True, CompactionThreshold = 1 / 2,
         TTLCheckInterval = 5 * 60 * 1000000000, EnableMetrics = True, EnableTTL = True,
         cfgCache = \<lparr>BlockCacheSize = 0, KeyCacheSize = 0, cacheEnabled = False\<rparr>,
         cfgSmart = Some (DefaultSmartCompressionConfig P), EnableWAL = True,
         WALFlushInterval = 1000000000, WALMaxSize = 32 * 1024 * 1024, WALSyncWrites = True\<rparr>\<rparr>"

text \<open>
  \<open>LoadConfig\<close>: a missing file is created with the defaults. \<open>unmarshal\<close> overlays the file on the
  zero configuration, \<open>marshal\<close> prints one; \<open>read\<close> is what \<open>os.ReadFile\<close> returned and \<open>write\<close> the
  outcome of \<open>os.WriteFile\<close>. The result is the configuration and the bytes written, if any.
\<close>

definition SaveConfig ::
  "(Config \<Rightarrow> bytes outcome) \<Rightarrow> (bytes \<Rightarrow> unit outcome) \<Rightarrow> Config \<Rightarrow> unit outcome \<times> bytes option" where
  "SaveConfig marshal write c =
     (case marshal c of
        Ok data \<Rightarrow> (map_err (Wrapped ''write config'') (write data), Some data)
      | Err e \<Rightarrow> (Err (Wrapped ''marshal config'' e), None)
      | Panic \<Rightarrow> (Panic, None)
      | Blocked \<Rightarrow> (Blocked, None))"

definition LoadConfig ::
  "Platform \<Rightarrow> (bytes \<Rightarrow> Config outcome) \<Rightarrow> (Config \<Rightarrow> bytes outcome) \<Rightarrow> (bytes \<Rightarrow> unit outcome) \<Rightarrow>
   bytes outcome \<Rightarrow> Config outcome \<times> bytes option" where
  "LoadConfig P unmarshal marshal write rd =
     (case rd of
        Ok data \<Rightarrow> (map_err (Wrapped ''parse config'') (unmarshal data), None)
      | Err NoSuchFile \<Rightarrow>
          let c = createDefaultConfig P; (r, out) = SaveConfig marshal write c
          in (case r of
                Ok _ \<Rightarrow> Ok c
              | Err e \<Rightarrow> Err (Wrapped ''create default config'' e)
              | Panic \<Rightarrow> Panic
              | Blocked \<Rightarrow> Blocked, out)
      | Err e \<Rightarrow> (Err (Wrapped ''read config'' e), None)
      | Panic \<Rightarrow> (Panic, None)
      | Blocked \<Rightarrow> (Blocked, None))"

definition IsFeatureEnabled :: "Config \<Rightarrow> bytes \<Rightarrow> bool" where
  "IsFeatureEnabled c f =
     (if f = str ''ttl'' then TTLSupport (Features c)
      else if f = str ''transaction'' then TransactionSupport (Features c)
      else if f = str ''backup'' then BackupSupport (Features c)
      else if f = str ''metrics'' then MetricsSupport (Features c)
      else False)"

text \<open>\<open>ColorBold + ColorGreen + prompt + ColorReset\<close>\<close>

definition GetPrompt :: "Config \<Rightarrow> bytes" where
  "GetPrompt c =
     27 # str ''[1m'' @ 27 # str ''[32m'' @ Prompt (CLI c) @ 27 # str ''[0m''"

end
