(* ===== verification/Wal.thy ===== *)
theory Wal
  imports Config
begin

text \<open>
  \<open>wal.go\<close>: the write-ahead log. Records are framed by a big-endian length and written through a
  \<open>bufio.Writer\<close>; the manager keeps counters and, when configured, flushes after every record.
  This theory holds the writer, the manager's operations and the parsing of a log; replaying
  the transactions needs the database and is in \<open>Startup\<close>.
\<close>

section \<open>Buffered writer\<close>

text \<open>
  \<open>bufio.Writer\<close> of 64 KB. Its first error sticks: every later call returns it. A failed flush
  drops the bytes that reached the file and keeps the rest.
\<close>

record Writer =
  wbuf :: bytes
  werr :: "goerr option"

definition WriterSize :: nat where
  "WriterSize = 64 * 1024"

text \<open>The number of bytes of \<open>data\<close> by which the file grew in a failed write.\<close>

definition grown :: "bytes option \<Rightarrow> World \<Rightarrow> World \<Rightarrow> nat" where
  "grown h w w' =
     (case h of None \<Rightarrow> 0
      | Some f \<Rightarrow> length (contents f (wFiles w')) - length (contents f (wFiles w)))"

definition bufio_flush ::
  "Platform \<Rightarrow> bytes option \<Rightarrow> Writer \<Rightarrow> World \<Rightarrow> unit outcome \<times> Writer \<times> World" where
  "bufio_flush P h b w =
     (case werr b of
        Some e \<Rightarrow> (Err e, b, w)
      | None \<Rightarrow>
          if wbuf b = [] then (Ok (), b, w)
          else case append_file P h (wbuf b) w of
                 (Err e, w1) \<Rightarrow>
                   (Err e, b\<lparr>wbuf := drop (grown h w w1) (wbuf b), werr := Some e\<rparr>, w1)
               | (r, w1) \<Rightarrow> (r, b\<lparr>wbuf := []\<rparr>, w1))"

text \<open>A write that bypasses the empty buffer.\<close>

definition bufio_direct ::
  "Platform \<Rightarrow> bytes option \<Rightarrow> bytes \<Rightarrow> Writer \<Rightarrow> World \<Rightarrow> unit outcome \<times> Writer \<times> World" where
  "bufio_direct P h data b w =
     (case append_file P h data w of
        (Err e, w1) \<Rightarrow> (Err e, b\<lparr>werr := Some e\<rparr>, w1)
      | (r, w1) \<Rightarrow> (r, b, w1))"

text \<open>
  \<open>Write\<close>: what fits is buffered; otherwise the buffer is filled up and flushed, and the rest
  is buffered or, when it is larger than the buffer, written directly.
\<close>

definition bufio_write ::
  "Platform \<Rightarrow> bytes option \<Rightarrow> bytes \<Rightarrow> Writer \<Rightarrow> World \<Rightarrow> unit outcome \<times> Writer \<times> World" where
  "bufio_write P h data b w =
     (let avail = WriterSize - length (wbuf b)
      in case werr b of
           Some e \<Rightarrow> (Err e, b, w)
         | None \<Rightarrow>
             if length data \<le> avail then (Ok (), b\<lparr>wbuf := wbuf b @ data\<rparr>, w)
             else if wbuf b = [] then bufio_direct P h data b w
             else case bufio_flush P h (b\<lparr>wbuf := wbuf b @ take avail data\<rparr>) w of
                    (Ok _, b1, w1) \<Rightarrow>
                      let rest = drop avail data
                      in if length rest \<le> WriterSize then (Ok (), b1\<lparr>wbuf := rest\<rparr>, w1)
                         else bufio_direct P h rest b1 w1
                  | (r, b1, w1) \<Rightarrow> (r, b1, w1))"

section \<open>The manager\<close>

record WALRecord =
  wrType :: WALOpType
  wrTimestamp :: "64 word"
  wrKey :: key
  wrValue :: bytes
  wrTxID :: key
  wrChecksum :: "32 word"

record TransactionOp =
  opType :: bytes
  opKey :: key
  opValue :: bytes

record WALStats =
  TotalRecords :: "64 word"
  walTotalBytes :: "64 word"
  WriteCount :: "64 word"
  CheckpointCount :: "64 word"
  RecoveryCount :: "64 word"
  TransactionCommits :: "64 word"
  TransactionRollbacks :: "64 word"
  LastWriteTime :: instant
  LastCheckpoint :: "instant option"
  walStartTime :: instant

record WALManager =
  walFile :: "bytes option"
  walWriter :: Writer
  walConfig :: GojiDBConfig
  walClosed :: bool
  walStats :: WALStats

definition WalName :: bytes where
  "WalName = str ''wal.log''"

text \<open>
  \<open>time.NewTicker\<close> panics for an interval that is not positive, whatever the later test of the
  interval says. The two readings of the clock in the statistics follow the one in \<open>lastSync\<close>.
\<close>

definition NewWALManager ::
  "Platform \<Rightarrow> GojiDBConfig \<Rightarrow> World \<Rightarrow> WALManager outcome \<times> World" where
  "NewWALManager P cfg w =
     (let w0 = w\<lparr>wFiles := create_missing WalName (wFiles w)\<rparr>;
          (_, w1) = read_clock P w0
      in if WALFlushInterval cfg \<le> 0 then (Panic, w1)
         else let (t2, w2) = read_clock P w1; (t3, w3) = read_clock P w2
              in (Ok \<lparr>walFile = Some WalName, walWriter = \<lparr>wbuf = [], werr = None\<rparr>,
                   walConfig = cfg, walClosed = False,
                   walStats = \<lparr>TotalRecords = 0, walTotalBytes = 0, WriteCount = 0,
                     CheckpointCount = 0, RecoveryCount = 0, TransactionCommits = 0,
                     TransactionRollbacks = 0, LastWriteTime = t3, LastCheckpoint = None,
                     walStartTime = t2\<rparr>\<rparr>, w3))"

text \<open>The checksum is the sum of the bytes; the record keeps it, the log does not.\<close>

definition calculateChecksum :: "bytes \<Rightarrow> 32 word" where
  "calculateChecksum data = foldl (\<lambda>s b. s + ucast b) 0 data"

definition wal_entry :: "WALRecord \<Rightarrow> WALEntry" where
  "wal_entry r = \<lparr>weType = wrType r, weTimestamp = wrTimestamp r, weKey = wrKey r,
     weValue = wrValue r, weTxID = wrTxID r\<rparr>"

definition serializeRecord :: "Platform \<Rightarrow> WALRecord \<Rightarrow> bytes \<times> WALRecord" where
  "serializeRecord P r =
     (let data = jsonMarshal P (wal_entry r)
      in (data, r\<lparr>wrChecksum := calculateChecksum data\<rparr>))"

definition deserializeRecord :: "Platform \<Rightarrow> bytes \<Rightarrow> WALRecord outcome" where
  "deserializeRecord P data =
     (case jsonUnmarshal P data of
        None \<Rightarrow> Err CodecError
      | Some e \<Rightarrow> Ok \<lparr>wrType = weType e, wrTimestamp = weTimestamp e, wrKey = weKey e,
          wrValue = weValue e, wrTxID = weTxID e, wrChecksum = 0\<rparr>)"

definition wal_stat :: "(WALStats \<Rightarrow> WALStats) \<Rightarrow> WALManager \<Rightarrow> WALManager" where
  "wal_stat f m = m\<lparr>walStats := f (walStats m)\<rparr>"

text \<open>\<open>Flush\<close> and \<open>Sync\<close>; \<open>Sync\<close> fails on a closed file.\<close>

definition wal_sync :: "Platform \<Rightarrow> WALManager \<Rightarrow> World \<Rightarrow> unit outcome \<times> WALManager \<times> World" where
  "wal_sync P m w =
     (case bufio_flush P (walFile m) (walWriter m) w of
        (Ok _, b, w1) \<Rightarrow>
          (if walFile m = None then Err InvalidHandle else Ok (), m\<lparr>walWriter := b\<rparr>, w1)
      | (r, b, w1) \<Rightarrow> (r, m\<lparr>walWriter := b\<rparr>, w1))"

definition wal_write :: "Platform \<Rightarrow> bytes \<Rightarrow> WALManager \<Rightarrow> World \<Rightarrow> unit outcome \<times> WALManager \<times> World" where
  "wal_write P data m w =
     (let (r, b, w1) = bufio_write P (walFile m) data (walWriter m) w
      in (r, m\<lparr>walWriter := b\<rparr>, w1))"

text \<open>Sequencing of steps that thread the manager and the world.\<close>

definition wal_then ::
  "unit outcome \<times> WALManager \<times> World \<Rightarrow>
   (WALManager \<Rightarrow> World \<Rightarrow> unit outcome \<times> WALManager \<times> World) \<Rightarrow>
   unit outcome \<times> WALManager \<times> World" where
  "wal_then x f = (case x of (Ok _, m, w) \<Rightarrow> f m w | y \<Rightarrow> y)"

definition wal_wrap ::
  "string \<Rightarrow> unit outcome \<times> WALManager \<times> World \<Rightarrow> unit outcome \<times> WALManager \<times> World" where
  "wal_wrap s x = (map_err (Wrapped s) (fst x), snd x)"

definition WriteRecord ::
  "Platform \<Rightarrow> WALRecord \<Rightarrow> WALManager \<Rightarrow> World \<Rightarrow> unit outcome \<times> WALManager \<times> World" where
  "WriteRecord P rec m w =
     (if \<not> EnableWAL (walConfig m) then (Ok (), m, w)
      else let (data, _) = serializeRecord P rec
      in wal_then (wal_wrap ''write WAL record length''
                     (wal_write P (put_u32 (of_nat (length data))) m w)) (\<lambda>m1 w1.
         wal_then (wal_wrap ''write WAL record data'' (wal_write P data m1 w1)) (\<lambda>m2 w2.
         wal_then (if WALSyncWrites (walConfig m) then wal_sync P m2 w2 else (Ok (), m2, w2)) (\<lambda>m3 w3.
           let (t, w4) = read_clock P w3
           in (Ok (), wal_stat (\<lambda>s.
                 let s1 = s\<lparr>TotalRecords := TotalRecords s + 1,
                            walTotalBytes := walTotalBytes s + of_nat (length data),
                            WriteCount := WriteCount s + 1, LastWriteTime := t\<rparr>
                 in if wrType rec = WALCommit
                    then s1\<lparr>TransactionCommits := TransactionCommits s1 + 1\<rparr>
                    else if wrType rec = WALRollback
                    then s1\<lparr>TransactionRollbacks := TransactionRollbacks s1 + 1\<rparr>
                    else s1) m3, w4)))))"

definition getOpType :: "bytes \<Rightarrow> WALOpType" where
  "getOpType s =
     (if s = str ''PUT'' then WALPut else if s = str ''DELETE'' then WALDelete else WALPut)"

text \<open>A record stamped with the current time, as every caller makes it.\<close>

definition wal_log ::
  "Platform \<Rightarrow> WALOpType \<Rightarrow> key \<Rightarrow> bytes \<Rightarrow> key \<Rightarrow> WALManager \<Rightarrow> World \<Rightarrow>
   unit outcome \<times> WALManager \<times> World" where
  "wal_log P ty k v tx m w =
     (let (t, w1) = read_clock P w
      in WriteRecord P \<lparr>wrType = ty, wrTimestamp = word_of_int t, wrKey = k, wrValue = v,
           wrTxID = tx, wrChecksum = 0\<rparr> m w1)"

fun write_ops ::
  "Platform \<Rightarrow> key \<Rightarrow> TransactionOp list \<Rightarrow> WALManager \<Rightarrow> World \<Rightarrow>
   unit outcome \<times> WALManager \<times> World" where
  "write_ops P tx [] m w = (Ok (), m, w)"
| "write_ops P tx (op # ops) m w =
     wal_then (wal_log P (getOpType (opType op)) (opKey op) (opValue op) tx m w) (write_ops P tx ops)"

definition WriteTransaction ::
  "Platform \<Rightarrow> key \<Rightarrow> TransactionOp list \<Rightarrow> WALManager \<Rightarrow> World \<Rightarrow>
   unit outcome \<times> WALManager \<times> World" where
  "WriteTransaction P tx ops m w =
     (if \<not> EnableWAL (walConfig m) then (Ok (), m, w)
      else wal_then (wal_log P WALBegin [] [] tx m w) (\<lambda>m1 w1.
           wal_then (write_ops P tx ops m1 w1) (\<lambda>m2 w2.
             wal_log P WALCommit [] [] tx m2 w2)))"

definition Checkpoint :: "Platform \<Rightarrow> WALManager \<Rightarrow> World \<Rightarrow> unit outcome \<times> WALManager \<times> World" where
  "Checkpoint P m w =
     (if \<not> EnableWAL (walConfig m) then (Ok (), m, w)
      else wal_then (wal_sync P m w) (\<lambda>m1 w1.
        let (t, w2) = read_clock P w1
        in (Ok (), wal_stat (\<lambda>s. s\<lparr>CheckpointCount := CheckpointCount s + 1,
              LastCheckpoint := Some t\<rparr>) m1, w2)))"

definition GetWALSize :: "WALManager \<Rightarrow> World \<Rightarrow> nat outcome" where
  "GetWALSize m w =
     (if \<not> EnableWAL (walConfig m) then Ok 0
      else map_err (Wrapped ''WAL file info'') (file_size (walFile m) w))"

text \<open>One tick of the background goroutine; it ignores errors.\<close>

definition backgroundSync :: "Platform \<Rightarrow> WALManager \<Rightarrow> World \<Rightarrow> WALManager \<times> World" where
  "backgroundSync P m w = snd (wal_sync P m w)"

definition wal_Close :: "Platform \<Rightarrow> WALManager \<Rightarrow> World \<Rightarrow> WALManager \<times> World" where
  "wal_Close P m w =
     (if walClosed m then (m, w)
      else let (m1, w1) = snd (wal_sync P m w)
           in (m1\<lparr>walClosed := True, walFile := None\<rparr>, w1))"

section \<open>Reading a log\<close>

definition read_wal_record :: "Platform \<Rightarrow> bytes \<Rightarrow> WALRecord outcome \<times> bytes" where
  "read_wal_record P r =
     read_bind (case read_full 4 r of
                  (Ok b, r1) \<Rightarrow> (Ok (get_u32 b), r1)
                | (Err EOF, r1) \<Rightarrow> (Err EOF, r1)
                | (x, r1) \<Rightarrow> (Err (Wrapped ''read WAL record length'' UnexpectedEOF), r1)) (\<lambda>n r1.
     read_bind (map_err (Wrapped ''read WAL record data'') (fst (read_full (unat n) r1)),
                snd (read_full (unat n) r1)) (\<lambda>data r2.
       (map_err (Wrapped ''deserialize WAL record'') (deserializeRecord P data), r2)))"

lemma read_wal_record_less:
  "fst (read_wal_record P r) = Ok x \<Longrightarrow> length (snd (read_wal_record P r)) < length r"
proof -
  assume a: "fst (read_wal_record P r) = Ok x"
  then obtain b r1 where b: "read_full 4 r = (Ok b, r1)"
    by (cases "fst (read_full 4 r)"; cases "read_full 4 r")
      (auto simp: read_wal_record_def read_full_def split: if_splits)
  then have "length r1 < length r" by (auto simp: read_full_ok)
  moreover have "snd (read_wal_record P r) = snd (read_full (unat (get_u32 b)) r1)"
    using a b by (cases "read_full (unat (get_u32 b)) r1"; cases "fst (read_full (unat (get_u32 b)) r1)")
      (auto simp: read_wal_record_def)
  ultimately show ?thesis
    using read_full_rest_le [of "unat (get_u32 b)" r1] by simp
qed

text \<open>The loop of \<open>Recover\<close>: it ends at a clean end of file, any other error is its result.\<close>

function read_log :: "Platform \<Rightarrow> bytes \<Rightarrow> WALRecord list outcome" where
  "read_log P r =
     (case fst (read_wal_record P r) of
        Ok x \<Rightarrow> bind_outcome (read_log P (snd (read_wal_record P r))) (\<lambda>xs. Ok (x # xs))
      | Err EOF \<Rightarrow> Ok []
      | Err e \<Rightarrow> Err e
      | Panic \<Rightarrow> Panic
      | Blocked \<Rightarrow> Blocked)"
  by pat_completeness auto

termination
  by (relation "measure (\<lambda>(P, r). length r)") (auto dest: read_wal_record_less)

declare read_log.simps [simp del]

text \<open>Grouping by transaction, in the order of the log; records without an id are dropped.\<close>

definition add_record :: "WALRecord \<Rightarrow> (key \<times> WALRecord list) list \<Rightarrow> (key \<times> WALRecord list) list" where
  "add_record x txs =
     (if wrTxID x = [] then txs
      else AList.update (wrTxID x)
             ((case map_of txs (wrTxID x) of Some xs \<Rightarrow> xs | None \<Rightarrow> []) @ [x]) txs)"

definition group_records :: "WALRecord list \<Rightarrow> (key \<times> WALRecord list) list" where
  "group_records xs = fold add_record xs []"

definition tx_operations :: "WALRecord list \<Rightarrow> TransactionOp list" where
  "tx_operations xs =
     concat (map (\<lambda>x. if wrType x = WALPut
                      then [\<lparr>opType = str ''PUT'', opKey = wrKey x, opValue = wrValue x\<rparr>]
                      else if wrType x = WALDelete
                      then [\<lparr>opType = str ''DELETE'', opKey = wrKey x, opValue = []\<rparr>]
                      else []) xs)"

definition has_type :: "WALOpType \<Rightarrow> WALRecord list \<Rightarrow> bool" where
  "has_type ty xs \<longleftrightarrow> list_ex (\<lambda>x. wrType x = ty) xs"

definition tx_replayable :: "WALRecord list \<Rightarrow> bool" where
  "tx_replayable xs \<longleftrightarrow>
     2 \<le> length xs \<and> has_type WALBegin xs \<and> has_type WALCommit xs \<and> \<not> has_type WALRollback xs"

section \<open>What is in the log\<close>

text \<open>The log as a reader will see it once the buffer is flushed.\<close>

definition wal_image :: "WALManager \<Rightarrow> World \<Rightarrow> bytes" where
  "wal_image m w = contents WalName (wFiles w) @ wbuf (walWriter m)"

definition wal_open :: "WALManager \<Rightarrow> bool" where
  "wal_open m \<longleftrightarrow> walFile m = Some WalName \<and> werr (walWriter m) = None \<and>
     length (wbuf (walWriter m)) \<le> WriterSize \<and> EnableWAL (walConfig m)"

definition wal_frame :: "Platform \<Rightarrow> WALRecord \<Rightarrow> bytes" where
  "wal_frame P r =
     (let data = jsonMarshal P (wal_entry r) in put_u32 (of_nat (length data)) @ data)"

text \<open>A step that extends the image, keeps the manager open and leaves the other files alone.\<close>

definition wal_extends ::
  "bytes \<Rightarrow> WALManager \<Rightarrow> World \<Rightarrow> unit outcome \<times> WALManager \<times> World \<Rightarrow> bool" where
  "wal_extends d m w x \<longleftrightarrow>
     fst x = Ok () \<and> wal_open (fst (snd x)) \<and> walConfig (fst (snd x)) = walConfig m \<and>
     wal_image (fst (snd x)) (snd (snd x)) = wal_image m w @ d \<and>
     (\<forall>f. f \<noteq> WalName \<longrightarrow> map_of (wFiles (snd (snd x))) f = map_of (wFiles w) f) \<and>
     (distinct (map fst (wFiles w)) \<longrightarrow> distinct (map fst (wFiles (snd (snd x))))) \<and>
     wSnaps (snd (snd x)) = wSnaps w \<and> wTicks w \<le> wTicks (snd (snd x))"

lemma wal_extends_then:
  assumes "wal_extends d m w x"
    and "\<And>m' w'. x = (Ok (), m', w') \<Longrightarrow> wal_open m' \<Longrightarrow> walConfig m' = walConfig m \<Longrightarrow> wal_extends e m' w' (f m' w')"
  shows "wal_extends (d @ e) m w (wal_then x f)"
proof -
  obtain m' w' where x: "x = (Ok (), m', w')"
    using assms(1) by (cases x; cases "snd x") (auto simp: wal_extends_def)
  then show ?thesis
    using assms(1) assms(2) [OF x] by (simp add: wal_then_def wal_extends_def)
qed

lemma wal_extends_refl: "wal_open m \<Longrightarrow> wal_extends [] m w (Ok (), m, w)"
  by (simp add: wal_extends_def)

lemma wal_extends_wrap [simp]: "wal_extends d m w (wal_wrap s x) \<longleftrightarrow> wal_extends d m w x"
  by (simp add: wal_wrap_def wal_extends_def)

lemma wal_extends_cong:
  assumes "wal_extends d m w' x" "wFiles w' = wFiles w" "wSnaps w' = wSnaps w" "wTicks w \<le> wTicks w'"
  shows "wal_extends d m w x"
  using assms by (simp add: wal_extends_def wal_image_def)

lemma append_file_writes_ok:
  "writes_ok P \<Longrightarrow> append_file P (Some f) d w =
    (Ok (), w\<lparr>wFiles := AList.update f (contents f (wFiles w) @ d) (wFiles w),
       wWrites := Suc (wWrites w)\<rparr>)"
  by (rule append_file_ok) (simp add: writes_ok_def)

lemma wal_write_extends:
  assumes "writes_ok P" "wal_open m"
  shows "wal_extends d m w (wal_write P d m w)"
proof -
  let ?b = "walWriter m"
  have o: "walFile m = Some WalName" "werr ?b = None" "length (wbuf ?b) \<le> WriterSize" "EnableWAL (walConfig m)"
    using assms(2) by (simp_all add: wal_open_def)
  consider "length d \<le> WriterSize - length (wbuf ?b)"
    | "\<not> length d \<le> WriterSize - length (wbuf ?b)" "wbuf ?b = []"
    | "\<not> length d \<le> WriterSize - length (wbuf ?b)" "wbuf ?b \<noteq> []" by blast
  then show ?thesis
  proof cases
    case 1
    then have "length (wbuf ?b) + length d \<le> WriterSize" using o by linarith
    then show ?thesis
      using 1 o by (simp add: wal_write_def bufio_write_def Let_def wal_extends_def wal_open_def wal_image_def)
  next
    case 2
    then show ?thesis
      using o assms(1)
      by (simp add: wal_write_def bufio_write_def bufio_direct_def Let_def wal_extends_def wal_open_def
          wal_image_def append_file_writes_ok contents_update update_conv' distinct_update)
  next
    case 3
    let ?k = "WriterSize - length (wbuf ?b)"
    have "take ?k d @ drop ?k d = d" by simp
    then show ?thesis
      using 3 o assms(1)
      by (simp add: wal_write_def bufio_write_def bufio_direct_def bufio_flush_def Let_def wal_extends_def
          wal_open_def wal_image_def append_file_writes_ok contents_update update_conv' distinct_update)
  qed
qed

lemma wal_sync_extends:
  assumes "writes_ok P" "wal_open m"
  shows "wal_extends [] m w (wal_sync P m w)" "wbuf (walWriter (fst (snd (wal_sync P m w)))) = []"
  using assms
  by (auto simp: wal_sync_def bufio_flush_def wal_extends_def wal_open_def wal_image_def
      append_file_writes_ok contents_update update_conv' distinct_update)

lemma wal_stat_frame [simp]:
  "walFile (wal_stat f m) = walFile m" "walWriter (wal_stat f m) = walWriter m"
  "walConfig (wal_stat f m) = walConfig m" "wal_open (wal_stat f m) = wal_open m"
  "wal_image (wal_stat f m) w = wal_image m w"
  by (simp_all add: wal_stat_def wal_open_def wal_image_def)

lemma wal_extends_stat:
  "wal_open m \<Longrightarrow> wFiles w' = wFiles w \<Longrightarrow> wSnaps w' = wSnaps w \<Longrightarrow> wTicks w \<le> wTicks w' \<Longrightarrow>
   wal_extends [] m w (Ok (), wal_stat f m, w')"
  by (simp add: wal_extends_def wal_image_def)

lemma WriteRecord_extends:
  assumes "writes_ok P" "wal_open m"
  shows "wal_extends (wal_frame P r) m w (WriteRecord P r m w)"
proof -
  let ?data = "jsonMarshal P (wal_entry r)"
  have e: "EnableWAL (walConfig m)" using assms(2) by (simp add: wal_open_def)
  have "wal_extends (put_u32 (of_nat (length ?data)) @ ?data @ [] @ []) m w (WriteRecord P r m w)"
    unfolding WriteRecord_def serializeRecord_def Let_def split_beta fst_conv
    using e
    by (simp only: not_True_eq_False if_False simp_thms)
      (intro wal_extends_then wal_write_extends [OF assms(1)];
       simp add: assms wal_write_extends wal_sync_extends wal_extends_refl wal_extends_stat read_clock_def)
  then show ?thesis by (simp add: wal_frame_def Let_def)
qed

text \<open>With synchronous writes nothing is left in the buffer.\<close>

lemma wal_then_post:
  assumes "wal_extends d m w x"
    and "\<And>m' w'. x = (Ok (), m', w') \<Longrightarrow> wal_open m' \<Longrightarrow> walConfig m' = walConfig m \<Longrightarrow> Q (f m' w')"
  shows "Q (wal_then x f)"
proof -
  obtain m' w' where x: "x = (Ok (), m', w')"
    using assms(1) by (cases x; cases "snd x") (auto simp: wal_extends_def)
  then show ?thesis
    using assms(1) assms(2) [OF x] by (simp add: wal_then_def wal_extends_def)
qed

lemma WriteRecord_synced:
  assumes "writes_ok P" "wal_open m" "WALSyncWrites (walConfig m)"
  shows "wbuf (walWriter (fst (snd (WriteRecord P r m w)))) = []"
proof -
  have e: "EnableWAL (walConfig m)" using assms(2) by (simp add: wal_open_def)
  have last: "wbuf (walWriter (fst (snd (wal_then (wal_sync P m' w') (\<lambda>m3 w3.
      (Ok (), wal_stat (f w3) m3, g w3)))))) = []" if "wal_open m'" for m' w' f and g :: "World \<Rightarrow> World"
    using wal_sync_extends [OF assms(1) that, of w']
    by (cases "wal_sync P m' w'"; cases "snd (wal_sync P m' w')")
      (auto simp: wal_then_def wal_extends_def)
  show ?thesis
    unfolding WriteRecord_def serializeRecord_def Let_def split_beta fst_conv
    using e
    by (simp only: not_True_eq_False if_False)
      (rule wal_then_post [where Q = "\<lambda>x. wbuf (walWriter (fst (snd x))) = []"],
       simp, rule wal_write_extends [OF assms(1,2)],
       rule wal_then_post [where Q = "\<lambda>x. wbuf (walWriter (fst (snd x))) = []"],
       simp, rule wal_write_extends [OF assms(1)], assumption, simp add: assms(3) last)
qed

section \<open>The log as a sequence of frames\<close>

text \<open>Records that survive the trip through JSON and whose text fits the length field.\<close>

definition wal_ok :: "Platform \<Rightarrow> WALRecord \<Rightarrow> bool" where
  "wal_ok P r \<longleftrightarrow>
     jsonUnmarshal P (jsonMarshal P (wal_entry r)) = Some (wal_entry r) \<and>
     length (jsonMarshal P (wal_entry r)) < 2 ^ 32 \<and> wrChecksum r = 0"

lemma deserialize_serialize:
  "wal_ok P r \<Longrightarrow> deserializeRecord P (fst (serializeRecord P r)) = Ok r"
  by (simp add: wal_ok_def deserializeRecord_def serializeRecord_def wal_entry_def Let_def)

lemma read_wal_record_frame:
  assumes "wal_ok P r"
  shows "read_wal_record P (wal_frame P r @ rest) = (Ok r, rest)"
  using assms deserialize_serialize [OF assms]
  by (simp add: read_wal_record_def wal_frame_def Let_def wal_ok_def serializeRecord_def
      read_full_append unat_of_nat_small)

lemma read_wal_record_nil: "read_wal_record P [] = (Err EOF, [])"
  by (simp add: read_wal_record_def read_full_def)

interpretation wal: frame_codec "wal_frame P" "read_wal_record P" "wal_ok P" for P
  by unfold_locales (simp_all add: read_wal_record_frame read_wal_record_nil)

lemma read_log_frames:
  assumes "\<forall>r \<in> set rs. wal_ok P r"
  shows "read_log P (concat (map (wal_frame P) rs)) = Ok rs"
  using assms
proof (induction rs)
  case Nil
  then show ?case by (simp add: read_log.simps read_wal_record_nil)
next
  case (Cons r rs)
  then show ?case by (subst read_log.simps) (simp add: read_wal_record_frame)
qed

text \<open>A last frame cut short makes the whole log unreadable.\<close>

lemma read_log_torn:
  assumes "\<forall>r \<in> set rs. wal_ok P r" "wal_ok P r" "wal_frame P r = t @ u" "t \<noteq> []" "u \<noteq> []"
  shows "\<exists>e. read_log P (concat (map (wal_frame P) rs) @ t) = Err e"
  using assms(1)
proof (induction rs)
  case Nil
  let ?n = "length (jsonMarshal P (wal_entry r))"
  have n: "?n < 2 ^ 32" using assms(2) by (simp add: wal_ok_def)
  have l: "length t < 4 + ?n"
    using arg_cong [OF assms(3), of length] assms(5) by (simp add: wal_frame_def Let_def)
  show ?case
  proof (cases "length t < 4")
    case True
    then show ?thesis using assms(4)
      by (subst read_log.simps) (simp add: read_wal_record_def read_full_def)
  next
    case False
    have "take 4 t = take 4 (wal_frame P r)" using False assms(3) by simp
    then have h: "take 4 t = put_u32 (of_nat ?n)" by (simp add: wal_frame_def Let_def)
    have "length (drop 4 t) < ?n" using False l by simp
    then show ?thesis using False n
      by (subst read_log.simps) (simp add: read_wal_record_def read_full_def h unat_of_nat_small)
  qed
next
  case (Cons x rs)
  then obtain e where "read_log P (concat (map (wal_frame P) rs) @ t) = Err e" by auto
  then show ?case using Cons.prems
    by (subst read_log.simps) (simp add: read_wal_record_frame)
qed

section \<open>Transactions in the log\<close>

definition op_ok :: "TransactionOp \<Rightarrow> bool" where
  "op_ok op \<longleftrightarrow> opType op = str ''PUT'' \<or> opType op = str ''DELETE'' \<and> opValue op = []"

definition logs ::
  "Platform \<Rightarrow> (WALRecord list \<Rightarrow> bool) \<Rightarrow> WALManager \<Rightarrow> World \<Rightarrow> unit outcome \<times> WALManager \<times> World \<Rightarrow> bool" where
  "logs P Q m w x \<longleftrightarrow> (\<exists>rs. Q rs \<and> wal_extends (concat (map (wal_frame P) rs)) m w x)"

definition record_is :: "WALOpType \<Rightarrow> key \<Rightarrow> bytes \<Rightarrow> key \<Rightarrow> WALRecord \<Rightarrow> bool" where
  "record_is ty k v tx r \<longleftrightarrow> wrType r = ty \<and> wrKey r = k \<and> wrValue r = v \<and> wrTxID r = tx \<and> wrChecksum r = 0"

lemma wal_log_logs:
  assumes "writes_ok P" "wal_open m"
  shows "logs P (\<lambda>rs. \<exists>r. rs = [r] \<and> record_is ty k v tx r) m w (wal_log P ty k v tx m w)"
proof -
  let ?r = "\<lparr>wrType = ty, wrTimestamp = word_of_int (clock P (wTicks w)), wrKey = k, wrValue = v,
     wrTxID = tx, wrChecksum = 0\<rparr>"
  have "wal_extends (wal_frame P ?r) m w (wal_log P ty k v tx m w)"
  proof (rule wal_extends_cong)
    show "wal_extends (wal_frame P ?r) m (snd (read_clock P w)) (wal_log P ty k v tx m w)"
      using WriteRecord_extends [OF assms, of ?r "snd (read_clock P w)"]
      by (simp add: wal_log_def read_clock_def)
  qed (simp_all add: read_clock_def)
  then show ?thesis by (auto simp: logs_def record_is_def intro!: exI [of _ "[?r]"])
qed

lemma logs_then:
  assumes "logs P Q m w x"
    and "\<And>m' w'. x = (Ok (), m', w') \<Longrightarrow> wal_open m' \<Longrightarrow> walConfig m' = walConfig m \<Longrightarrow> logs P R m' w' (f m' w')"
  shows "logs P (\<lambda>rs. \<exists>xs ys. rs = xs @ ys \<and> Q xs \<and> R ys) m w (wal_then x f)"
proof -
  obtain xs where xs: "Q xs" "wal_extends (concat (map (wal_frame P) xs)) m w x"
    using assms(1) by (auto simp: logs_def)
  obtain m' w' where x: "x = (Ok (), m', w')"
    using xs(2) by (cases x; cases "snd x") (auto simp: wal_extends_def)
  then have "wal_open m'" "walConfig m' = walConfig m"
    using xs(2) by (simp_all add: wal_extends_def)
  then obtain ys where ys: "R ys" "wal_extends (concat (map (wal_frame P) ys)) m' w' (f m' w')"
    using assms(2) [OF x] by (auto simp: logs_def)
  have "wal_extends (concat (map (wal_frame P) (xs @ ys))) m w (wal_then x f)"
    using xs(2) ys(2) by (simp add: x wal_then_def wal_extends_def)
  then show ?thesis using xs(1) ys(1) unfolding logs_def by blast
qed

definition ops_records :: "key \<Rightarrow> TransactionOp list \<Rightarrow> WALRecord list \<Rightarrow> bool" where
  "ops_records tx ops rs \<longleftrightarrow>
     list_all2 (\<lambda>op r. record_is (getOpType (opType op)) (opKey op) (opValue op) tx r) ops rs"

lemma write_ops_logs:
  assumes "writes_ok P" "wal_open m"
  shows "logs P (ops_records tx ops) m w (write_ops P tx ops m w)"
  using assms(2)
proof (induction ops arbitrary: m w)
  case Nil
  then show ?case
    using wal_extends_refl [OF Nil, of w] by (auto simp: logs_def ops_records_def intro!: exI [of _ "[]"])
next
  case (Cons op ops)
  have "logs P (\<lambda>rs. \<exists>xs ys. rs = xs @ ys \<and>
      (\<exists>r. xs = [r] \<and> record_is (getOpType (opType op)) (opKey op) (opValue op) tx r) \<and>
      ops_records tx ops ys) m w (write_ops P tx (op # ops) m w)"
    unfolding write_ops.simps
    by (rule logs_then [OF wal_log_logs [OF assms(1) Cons.prems]]) (rule Cons.IH)
  then show ?case by (auto simp: logs_def ops_records_def)
qed

definition tx_log :: "key \<Rightarrow> TransactionOp list \<Rightarrow> WALRecord list \<Rightarrow> bool" where
  "tx_log tx ops rs \<longleftrightarrow> (\<exists>b xs c. rs = b # xs @ [c] \<and> record_is WALBegin [] [] tx b \<and>
     ops_records tx ops xs \<and> record_is WALCommit [] [] tx c)"

lemma WriteTransaction_logs:
  assumes "writes_ok P" "wal_open m"
  shows "logs P (tx_log tx ops) m w (WriteTransaction P tx ops m w)"
proof -
  have e: "EnableWAL (walConfig m)" using assms(2) by (simp add: wal_open_def)
  have "logs P (\<lambda>rs. \<exists>xs ys. rs = xs @ ys \<and> (\<exists>r. xs = [r] \<and> record_is WALBegin [] [] tx r) \<and>
     (\<exists>us vs. ys = us @ vs \<and> ops_records tx ops us \<and> (\<exists>r. vs = [r] \<and> record_is WALCommit [] [] tx r)))
     m w (WriteTransaction P tx ops m w)"
    unfolding WriteTransaction_def
    using e
    by (simp only: not_True_eq_False if_False)
      (intro logs_then wal_log_logs [OF assms(1)] write_ops_logs [OF assms(1)] assms(2), assumption+)
  then show ?thesis unfolding logs_def tx_log_def by fastforce
qed

text \<open>Grouping and replay see exactly the operations that were logged.\<close>

lemma ops_records_operations:
  assumes "ops_records tx ops rs" "\<forall>op \<in> set ops. op_ok op"
  shows "tx_operations rs = ops" "\<forall>r \<in> set rs. wrTxID r = tx \<and> wrType r \<in> {WALPut, WALDelete}"
  using assms unfolding ops_records_def
  by (induction rule: list_all2_induct)
    (auto simp: tx_operations_def record_is_def op_ok_def getOpType_def str_def)

lemma tx_log_replayable:
  assumes "tx_log tx ops rs" "\<forall>op \<in> set ops. op_ok op"
  shows "tx_replayable rs" "tx_operations rs = ops" "\<forall>r \<in> set rs. wrTxID r = tx"
proof -
  obtain b xs c where r: "rs = b # xs @ [c]" "record_is WALBegin [] [] tx b"
    "ops_records tx ops xs" "record_is WALCommit [] [] tx c"
    using assms(1) by (auto simp: tx_log_def)
  note o = ops_records_operations [OF r(3) assms(2)]
  show "tx_replayable rs"
    using r o(2) by (auto simp: tx_replayable_def has_type_def list_ex_iff record_is_def)
  show "\<forall>x \<in> set rs. wrTxID x = tx" using r o(2) by (auto simp: record_is_def)
  show "tx_operations rs = ops"
    using r o(1) by (simp add: tx_operations_def record_is_def)
qed

lemma group_records_single:
  assumes "\<forall>r \<in> set rs. wrTxID r = tx" "tx \<noteq> []" "rs \<noteq> []"
  shows "group_records rs = [(tx, rs)]"
proof -
  have "fold add_record xs [(tx, ys)] = [(tx, ys @ xs)]" if "\<forall>r \<in> set xs. wrTxID r = tx" for xs ys
    using that assms(2) by (induction xs arbitrary: ys) (auto simp: add_record_def)
  then show ?thesis
    using assms by (cases rs) (auto simp: group_records_def add_record_def)
qed

section \<open>A whole transaction\<close>

lemma WriteTransaction_synced:
  assumes "writes_ok P" "wal_open m" "WALSyncWrites (walConfig m)"
    and "WriteTransaction P tx ops m w = (r, m', w')"
  shows "wbuf (walWriter m') = []"
proof -
  have e: "EnableWAL (walConfig m)" using assms(2) by (simp add: wal_open_def)
  have last: "wbuf (walWriter (fst (snd (wal_log P ty k v t m1 w1)))) = []"
    if "wal_open m1" "walConfig m1 = walConfig m" for ty k v t m1 w1
    using WriteRecord_synced [OF assms(1) that(1)] assms(3) that(2) by (simp add: wal_log_def read_clock_def)
  have "wbuf (walWriter (fst (snd (WriteTransaction P tx ops m w)))) = []"
  proof -
    obtain rs where a: "wal_extends rs m w (wal_log P WALBegin [] [] tx m w)"
      using wal_log_logs [OF assms(1,2), of WALBegin "[]" "[]" tx w] by (auto simp: logs_def)
    show ?thesis
      unfolding WriteTransaction_def if_not_P [OF not_not [THEN iffD2, OF e]]
    proof (rule wal_then_post [OF a])
      fix m1 w1 assume m1: "wal_open m1" "walConfig m1 = walConfig m"
      obtain rs where b: "wal_extends rs m1 w1 (write_ops P tx ops m1 w1)"
        using write_ops_logs [OF assms(1) m1(1), of tx ops w1] by (auto simp: logs_def)
      show "wbuf (walWriter (fst (snd (wal_then (write_ops P tx ops m1 w1)
          (\<lambda>m2 w2. wal_log P WALCommit [] [] tx m2 w2))))) = []"
        by (rule wal_then_post [OF b]) (simp add: last m1)
    qed
  qed
  then show ?thesis using assms(4) by simp
qed

lemma tx_log_fields:
  assumes "tx_log tx ops rs" "x \<in> set rs"
  shows "wrTxID x = tx \<and> wrChecksum x = 0 \<and>
    (wrKey x, wrValue x) \<in> insert ([], []) ((\<lambda>op. (opKey op, opValue op)) ` set ops)"
proof -
  have o: "\<exists>op \<in> set ops. record_is (getOpType (opType op)) (opKey op) (opValue op) tx y"
    if "ops_records tx ops ys" "y \<in> set ys" for ys y
    using that unfolding ops_records_def by (induction rule: list_all2_induct) auto
  obtain b ys e where p: "rs = b # ys @ [e]" "record_is WALBegin [] [] tx b" "ops_records tx ops ys"
    "record_is WALCommit [] [] tx e" using assms(1) by (auto simp: tx_log_def)
  then show ?thesis using o [OF p(3)] assms(2) by (fastforce simp: record_is_def)
qed

end
