(* ===== verification/TTL.thy ===== *)
theory TTL
  imports Platform "HOL-Library.Multiset"
begin

text \<open>
  \<open>ttl.go\<close>: the expiry heap (\<open>container/heap\<close> on a slice of items that carry their own index),
  the \<open>TTLManager\<close> built on it, and the \<open>TimeWheel\<close>. The main facts: every operation keeps the
  heap order, the index fields and the set of items, so the manager expires exactly the keys
  that are due, earliest first.
\<close>

section \<open>The heap\<close>

record ExpiryItem =
  eiKey :: key
  eiExpires :: instant
  eiIndex :: int

type_synonym ExpiryHeap = "ExpiryItem list"

definition heap_Less :: "ExpiryHeap \<Rightarrow> nat \<Rightarrow> nat \<Rightarrow> bool" where
  "heap_Less h i j \<longleftrightarrow> eiExpires (h ! i) < eiExpires (h ! j)"

definition heap_Swap :: "nat \<Rightarrow> nat \<Rightarrow> ExpiryHeap \<Rightarrow> ExpiryHeap" where
  "heap_Swap i j h = h[i := (h ! j)\<lparr>eiIndex := int i\<rparr>, j := (h ! i)\<lparr>eiIndex := int j\<rparr>]"

text \<open>\<open>container/heap\<close>: \<open>up\<close> and \<open>down\<close>; the latter also returns where the element ended.\<close>

definition parent :: "nat \<Rightarrow> nat" where
  "parent j = (j - 1) div 2"

function heap_up :: "nat \<Rightarrow> ExpiryHeap \<Rightarrow> ExpiryHeap" where
  "heap_up j h =
     (let i = parent j
      in if i = j \<or> \<not> heap_Less h j i then h else heap_up i (heap_Swap i j h))"
  by pat_completeness auto

termination by (relation "measure fst") (auto simp: parent_def)

declare heap_up.simps [simp del]

definition min_child :: "nat \<Rightarrow> nat \<Rightarrow> ExpiryHeap \<Rightarrow> nat" where
  "min_child i n h =
     (let j1 = 2 * i + 1 in if j1 + 1 < n \<and> heap_Less h (j1 + 1) j1 then j1 + 1 else j1)"

function heap_down :: "nat \<Rightarrow> nat \<Rightarrow> ExpiryHeap \<Rightarrow> ExpiryHeap \<times> nat" where
  "heap_down i n h =
     (if 2 * i + 1 \<ge> n then (h, i)
      else let j = min_child i n h
           in if \<not> heap_Less h j i then (h, i) else heap_down j n (heap_Swap i j h))"
  by pat_completeness auto

termination by (relation "measure (\<lambda>(i, n, h). n - i)") (auto simp: min_child_def Let_def split: if_splits)

declare heap_down.simps [simp del]

definition heap_Push :: "ExpiryItem \<Rightarrow> ExpiryHeap \<Rightarrow> ExpiryHeap" where
  "heap_Push x h = heap_up (length h) (h @ [x\<lparr>eiIndex := int (length h)\<rparr>])"

definition heap_Fix :: "nat \<Rightarrow> ExpiryHeap \<Rightarrow> ExpiryHeap" where
  "heap_Fix i h =
     (let (h1, k) = heap_down i (length h) h in if k > i then h1 else heap_up i h1)"

definition heap_Pop :: "ExpiryHeap \<Rightarrow> ExpiryItem \<times> ExpiryHeap" where
  "heap_Pop h =
     (let n = length h - 1; h1 = fst (heap_down 0 n (heap_Swap 0 n h))
      in ((last h1)\<lparr>eiIndex := -1\<rparr>, butlast h1))"

definition heap_Remove :: "nat \<Rightarrow> ExpiryHeap \<Rightarrow> ExpiryItem \<times> ExpiryHeap" where
  "heap_Remove i h =
     (let n = length h - 1;
          h1 = (if n \<noteq> i
                then let (h2, k) = heap_down i n (heap_Swap i n h)
                     in if k > i then h2 else heap_up i h2
                else h)
      in ((last h1)\<lparr>eiIndex := -1\<rparr>, butlast h1))"

section \<open>\<open>TTLManager\<close>\<close>

text \<open>
  The manager holds the heap and whether it was stopped; the clean-up callback, run in its own
  goroutine for each expired key, is the list of keys that \<open>processExpiredKeys\<close> returns.
\<close>

record TTLManager =
  expiryHeap :: ExpiryHeap
  checkInterval :: int
  tmStopped :: bool

definition NewTTLManager :: TTLManager where
  "NewTTLManager = \<lparr>expiryHeap = [], checkInterval = 100 * 1000000, tmStopped = False\<rparr>"

text \<open>The position of a key in the slice, found by scanning it.\<close>

definition scan :: "key \<Rightarrow> ExpiryHeap \<Rightarrow> nat" where
  "scan k h = length (takeWhile (\<lambda>x. eiKey x \<noteq> k) h)"

definition heap_put :: "key \<Rightarrow> instant \<Rightarrow> ExpiryHeap \<Rightarrow> ExpiryHeap" where
  "heap_put k t h =
     (let p = scan k h
      in if p < length h then heap_Fix (nat (eiIndex (h ! p))) (h[p := (h ! p)\<lparr>eiExpires := t\<rparr>])
         else heap_Push \<lparr>eiKey = k, eiExpires = t, eiIndex = 0\<rparr> h)"

definition heap_del :: "key \<Rightarrow> ExpiryHeap \<Rightarrow> ExpiryHeap" where
  "heap_del k h =
     (let p = scan k h in if p < length h then snd (heap_Remove (nat (eiIndex (h ! p))) h) else h)"

definition tm_Add :: "Platform \<Rightarrow> key \<Rightarrow> int \<Rightarrow> TTLManager \<Rightarrow> World \<Rightarrow> TTLManager \<times> World" where
  "tm_Add P k ttl tm w =
     (let (now, w1) = read_clock P w
      in (tm\<lparr>expiryHeap := heap_put k (now + ttl) (expiryHeap tm)\<rparr>, w1))"

definition tm_Remove :: "key \<Rightarrow> TTLManager \<Rightarrow> TTLManager" where
  "tm_Remove k tm = tm\<lparr>expiryHeap := heap_del k (expiryHeap tm)\<rparr>"

lemma length_heap_Swap [simp]: "length (heap_Swap i j h) = length h"
  by (simp add: heap_Swap_def)

lemma length_heap_up [simp]: "length (heap_up j h) = length h"
  by (induction j h rule: heap_up.induct) (subst heap_up.simps, simp add: Let_def)

lemma length_heap_down [simp]: "length (fst (heap_down i n h)) = length h"
  by (induction i n h rule: heap_down.induct) (subst heap_down.simps, simp add: Let_def)

lemma length_heap_Pop: "h \<noteq> [] \<Longrightarrow> length (snd (heap_Pop h)) < length h"
  by (simp add: heap_Pop_def Let_def)

text \<open>
  \<open>processExpiredKeys\<close>: pops while the earliest item is due. The keys are returned in the order
  in which their clean-up goroutines are started.
\<close>

function pop_expired :: "instant \<Rightarrow> ExpiryHeap \<Rightarrow> key list \<times> ExpiryHeap" where
  "pop_expired now h =
     (if h = [] then ([], h)
      else if eiExpires (h ! 0) > now then ([], h)
      else let (ks, h1) = pop_expired now (snd (heap_Pop h)) in (eiKey (h ! 0) # ks, h1))"
  by pat_completeness auto

termination by (relation "measure (\<lambda>(now, h). length h)") (auto simp: length_heap_Pop)

declare pop_expired.simps [simp del]

definition processExpiredKeys :: "Platform \<Rightarrow> TTLManager \<Rightarrow> World \<Rightarrow> key list \<times> TTLManager \<times> World" where
  "processExpiredKeys P tm w =
     (let (now, w1) = read_clock P w; (ks, h) = pop_expired now (expiryHeap tm)
      in (ks, tm\<lparr>expiryHeap := h\<rparr>, w1))"

text \<open>Closing the channel a second time panics.\<close>

definition tm_Stop :: "TTLManager \<Rightarrow> TTLManager outcome" where
  "tm_Stop tm = (if tmStopped tm then Panic else Ok (tm\<lparr>tmStopped := True\<rparr>))"

definition tm_GetStats :: "TTLManager \<Rightarrow> nat \<times> instant option" where
  "tm_GetStats tm =
     (let h = expiryHeap tm in (length h, if h = [] then None else Some (eiExpires (h ! 0))))"

section \<open>The heap order\<close>

definition due :: "ExpiryHeap \<Rightarrow> nat \<Rightarrow> instant" where
  "due h i = eiExpires (h ! i)"

definition ordered :: "nat \<Rightarrow> ExpiryHeap \<Rightarrow> bool" where
  "ordered n h \<longleftrightarrow> (\<forall>k<n. 0 < k \<longrightarrow> due h (parent k) \<le> due h k)"

text \<open>Ordered except that element \<open>i\<close> may be too small for its parent.\<close>

definition up_ready :: "nat \<Rightarrow> nat \<Rightarrow> ExpiryHeap \<Rightarrow> bool" where
  "up_ready i n h \<longleftrightarrow>
     (\<forall>k<n. 0 < k \<and> k \<noteq> i \<longrightarrow> due h (parent k) \<le> due h k) \<and>
     (\<forall>k<n. 0 < k \<and> parent k = i \<and> 0 < i \<longrightarrow> due h (parent i) \<le> due h k)"

text \<open>Ordered except that element \<open>i\<close> may be too small for its parent or too large for its children.\<close>

definition down_ready :: "nat \<Rightarrow> nat \<Rightarrow> ExpiryHeap \<Rightarrow> bool" where
  "down_ready i n h \<longleftrightarrow>
     (\<forall>k<n. 0 < k \<and> k \<noteq> i \<and> parent k \<noteq> i \<longrightarrow> due h (parent k) \<le> due h k) \<and>
     (\<forall>k<n. 0 < k \<and> parent k = i \<and> 0 < i \<longrightarrow> due h (parent i) \<le> due h k)"

lemma due_Swap:
  "i < length h \<Longrightarrow> j < length h \<Longrightarrow>
   due (heap_Swap i j h) k = (if k = i then due h j else if k = j then due h i else due h k)"
  by (auto simp: due_def heap_Swap_def nth_list_update)

lemma heap_Less_due: "heap_Less h i j \<longleftrightarrow> due h i < due h j"
  by (simp add: heap_Less_def due_def)

lemma parent_less: "0 < k \<Longrightarrow> parent k < k"
  by (simp add: parent_def)

lemma parent_0 [simp]: "parent 0 = 0"
  by (simp add: parent_def)

lemma parent_children: "0 < k \<Longrightarrow> parent k = i \<longleftrightarrow> k = 2 * i + 1 \<or> k = 2 * i + 2"
  unfolding parent_def by presburger

lemma up_ready_step:
  assumes "up_ready j n h" "0 < j" "j < n" "n \<le> length h" "due h j < due h (parent j)"
  shows "up_ready (parent j) n (heap_Swap (parent j) j h)"
proof -
  let ?i = "parent j"
  have i: "?i < j" using assms(2) by (rule parent_less)
  have d: "due (heap_Swap ?i j h) k = (if k = ?i then due h j else if k = j then due h ?i else due h k)" for k
    using i assms(3,4) by (intro due_Swap) simp_all
  have A: "due h (parent k) \<le> due h k" if "k < n" "0 < k" "k \<noteq> j" for k
    using assms(1) that by (simp add: up_ready_def)
  have B: "due h ?i \<le> due h k" if "k < n" "0 < k" "parent k = j" for k
    using assms(1,2) that by (simp add: up_ready_def)
  have "due (heap_Swap ?i j h) (parent k) \<le> due (heap_Swap ?i j h) k"
    if "k < n" "0 < k" "k \<noteq> ?i" for k
  proof -
    consider "k = j" | "k \<noteq> j" "parent k = j" | "k \<noteq> j" "parent k = ?i" | "k \<noteq> j" "parent k \<noteq> j" "parent k \<noteq> ?i"
      by blast
    then show ?thesis
    proof cases
      case 1 then show ?thesis using assms(5) i by (simp add: d)
    next
      case 2 then show ?thesis using B that i by (simp add: d)
    next
      case 3 then show ?thesis using A [of k] that i assms(5) by (simp add: d)
    next
      case 4 then show ?thesis using A [of k] that by (simp add: d)
    qed
  qed
  moreover have "due (heap_Swap ?i j h) (parent ?i) \<le> due (heap_Swap ?i j h) k"
    if "k < n" "0 < k" "parent k = ?i" "0 < ?i" for k
  proof -
    have p: "parent ?i < ?i" using that(4) by (rule parent_less)
    have g: "due h (parent ?i) \<le> due h ?i" using A [of ?i] that(4) i assms(3) by simp
    show ?thesis
    proof (cases "k = j")
      case True then show ?thesis using g p i by (simp add: d)
    next
      case False then show ?thesis using g p i A [of k] that parent_less [OF that(2)] by (simp add: d)
    qed
  qed
  ultimately show ?thesis by (simp add: up_ready_def)
qed

lemma heap_up_ordered:
  "up_ready j n h \<Longrightarrow> j < n \<Longrightarrow> n \<le> length h \<Longrightarrow> ordered n (heap_up j h)"
proof (induction j h rule: heap_up.induct)
  case (1 j h)
  show ?case
  proof (cases "parent j = j \<or> \<not> heap_Less h j (parent j)")
    case True
    then have "heap_up j h = h" by (subst heap_up.simps) (simp add: Let_def)
    moreover have "ordered n h"
      using True "1.prems"(1) by (auto simp: ordered_def up_ready_def heap_Less_due)
    ultimately show ?thesis by simp
  next
    case False
    then have u: "heap_up j h = heap_up (parent j) (heap_Swap (parent j) j h)"
      by (subst heap_up.simps) (simp add: Let_def)
    have "0 < j" using False by (cases "j = 0") auto
    then have j: "0 < j" "due h j < due h (parent j)" "parent j < j"
      using False parent_less by (auto simp: heap_Less_due)
    have "ordered n (heap_up (parent j) (heap_Swap (parent j) j h))"
      using False j "1.prems"
      by (intro "1.IH") (simp_all add: up_ready_step)
    then show ?thesis by (simp add: u)
  qed
qed

lemma down_ready_step:
  assumes "down_ready i n h" "n \<le> length h" "j < n" "parent j = i" "0 < j"
    and "due h j < due h i" "\<And>k. k < n \<Longrightarrow> 0 < k \<Longrightarrow> parent k = i \<Longrightarrow> due h j \<le> due h k"
  shows "down_ready j n (heap_Swap i j h)"
    and "\<And>k. k < n \<Longrightarrow> 0 < k \<Longrightarrow> k \<noteq> j \<Longrightarrow> parent k \<noteq> j \<Longrightarrow>
      due (heap_Swap i j h) (parent k) \<le> due (heap_Swap i j h) k"
    and "due (heap_Swap i j h) i < due (heap_Swap i j h) j"
proof -
  have i: "i < j" using assms(4) parent_less [OF assms(5)] by simp
  have d: "due (heap_Swap i j h) k = (if k = i then due h j else if k = j then due h i else due h k)" for k
    using i assms(2,3) by (intro due_Swap) simp_all
  have A: "due h (parent k) \<le> due h k" if "k < n" "0 < k" "k \<noteq> i" "parent k \<noteq> i" for k
    using assms(1) that by (simp add: down_ready_def)
  have B: "due h (parent i) \<le> due h k" if "k < n" "0 < k" "parent k = i" "0 < i" for k
    using assms(1) that by (simp add: down_ready_def)
  show C: "due (heap_Swap i j h) (parent k) \<le> due (heap_Swap i j h) k"
    if "k < n" "0 < k" "k \<noteq> j" "parent k \<noteq> j" for k
  proof -
    consider "k = i" | "k \<noteq> i" "parent k = i" | "k \<noteq> i" "parent k \<noteq> i" by blast
    then show ?thesis
    proof cases
      case 1
      then have "parent k < k" using that(2) by (simp add: parent_less)
      then show ?thesis using 1 B [of j] assms(3-5) that i by (simp add: d)
    next
      case 2 then show ?thesis using assms(7) [of k] that i by (simp add: d)
    next
      case 3 then show ?thesis using A [of k] that by (simp add: d)
    qed
  qed
  show D: "due (heap_Swap i j h) i < due (heap_Swap i j h) j"
    using assms(6) i by (simp add: d)
  have "due (heap_Swap i j h) (parent j) \<le> due (heap_Swap i j h) k"
    if "k < n" "0 < k" "parent k = j" for k
  proof -
    have "j < k" using that(3) parent_less [OF that(2)] by simp
    then show ?thesis using A [of k] that i assms(4) by (simp add: d)
  qed
  then show "down_ready j n (heap_Swap i j h)"
    using C by (simp add: down_ready_def)
qed

lemma heap_down_ready:
  assumes "down_ready i n h" "n \<le> length h" "heap_down i n h = (h', p)"
  shows "i \<le> p \<and> (p = i \<longrightarrow> h' = h \<and> up_ready i n h) \<and> (i < p \<longrightarrow> ordered n h')"
  using assms
proof (induction i n h rule: heap_down.induct)
  case (1 i n h)
  let ?j1 = "2 * i + 1"
  show ?case
  proof (cases "?j1 \<ge> n")
    case True
    then have "heap_down i n h = (h, i)" by (subst heap_down.simps) (simp add: Let_def)
    moreover have "parent k \<noteq> i" if "k < n" "0 < k" for k
      using True that by (auto simp: parent_children)
    ultimately show ?thesis using "1.prems" by (auto simp: down_ready_def up_ready_def)
  next
    case False
    define j where "j = min_child i n h"
    have j: "j < n" "0 < j" using False by (auto simp: j_def min_child_def Let_def)
    have "j = 2 * i + 1 \<or> j = 2 * i + 2" by (simp add: j_def min_child_def Let_def)
    then have j3: "parent j = i" using parent_children [OF j(2)] by blast
    have least: "due h j \<le> due h k" if "k < n" "0 < k" "parent k = i" for k
      using that by (auto simp: parent_children [OF that(2)] j_def min_child_def Let_def heap_Less_due)
    show ?thesis
    proof (cases "heap_Less h j i")
      case no: False
      then have "heap_down i n h = (h, i)"
        using False by (subst heap_down.simps) (simp add: Let_def flip: j_def)
      moreover have "due h i \<le> due h k" if "k < n" "0 < k" "parent k = i" for k
        using least [OF that] no by (simp add: heap_Less_due)
      ultimately show ?thesis using "1.prems"
        by (auto simp: down_ready_def up_ready_def)
    next
      case yes: True
      then have u: "heap_down i n h = heap_down j n (heap_Swap i j h)"
        using False by (subst heap_down.simps) (simp add: Let_def flip: j_def)
      note st = down_ready_step [OF "1.prems"(1,2) j(1) j3 j(2) yes [unfolded heap_Less_due] least]
      have "j \<le> p \<and> (p = j \<longrightarrow> h' = heap_Swap i j h \<and> up_ready j n (heap_Swap i j h)) \<and> (j < p \<longrightarrow> ordered n h')"
        using False yes "1.prems"(2,3)
        by (intro "1.IH" [OF _ j_def]) (simp_all add: st(1) u)
      moreover have "ordered n (heap_Swap i j h)" if "up_ready j n (heap_Swap i j h)"
        using that st(3) j3 by (fastforce simp: ordered_def up_ready_def)
      moreover have "i < j" using j3 parent_less [OF j(2)] by simp
      ultimately show ?thesis by (cases "p = j") auto
    qed
  qed
qed

section \<open>Items and their indices\<close>

definition core :: "ExpiryItem \<Rightarrow> key \<times> instant" where
  "core x = (eiKey x, eiExpires x)"

definition cores :: "ExpiryHeap \<Rightarrow> (key \<times> instant) multiset" where
  "cores h = mset (map core h)"

definition index_ok :: "ExpiryHeap \<Rightarrow> bool" where
  "index_ok h \<longleftrightarrow> (\<forall>i < length h. eiIndex (h ! i) = int i)"

lemma core_index [simp]: "core (x\<lparr>eiIndex := n\<rparr>) = core x"
  by (simp add: core_def)

lemma index_ok_Swap:
  "index_ok h \<Longrightarrow> i < length h \<Longrightarrow> j < length h \<Longrightarrow> index_ok (heap_Swap i j h)"
  by (auto simp: index_ok_def heap_Swap_def nth_list_update)

lemma core_Swap:
  assumes "i < length h" "j < length h"
  shows "cores (heap_Swap i j h) = cores h"
proof -
  have "map core (heap_Swap i j h) = (map core h)[i := map core h ! j, j := map core h ! i]"
    using assms by (simp add: heap_Swap_def map_update)
  moreover have "mset ((map core h)[i := map core h ! j, j := map core h ! i]) = mset (map core h)"
    using assms by (intro mset_swap) simp_all
  ultimately show ?thesis by (simp only: cores_def)
qed

text \<open>Swapping within the first \<open>n\<close> elements leaves the others alone.\<close>

lemma heap_up_frame:
  "j < n \<Longrightarrow> n \<le> length h \<Longrightarrow> index_ok h \<Longrightarrow>
   index_ok (heap_up j h) \<and> cores (heap_up j h) = cores h \<and>
   (\<forall>k \<ge> n. heap_up j h ! k = h ! k)"
proof (induction j h rule: heap_up.induct)
  case (1 j h)
  show ?case
  proof (cases "parent j = j \<or> \<not> heap_Less h j (parent j)")
    case True
    then have "heap_up j h = h" by (subst heap_up.simps) (simp add: Let_def)
    then show ?thesis using "1.prems" by simp
  next
    case False
    then have u: "heap_up j h = heap_up (parent j) (heap_Swap (parent j) j h)"
      by (subst heap_up.simps) (simp add: Let_def)
    have "0 < j" using False by (cases "j = 0") auto
    then have p: "parent j < j" by (rule parent_less)
    have "heap_Swap (parent j) j h ! k = h ! k" if "k \<ge> n" for k
      using that p "1.prems"(1) by (simp add: heap_Swap_def)
    then show ?thesis
      using "1.IH" [OF refl False] p "1.prems"
      by (simp add: u index_ok_Swap core_Swap)
  qed
qed

lemma heap_down_frame:
  "n \<le> length h \<Longrightarrow> i < length h \<Longrightarrow> index_ok h \<Longrightarrow>
   index_ok (fst (heap_down i n h)) \<and> cores (fst (heap_down i n h)) = cores h \<and>
   (i < n \<longrightarrow> (\<forall>k \<ge> n. fst (heap_down i n h) ! k = h ! k))"
proof (induction i n h rule: heap_down.induct)
  case (1 i n h)
  show ?case
  proof (cases "2 * i + 1 \<ge> n \<or> \<not> heap_Less h (min_child i n h) i")
    case True
    then have "heap_down i n h = (h, i)" by (subst heap_down.simps) (auto simp: Let_def)
    then show ?thesis using "1.prems" by simp
  next
    case False
    let ?j = "min_child i n h"
    have u: "heap_down i n h = heap_down ?j n (heap_Swap i ?j h)"
      using False by (subst heap_down.simps) (simp add: Let_def)
    have j: "?j < n" using False by (auto simp: min_child_def Let_def)
    have "heap_Swap i ?j h ! k = h ! k" if "k \<ge> n" "i < n" for k
      using that j by (simp add: heap_Swap_def)
    then show ?thesis
      using "1.IH" [of ?j] False j "1.prems"
      by (simp add: u index_ok_Swap core_Swap)
  qed
qed

section \<open>Heap operations\<close>

definition heap_inv :: "ExpiryHeap \<Rightarrow> bool" where
  "heap_inv h \<longleftrightarrow> index_ok h \<and> ordered (length h) h"

lemma heap_Push_inv:
  assumes "heap_inv h"
  shows "heap_inv (heap_Push x h)" "cores (heap_Push x h) = add_mset (core x) (cores h)"
proof -
  let ?h = "h @ [x\<lparr>eiIndex := int (length h)\<rparr>]"
  have i: "index_ok ?h"
    using assms by (simp add: heap_inv_def index_ok_def nth_append)
  have "up_ready (length h) (length ?h) ?h"
    using assms unfolding up_ready_def
    by (auto simp: heap_inv_def ordered_def due_def nth_append parent_children
        dest: less_trans [OF parent_less])
  then have "ordered (length ?h) (heap_up (length h) ?h)"
    by (rule heap_up_ordered) simp_all
  moreover note heap_up_frame [of "length h" "length ?h" ?h, OF _ _ i]
  ultimately show "heap_inv (heap_Push x h)" "cores (heap_Push x h) = add_mset (core x) (cores h)"
    by (simp_all add: heap_Push_def heap_inv_def cores_def)
qed

text \<open>Whatever element \<open>i\<close> was changed to, \<open>Fix\<close> restores the order.\<close>

lemma fix_ordered:
  assumes "down_ready i n h" "i < n" "n \<le> length h" "index_ok h"
  shows "ordered n (let (h1, k) = heap_down i n h in if k > i then h1 else heap_up i h1)"
    and "index_ok (let (h1, k) = heap_down i n h in if k > i then h1 else heap_up i h1)"
    and "cores (let (h1, k) = heap_down i n h in if k > i then h1 else heap_up i h1) = cores h"
    and "length (let (h1, k) = heap_down i n h in if k > i then h1 else heap_up i h1) = length h"
    and "\<forall>k \<ge> n. (let (h1, k) = heap_down i n h in if k > i then h1 else heap_up i h1) ! k = h ! k"
proof -
  obtain h1 p where d: "heap_down i n h = (h1, p)" by (rule prod.exhaust)
  note r = heap_down_ready [OF assms(1,3) d]
  have f: "index_ok h1" "cores h1 = cores h" "\<forall>k \<ge> n. h1 ! k = h ! k" "length h1 = length h"
    using heap_down_frame [of n h i] assms d length_heap_down [of i n h] by simp_all
  let ?r = "let (h1, k) = heap_down i n h in if k > i then h1 else heap_up i h1"
  have "ordered n ?r \<and> index_ok ?r \<and> cores ?r = cores h \<and> length ?r = length h \<and> (\<forall>k \<ge> n. ?r ! k = h ! k)"
  proof (cases "p > i")
    case True
    then show ?thesis using r f by (simp add: d)
  next
    case False
    then have "h1 = h" "up_ready i n h" "p = i" using r by auto
    then show ?thesis
      using heap_up_ordered [of i n h] heap_up_frame [of i n h] assms by (simp add: d)
  qed
  then show "ordered n ?r" "index_ok ?r" "cores ?r = cores h" "length ?r = length h"
    "\<forall>k \<ge> n. ?r ! k = h ! k" by blast+
qed

lemma heap_Fix_inv:
  assumes "heap_inv h" "i < length h"
  shows "heap_inv (heap_Fix i (h[i := (h ! i)\<lparr>eiExpires := t\<rparr>]))"
    and "cores (heap_Fix i (h[i := (h ! i)\<lparr>eiExpires := t\<rparr>])) =
      add_mset (eiKey (h ! i), t) (cores h - {#core (h ! i)#})"
proof -
  let ?h = "h[i := (h ! i)\<lparr>eiExpires := t\<rparr>]"
  have ix: "index_ok ?h"
    using assms by (auto simp: heap_inv_def index_ok_def nth_list_update)
  have o: "due h (parent k) \<le> due h k" if "k < length h" "0 < k" for k
    using assms(1) that by (simp add: heap_inv_def ordered_def)
  have d: "due ?h k = (if k = i then t else due h k)" for k
    using assms(2) by (auto simp: due_def nth_list_update)
  have "due h (parent i) \<le> due h k" if "k < length h" "0 < k" "parent k = i" "0 < i" for k
    using o [of k] o [of i] that assms(2) by auto
  moreover have "parent i \<noteq> i" if "0 < i" using parent_less [OF that] by simp
  moreover have "k \<noteq> i" if "parent k = i" "0 < i" for k
    using that parent_less [of k] by (cases "k = 0") auto
  ultimately have "down_ready i (length ?h) ?h"
    using o by (auto simp: down_ready_def d)
  note r = fix_ordered [OF this _ _ ix]
  then show "heap_inv (heap_Fix i ?h)"
    using assms(2) by (simp add: heap_inv_def heap_Fix_def del: length_list_update) simp
  have "cores ?h = add_mset (eiKey (h ! i), t) (cores h - {#core (h ! i)#})"
    using assms(2) by (simp add: cores_def map_update mset_update core_def)
  then show "cores (heap_Fix i ?h) = add_mset (eiKey (h ! i), t) (cores h - {#core (h ! i)#})"
    using r(3) assms(2) by (simp add: heap_Fix_def)
qed

text \<open>Dropping the last element, which \<open>Pop\<close> and \<open>Remove\<close> have exchanged with the one to go.\<close>

lemma butlast_inv:
  assumes "r \<noteq> []" "index_ok r" "ordered (length r - 1) r"
  shows "heap_inv (butlast r)" "cores (butlast r) = cores r - {#core (last r)#}"
proof -
  have "due (butlast r) k = due r k" if "k < length r - 1" for k
    using that by (simp add: due_def nth_butlast)
  moreover have "parent k < length r - 1" if "k < length r - 1" "0 < k" for k
    using that parent_less [of k] by linarith
  ultimately have "ordered (length (butlast r)) (butlast r)"
    using assms(3) by (simp add: ordered_def)
  moreover have "index_ok (butlast r)"
    using assms(2) by (simp add: index_ok_def nth_butlast)
  ultimately show "heap_inv (butlast r)" by (simp add: heap_inv_def)
  have "cores r = add_mset (core (last r)) (cores (butlast r))"
    using assms(1) by (cases r rule: rev_cases) (simp_all add: cores_def)
  then show "cores (butlast r) = cores r - {#core (last r)#}" by simp
qed

lemma swap_last_ready:
  assumes "heap_inv h" "length h = Suc n" "i < n"
  shows "down_ready i n (heap_Swap i n h)"
proof -
  have d: "due (heap_Swap i n h) k = (if k = i then due h n else if k = n then due h i else due h k)" for k
    using assms(2,3) by (intro due_Swap) simp_all
  have o: "due h (parent k) \<le> due h k" if "k < n" "0 < k" for k
    using assms(1,2) that by (simp add: heap_inv_def ordered_def)
  have p: "parent k < n" if "k < n" for k
    using that parent_less [of k] by (cases "k = 0") auto
  have "due (heap_Swap i n h) (parent k) \<le> due (heap_Swap i n h) k"
    if "k < n" "0 < k" "k \<noteq> i" "parent k \<noteq> i" for k
    using o [of k] p [of k] that by (simp add: d)
  moreover have "due (heap_Swap i n h) (parent i) \<le> due (heap_Swap i n h) k"
    if "k < n" "0 < k" "parent k = i" "0 < i" for k
  proof -
    have "due h (parent i) \<le> due h k"
      using order_trans [OF o [of i] o [of k, unfolded that(3)]] that assms(3) by simp
    moreover have "parent i \<noteq> i" "parent i \<noteq> n" "k \<noteq> i" "k \<noteq> n"
      using parent_less [OF that(4)] parent_less [OF that(2)] p [of i] assms(3) that by simp_all
    ultimately show ?thesis by (simp add: d)
  qed
  ultimately show ?thesis by (simp add: down_ready_def)
qed

lemma heap_Swap_last:
  "i < length h \<Longrightarrow> n < length h \<Longrightarrow> core (heap_Swap i n h ! n) = core (h ! i)"
  by (auto simp: heap_Swap_def nth_list_update)

lemma last_removed:
  assumes "index_ok r" "ordered n r" "length r = Suc n" "cores r = cores h" "core (r ! n) = x"
  shows "heap_inv (butlast r)" "cores (butlast r) = cores h - {#x#}" "core (last r) = x"
proof -
  have r: "r \<noteq> []" using assms(3) by auto
  then have l: "last r = r ! n" using assms(3) by (simp add: last_conv_nth)
  show "heap_inv (butlast r)" "cores (butlast r) = cores h - {#x#}"
    using butlast_inv [OF r assms(1)] assms(2-5) l by simp_all
  show "core (last r) = x" using l assms(5) by simp
qed

lemma heap_Remove_inv:
  assumes "heap_inv h" "i < length h"
  shows "heap_inv (snd (heap_Remove i h))"
    and "cores (snd (heap_Remove i h)) = cores h - {#core (h ! i)#}"
    and "core (fst (heap_Remove i h)) = core (h ! i)"
proof -
  obtain n where n: "length h = Suc n" using assms(2) by (cases "length h") auto
  define r where "r = (if n \<noteq> i then let (h2, k) = heap_down i n (heap_Swap i n h)
      in if k > i then h2 else heap_up i h2 else h)"
  have r: "index_ok r \<and> ordered n r \<and> cores r = cores h \<and> length r = Suc n \<and> core (r ! n) = core (h ! i)"
  proof (cases "n = i")
    case True
    have "ordered n h"
      using assms(1) n by (simp add: heap_inv_def ordered_def)
    then show ?thesis using True assms n by (simp add: r_def heap_inv_def)
  next
    case False
    then have i: "i < n" using assms(2) n by simp
    have ix: "index_ok (heap_Swap i n h)"
      using assms n by (intro index_ok_Swap) (simp_all add: heap_inv_def)
    note f = fix_ordered [OF swap_last_ready [OF assms(1) n i] i _ ix]
    have "core (heap_Swap i n h ! n) = core (h ! i)" using assms(2) n by (intro heap_Swap_last) simp_all
    then show ?thesis
      using f False assms(2) n unfolding r_def by (simp add: core_Swap)
  qed
  then have "heap_Remove i h = ((last r)\<lparr>eiIndex := -1\<rparr>, butlast r)"
    using n by (simp add: heap_Remove_def r_def Let_def)
  then show "heap_inv (snd (heap_Remove i h))"
    "cores (snd (heap_Remove i h)) = cores h - {#core (h ! i)#}"
    "core (fst (heap_Remove i h)) = core (h ! i)"
    using last_removed [of r n h "core (h ! i)"] r by simp_all
qed

lemma heap_Pop_inv:
  assumes "heap_inv h" "h \<noteq> []"
  shows "heap_inv (snd (heap_Pop h))"
    and "cores (snd (heap_Pop h)) = cores h - {#core (h ! 0)#}"
    and "core (fst (heap_Pop h)) = core (h ! 0)"
proof -
  obtain n where n: "length h = Suc n" using assms(2) by (cases "length h") auto
  obtain r p where d: "heap_down 0 n (heap_Swap 0 n h) = (r, p)" by (rule prod.exhaust)
  have ix: "index_ok (heap_Swap 0 n h)"
    using assms n by (intro index_ok_Swap) (simp_all add: heap_inv_def)
  have l: "core (heap_Swap 0 n h ! n) = core (h ! 0)" using n by (intro heap_Swap_last) simp_all
  have r: "index_ok r \<and> ordered n r \<and> cores r = cores h \<and> length r = Suc n \<and> core (r ! n) = core (h ! 0)"
  proof (cases "n = 0")
    case True
    then have "r = heap_Swap 0 n h" using d by (subst (asm) heap_down.simps) simp
    then show ?thesis
      using ix True l n by (simp add: core_Swap ordered_def)
  next
    case False
    note f = heap_down_frame [of n "heap_Swap 0 n h" 0, OF _ _ ix]
    have f': "index_ok r" "cores r = cores h" "length r = length h" "r ! n = heap_Swap 0 n h ! n"
      using f False n length_heap_down [of 0 n "heap_Swap 0 n h"]
      unfolding d fst_conv by (simp_all add: core_Swap)
    have "down_ready 0 n (heap_Swap 0 n h)"
      using swap_last_ready [OF assms(1) n] False by simp
    then have "0 \<le> p \<and> (p = 0 \<longrightarrow> r = heap_Swap 0 n h \<and> up_ready 0 n (heap_Swap 0 n h)) \<and>
        (0 < p \<longrightarrow> ordered n r)"
      using d n by (intro heap_down_ready) simp_all
    then have "ordered n r"
      by (cases "p = 0") (auto simp: up_ready_def ordered_def)
    then show ?thesis using f' l n by simp
  qed
  then have "heap_Pop h = ((last r)\<lparr>eiIndex := -1\<rparr>, butlast r)"
    using n by (simp add: heap_Pop_def d Let_def)
  then show "heap_inv (snd (heap_Pop h))"
    "cores (snd (heap_Pop h)) = cores h - {#core (h ! 0)#}"
    "core (fst (heap_Pop h)) = core (h ! 0)"
    using last_removed [of r n h "core (h ! 0)"] r by simp_all
qed

text \<open>The first element is the earliest.\<close>

lemma ordered_min: "ordered n h \<Longrightarrow> k < n \<Longrightarrow> due h 0 \<le> due h k"
proof (induction k rule: less_induct)
  case (less k)
  show ?case
  proof (cases "k = 0")
    case False
    then have "parent k < k" by (simp add: parent_less)
    then show ?thesis
      using less.IH [of "parent k"] less.prems False
      by (fastforce simp: ordered_def intro: order_trans)
  qed simp
qed

lemma heap_min: "heap_inv h \<Longrightarrow> (k, t) \<in># cores h \<Longrightarrow> eiExpires (h ! 0) \<le> t"
  using ordered_min [of "length h" h]
  by (auto simp: heap_inv_def cores_def core_def due_def in_set_conv_nth)

text \<open>\<open>heap.Init\<close> of the empty slice.\<close>

lemma heap_inv_nil [simp]: "heap_inv []"
  by (simp add: heap_inv_def index_ok_def ordered_def)

section \<open>The manager\<close>

definition ttl_inv :: "ExpiryHeap \<Rightarrow> bool" where
  "ttl_inv h \<longleftrightarrow> heap_inv h \<and> distinct (map eiKey h)"

definition ttl_abs :: "ExpiryHeap \<Rightarrow> key \<rightharpoonup> instant" where
  "ttl_abs h = map_of (map core h)"

lemma ttl_abs_cores:
  assumes "distinct (map eiKey h)"
  shows "ttl_abs h k = Some t \<longleftrightarrow> (k, t) \<in># cores h"
proof -
  have "map fst (map core h) = map eiKey h" by (simp add: core_def)
  then have "map_of (map core h) k = Some t \<longleftrightarrow> (k, t) \<in> set (map core h)"
    using assms by (metis map_of_eq_Some_iff)
  then show ?thesis by (simp add: ttl_abs_def cores_def)
qed

lemma distinct_keys_cores: "distinct (map eiKey h) \<longleftrightarrow> (\<forall>k. count (image_mset fst (cores h)) k \<le> 1)"
proof -
  have "image_mset fst (cores h) = mset (map eiKey h)"
    by (simp add: cores_def core_def multiset.map_comp comp_def)
  moreover have "count (mset xs) k \<le> 1 \<longleftrightarrow> count (mset xs) k = (if k \<in> set xs then 1 else 0)" for xs :: "key list" and k
  proof (cases "k \<in> set xs")
    case True
    then have "0 < count (mset xs) k" by (simp add: count_greater_zero_iff)
    then have "count (mset xs) k \<le> 1 \<longleftrightarrow> count (mset xs) k = 1" by linarith
    then show ?thesis using True by simp
  next
    case False
    then have c: "count (mset xs) k = 0" by (simp add: count_eq_zero_iff)
    show ?thesis unfolding c using False by simp
  qed
  ultimately show ?thesis by (simp only: distinct_count_atmost_1)
qed

lemma ttl_abs_eqI:
  assumes "distinct (map eiKey h)" "distinct (map eiKey h')"
    and "\<And>k t. (k, t) \<in># cores h' \<longleftrightarrow> m k = Some t"
  shows "ttl_abs h' = m"
proof
  fix k
  show "ttl_abs h' k = m k"
    using assms(3) [of k] ttl_abs_cores [OF assms(2), of k]
    by (cases "m k"; cases "ttl_abs h' k") auto
qed

lemma scan_less: "scan k h < length h \<longleftrightarrow> k \<in> set (map eiKey h)"
  by (induction h) (auto simp: scan_def)

lemma scan_key: "scan k h < length h \<Longrightarrow> eiKey (h ! scan k h) = k"
  using nth_length_takeWhile [of "\<lambda>x. eiKey x \<noteq> k" h] by (simp add: scan_def)

lemma scan_abs: "scan k h < length h \<longleftrightarrow> k \<in> dom (ttl_abs h)"
proof -
  have "dom (ttl_abs h) = set (map eiKey h)"
    by (simp add: ttl_abs_def dom_map_of_conv_image_fst core_def image_image)
  then show ?thesis by (simp only: scan_less)
qed

text \<open>Removing and adding one item, in terms of the map the heap stands for.\<close>

lemma ttl_remove_item:
  assumes "distinct (map eiKey h)" "i < length h" "cores h' = cores h - {#core (h ! i)#}"
  shows "distinct (map eiKey h')" "ttl_abs h' = (ttl_abs h)(eiKey (h ! i) := None)"
proof -
  let ?k = "eiKey (h ! i)"
  have c: "count (image_mset fst (cores h)) a \<le> 1" for a
    using assms(1) by (simp add: distinct_keys_cores)
  have sub: "cores h' \<subseteq># cores h" by (simp add: assms(3))
  then show d: "distinct (map eiKey h')"
    unfolding distinct_keys_cores
    using c by (meson image_mset_subseteq_mono mset_subset_eq_count order_trans)
  have inh: "core (h ! i) \<in># cores h" using assms(2) by (simp add: cores_def)
  have keys: "image_mset fst (cores h) = add_mset ?k (image_mset fst (cores h'))"
  proof -
    have "cores h = add_mset (core (h ! i)) (cores h')" using inh by (simp add: assms(3))
    then show ?thesis by (simp only: image_mset_add_mset) (simp add: core_def)
  qed
  have "(k, t) \<in># cores h' \<longleftrightarrow> ((ttl_abs h)(?k := None)) k = Some t" for k t
  proof (cases "k = ?k")
    case True
    have "count (image_mset fst (cores h')) ?k = 0" using c [of ?k] by (simp add: keys)
    then have "?k \<notin># image_mset fst (cores h')" by (simp add: count_eq_zero_iff)
    then have "(k, t) \<notin># cores h'" using True by force
    then show ?thesis using True by simp
  next
    case False
    then have "(k, t) \<noteq> core (h ! i)" by (simp add: core_def)
    then have "(k, t) \<in># cores h' \<longleftrightarrow> (k, t) \<in># cores h"
      by (simp add: assms(3) in_diff_count flip: count_greater_zero_iff)
    then show ?thesis using False ttl_abs_cores [OF assms(1), of k t] by simp
  qed
  then show "ttl_abs h' = (ttl_abs h)(?k := None)" by (rule ttl_abs_eqI [OF assms(1) d])
qed

lemma ttl_add_item:
  assumes "distinct (map eiKey h)" "ttl_abs h k = None" "cores h' = add_mset (k, t) (cores h)"
  shows "distinct (map eiKey h')" "ttl_abs h' = (ttl_abs h)(k \<mapsto> t)"
proof -
  have nk: "(k, u) \<notin># cores h" for u using ttl_abs_cores [OF assms(1), of k u] assms(2) by simp
  then have "k \<notin># image_mset fst (cores h)" by auto
  then have "count (image_mset fst (cores h)) k = 0" by (simp add: count_eq_zero_iff)
  then show d: "distinct (map eiKey h')"
    using assms(1) by (simp add: distinct_keys_cores assms(3))
  have "(l, u) \<in># cores h' \<longleftrightarrow> ((ttl_abs h)(k \<mapsto> t)) l = Some u" for l u
    using ttl_abs_cores [OF assms(1), of l u] nk by (auto simp: assms(3))
  then show "ttl_abs h' = (ttl_abs h)(k \<mapsto> t)" by (rule ttl_abs_eqI [OF assms(1) d])
qed

lemma ttl_inv_index: "ttl_inv h \<Longrightarrow> i < length h \<Longrightarrow> nat (eiIndex (h ! i)) = i"
  by (simp add: ttl_inv_def heap_inv_def index_ok_def)

lemma heap_del_refines:
  assumes "ttl_inv h"
  shows "ttl_inv (heap_del k h)" "ttl_abs (heap_del k h) = (ttl_abs h)(k := None)"
proof -
  have "ttl_inv (heap_del k h) \<and> ttl_abs (heap_del k h) = (ttl_abs h)(k := None)"
  proof (cases "scan k h < length h")
    case True
    then have k: "eiKey (h ! scan k h) = k" by (rule scan_key)
    have h: "heap_inv h" "distinct (map eiKey h)" using assms by (simp_all add: ttl_inv_def)
    have r: "heap_del k h = snd (heap_Remove (scan k h) h)"
      using True ttl_inv_index [OF assms True] by (simp add: heap_del_def Let_def)
    show ?thesis
      using heap_Remove_inv(1,2) [OF h(1) True]
        ttl_remove_item [OF h(2) True heap_Remove_inv(2) [OF h(1) True]]
      by (simp add: r ttl_inv_def k)
  next
    case False
    then have "ttl_abs h k = None" using scan_abs by (metis domIff)
    then show ?thesis using False assms by (auto simp: heap_del_def Let_def fun_upd_idem)
  qed
  then show "ttl_inv (heap_del k h)" "ttl_abs (heap_del k h) = (ttl_abs h)(k := None)" by blast+
qed

lemma heap_put_refines:
  assumes "ttl_inv h"
  shows "ttl_inv (heap_put k t h)" "ttl_abs (heap_put k t h) = (ttl_abs h)(k \<mapsto> t)"
proof -
  have h: "heap_inv h" "distinct (map eiKey h)" using assms by (simp_all add: ttl_inv_def)
  have "ttl_inv (heap_put k t h) \<and> ttl_abs (heap_put k t h) = (ttl_abs h)(k \<mapsto> t)"
  proof (cases "scan k h < length h")
    case True
    let ?i = "scan k h"
    let ?h1 = "h[?i := (h ! ?i)\<lparr>eiExpires := t\<rparr>]"
    have k: "eiKey (h ! ?i) = k" using True by (rule scan_key)
    have r: "heap_put k t h = heap_Fix ?i ?h1"
      using True ttl_inv_index [OF assms True] by (simp add: heap_put_def Let_def)
    note f = heap_Fix_inv [OF h(1) True, of t]
    let ?rest = "take ?i h @ drop (Suc ?i) h"
    have c: "cores ?rest = cores h - {#core (h ! ?i)#}"
      using True by (subst (2) id_take_nth_drop [of ?i h]) (simp_all add: cores_def)
    note rm = ttl_remove_item [OF h(2) True c]
    have "ttl_abs ?rest k = None" using rm(2) k by simp
    note ad = ttl_add_item [OF rm(1) this, of "heap_Fix ?i ?h1" t]
    have "cores (heap_Fix ?i ?h1) = add_mset (k, t) (cores ?rest)"
      using f(2) k c by simp
    then show ?thesis using ad f(1) rm(2) k by (simp add: r ttl_inv_def)
  next
    case False
    then have n: "ttl_abs h k = None" using scan_abs by (metis domIff)
    have r: "heap_put k t h = heap_Push \<lparr>eiKey = k, eiExpires = t, eiIndex = 0\<rparr> h"
      using False by (simp add: heap_put_def Let_def)
    note f = heap_Push_inv [OF h(1), of "\<lparr>eiKey = k, eiExpires = t, eiIndex = 0\<rparr>"]
    then show ?thesis
      using ttl_add_item [OF h(2) n, of "heap_put k t h" t] by (simp add: r ttl_inv_def core_def)
  qed
  then show "ttl_inv (heap_put k t h)" "ttl_abs (heap_put k t h) = (ttl_abs h)(k \<mapsto> t)" by blast+
qed

lemma pop_expired_refines:
  assumes "ttl_inv h" "pop_expired now h = (ks, h')"
  shows "ttl_inv h'"
    "ttl_abs h' = (\<lambda>k. case ttl_abs h k of Some t \<Rightarrow> if t \<le> now then None else Some t | None \<Rightarrow> None)"
    "set ks = {k. \<exists>t \<le> now. ttl_abs h k = Some t}" "distinct ks"
    "sorted (map (\<lambda>k. the (ttl_abs h k)) ks)"
  using assms
proof -
  have "ttl_inv h' \<and>
    ttl_abs h' = (\<lambda>k. case ttl_abs h k of Some t \<Rightarrow> if t \<le> now then None else Some t | None \<Rightarrow> None) \<and>
    set ks = {k. \<exists>t \<le> now. ttl_abs h k = Some t} \<and> distinct ks \<and>
    sorted (map (\<lambda>k. the (ttl_abs h k)) ks)"
    using assms
  proof (induction now h arbitrary: ks h' rule: pop_expired.induct)
    case (1 now h)
    have hi: "heap_inv h" "distinct (map eiKey h)" using "1.prems"(1) by (simp_all add: ttl_inv_def)
    show ?case
    proof (cases "h = []")
      case True
      then show ?thesis using "1.prems" by (simp add: pop_expired.simps ttl_abs_def)
    next
      case ne: False
      have first: "ttl_abs h (eiKey (h ! 0)) = Some (eiExpires (h ! 0))"
        using ttl_abs_cores [OF hi(2)] ne by (simp add: cores_def core_def)
      have least: "eiExpires (h ! 0) \<le> t" if "ttl_abs h k = Some t" for k t
        using heap_min [OF hi(1), of k t] that ttl_abs_cores [OF hi(2), of k t] by simp
      show ?thesis
      proof (cases "eiExpires (h ! 0) > now")
        case True
        then have "ks = []" "h' = h" using "1.prems"(2) ne by (simp_all add: pop_expired.simps)
        moreover have "\<not> t \<le> now" if "ttl_abs h k = Some t" for k t
          using least [OF that] True by linarith
        ultimately show ?thesis
          using "1.prems"(1) by (auto split: option.splits)
      next
        case False
        let ?h1 = "snd (heap_Pop h)" and ?k0 = "eiKey (h ! 0)"
        obtain ks1 where p: "pop_expired now ?h1 = (ks1, h')" "ks = ?k0 # ks1"
          using "1.prems"(2) ne False
          by (cases "pop_expired now ?h1") (simp add: pop_expired.simps [of now h])
        note q = heap_Pop_inv [OF hi(1) ne]
        have l: "0 < length h" using ne by simp
        note rm = ttl_remove_item [OF hi(2) l q(2)]
        have "ttl_inv ?h1" using q(1) rm(1) by (simp add: ttl_inv_def)
        note IH = "1.IH" [OF ne False this p(1)]
        have a1: "ttl_abs ?h1 = (ttl_abs h)(?k0 := None)" by (rule rm(2))
        have k0: "?k0 \<notin> set ks1" using IH by (auto simp: a1)
        have "map (\<lambda>k. the (ttl_abs h k)) ks1 = map (\<lambda>k. the (ttl_abs ?h1 k)) ks1"
          using k0 by (auto simp: a1)
        then have s1: "sorted (map (\<lambda>k. the (ttl_abs h k)) ks1)"
          using IH by (simp only:)
        have "eiExpires (h ! 0) \<le> the (ttl_abs h k)" if "k \<in> set ks1" for k
          using that IH least by (auto simp: a1 split: if_splits)
        then have "sorted (map (\<lambda>k. the (ttl_abs h k)) ks)"
          using s1 first by (simp add: p(2))
        moreover have "set ks = {k. \<exists>t \<le> now. ttl_abs h k = Some t}"
          using IH first False by (auto simp: p(2) a1 split: if_splits)
        moreover have "ttl_abs h' = (\<lambda>k. case ttl_abs h k of Some t \<Rightarrow> if t \<le> now then None else Some t | None \<Rightarrow> None)"
          using IH first False by (auto simp: a1 fun_eq_iff)
        ultimately show ?thesis using IH k0 by (simp add: p(2))
      qed
    qed
  qed
  then show "ttl_inv h'"
    "ttl_abs h' = (\<lambda>k. case ttl_abs h k of Some t \<Rightarrow> if t \<le> now then None else Some t | None \<Rightarrow> None)"
    "set ks = {k. \<exists>t \<le> now. ttl_abs h k = Some t}" "distinct ks"
    "sorted (map (\<lambda>k. the (ttl_abs h k)) ks)" by blast+
qed

section \<open>Interface\<close>

text \<open>
  What a user of the manager relies on, whatever the data structure: it is a map from keys to
  instants from which the keys that are due can be taken.
\<close>

locale expiry_store =
  fixes inv :: "'s \<Rightarrow> bool"
    and look :: "'s \<Rightarrow> key \<rightharpoonup> instant"
    and put :: "key \<Rightarrow> instant \<Rightarrow> 's \<Rightarrow> 's"
    and del :: "key \<Rightarrow> 's \<Rightarrow> 's"
    and take_due :: "instant \<Rightarrow> 's \<Rightarrow> key list \<times> 's"
  assumes inv_put: "inv s \<Longrightarrow> inv (put k t s)"
    and inv_del: "inv s \<Longrightarrow> inv (del k s)"
    and inv_due: "inv s \<Longrightarrow> inv (snd (take_due now s))"
    and look_put: "inv s \<Longrightarrow> look (put k t s) = (look s)(k \<mapsto> t)"
    and look_del: "inv s \<Longrightarrow> look (del k s) = (look s)(k := None)"
    and due_keys: "inv s \<Longrightarrow> set (fst (take_due now s)) = {k. \<exists>t \<le> now. look s k = Some t}"
    and due_rest: "inv s \<Longrightarrow> look (snd (take_due now s)) k =
      (case look s k of Some t \<Rightarrow> if t \<le> now then None else Some t | None \<Rightarrow> None)"
begin

lemma put_expires: "inv s \<Longrightarrow> k \<in> set (fst (take_due now (put k t s))) \<longleftrightarrow> t \<le> now"
  by (simp add: due_keys inv_put look_put)

lemma del_never_expires: "inv s \<Longrightarrow> k \<notin> set (fst (take_due now (del k s)))"
  by (simp add: due_keys inv_del look_del)

lemma put_replaces: "inv s \<Longrightarrow> t2 > now \<Longrightarrow> k \<notin> set (fst (take_due now (put k t2 (put k t1 s))))"
  by (simp add: due_keys inv_put look_put)

lemma expires_once:
  assumes "inv s" "k \<in> set (fst (take_due now s))"
  shows "k \<notin> set (fst (take_due now' (snd (take_due now s))))"
  using assms by (auto simp: due_keys inv_due due_rest split: option.splits)

lemma take_due_monotone:
  assumes "inv s" "now \<le> now'"
  shows "set (fst (take_due now s)) \<subseteq> set (fst (take_due now' s))"
  using assms by (fastforce simp: due_keys)

end

interpretation ttl: expiry_store ttl_inv ttl_abs heap_put heap_del pop_expired
proof unfold_locales
  fix s :: ExpiryHeap and k now t
  assume s: "ttl_inv s"
  show "ttl_inv (heap_put k t s)" "ttl_abs (heap_put k t s) = (ttl_abs s)(k \<mapsto> t)"
    using heap_put_refines [OF s] by blast+
  show "ttl_inv (heap_del k s)" "ttl_abs (heap_del k s) = (ttl_abs s)(k := None)"
    using heap_del_refines [OF s] by blast+
  note d = pop_expired_refines [OF s surjective_pairing]
  show "ttl_inv (snd (pop_expired now s))" by (rule d(1))
  show "set (fst (pop_expired now s)) = {k. \<exists>t \<le> now. ttl_abs s k = Some t}" by (rule d(3))
  show "ttl_abs (snd (pop_expired now s)) k =
      (case ttl_abs s k of Some t \<Rightarrow> if t \<le> now then None else Some t | None \<Rightarrow> None)"
    by (subst d(2)) (rule refl)
qed

lemma ttl_inv_new [simp]: "ttl_inv (expiryHeap NewTTLManager)"
  by (simp add: NewTTLManager_def ttl_inv_def)

section \<open>\<open>TimeWheel\<close>\<close>

text \<open>
  A timer is a number; \<open>twTimers\<close> holds those that are running, with their key and the instant
  at which they fire. A bucket maps keys to timers.
\<close>

record TimeWheel =
  twInterval :: int
  twBuckets :: "(key \<times> nat) list list"
  twPos :: nat
  twTimers :: "(nat \<times> key \<times> instant) list"
  twNext :: nat

text \<open>\<open>time.NewTicker\<close> panics for an interval that is not positive.\<close>

definition NewTimeWheel :: "int \<Rightarrow> int \<Rightarrow> TimeWheel outcome" where
  "NewTimeWheel iv n =
     (if iv \<le> 0 then Panic
      else Ok \<lparr>twInterval = iv, twBuckets = replicate (if n \<le> 0 then 3600 else nat n) [],
               twPos = 0, twTimers = [], twNext = 0\<rparr>)"

definition stop_timers :: "nat list \<Rightarrow> TimeWheel \<Rightarrow> TimeWheel" where
  "stop_timers is tw = tw\<lparr>twTimers := filter (\<lambda>(i, _). i \<notin> set is) (twTimers tw)\<rparr>"

definition wheel_ticks :: "TimeWheel \<Rightarrow> int \<Rightarrow> nat" where
  "wheel_ticks tw ttl =
     (let n = (if ttl < 0 then - ((- ttl) div twInterval tw) else ttl div twInterval tw)
      in if n \<le> 0 then 1 else nat n)"

definition wheel_slot :: "TimeWheel \<Rightarrow> int \<Rightarrow> nat" where
  "wheel_slot tw ttl = (twPos tw + wheel_ticks tw ttl) mod length (twBuckets tw)"

definition tw_Add :: "instant \<Rightarrow> key \<Rightarrow> int \<Rightarrow> TimeWheel \<Rightarrow> TimeWheel" where
  "tw_Add now k ttl tw =
     (let p = wheel_slot tw ttl; b = twBuckets tw ! p;
          tw1 = (case map_of b k of Some i \<Rightarrow> stop_timers [i] tw | None \<Rightarrow> tw)
      in tw1\<lparr>twTimers := twTimers tw1 @ [(twNext tw1, k, now + ttl)],
             twBuckets := (twBuckets tw1)[p := AList.update k (twNext tw1) b],
             twNext := Suc (twNext tw1)\<rparr>)"

definition tw_Remove :: "key \<Rightarrow> TimeWheel \<Rightarrow> TimeWheel" where
  "tw_Remove k tw =
     (let is = concat (map (\<lambda>b. case map_of b k of Some i \<Rightarrow> [i] | None \<Rightarrow> []) (twBuckets tw))
      in (stop_timers is tw)\<lparr>twBuckets := map (AList.delete k) (twBuckets tw)\<rparr>)"

definition tw_advance :: "TimeWheel \<Rightarrow> TimeWheel" where
  "tw_advance tw =
     (let p = (twPos tw + 1) mod length (twBuckets tw)
      in (stop_timers (map snd (twBuckets tw ! p)) tw)
           \<lparr>twPos := p, twBuckets := (twBuckets tw)[p := []]\<rparr>)"

text \<open>The timers that are due fire: the keys to clean up, and the timers left.\<close>

definition tw_fire :: "instant \<Rightarrow> TimeWheel \<Rightarrow> key list \<times> TimeWheel" where
  "tw_fire now tw =
     (map (\<lambda>(_, k, _). k) (filter (\<lambda>(_, _, t). t \<le> now) (twTimers tw)),
      tw\<lparr>twTimers := filter (\<lambda>(_, _, t). \<not> t \<le> now) (twTimers tw)\<rparr>)"

definition tw_Stats :: "TimeWheel \<Rightarrow> nat list \<times> nat \<times> nat" where
  "tw_Stats tw =
     (let cs = map length (twBuckets tw) in (cs, sum_list cs, twPos tw))"

definition tw_inv :: "TimeWheel \<Rightarrow> bool" where
  "tw_inv tw \<longleftrightarrow> 0 < twInterval tw \<and> twPos tw < length (twBuckets tw) \<and>
     (\<forall>(i, _) \<in> set (twTimers tw). i < twNext tw)"

lemma tw_inv_new: "NewTimeWheel iv n = Ok tw \<Longrightarrow> tw_inv tw"
  by (auto simp: NewTimeWheel_def tw_inv_def split: if_splits)

lemma stop_timers_frame [simp]:
  "twBuckets (stop_timers is tw) = twBuckets tw" "twPos (stop_timers is tw) = twPos tw"
  "twInterval (stop_timers is tw) = twInterval tw" "twNext (stop_timers is tw) = twNext tw"
  by (simp_all add: stop_timers_def)

lemma tw_Add_frame:
  "twPos (tw_Add now k ttl tw) = twPos tw"
  "length (twBuckets (tw_Add now k ttl tw)) = length (twBuckets tw)"
  by (simp_all add: tw_Add_def Let_def split: option.splits)

lemma tw_Add_timer:
  assumes "tw_inv tw"
  shows "twNext tw \<in> snd ` set (twBuckets (tw_Add now k ttl tw) ! wheel_slot tw ttl)"
    "(i, k', t) \<in> set (twTimers (tw_Add now k ttl tw)) \<Longrightarrow> i = twNext tw \<longleftrightarrow> (i, k', t) = (twNext tw, k, now + ttl)"
    "tw_inv (tw_Add now k ttl tw)"
proof -
  have p: "wheel_slot tw ttl < length (twBuckets tw)"
    unfolding wheel_slot_def by (rule mod_less_divisor) (use assms in \<open>auto simp: tw_inv_def\<close>)
  have u: "(k, v) \<in> set (AList.update k v xs)" for v and xs :: "(key \<times> nat) list"
    by (induction xs) auto
  show "twNext tw \<in> snd ` set (twBuckets (tw_Add now k ttl tw) ! wheel_slot tw ttl)"
    using p u by (force simp: tw_Add_def Let_def split: option.splits)
  show "(i, k', t) \<in> set (twTimers (tw_Add now k ttl tw)) \<Longrightarrow> i = twNext tw \<longleftrightarrow> (i, k', t) = (twNext tw, k, now + ttl)"
    using assms by (auto simp: tw_Add_def Let_def tw_inv_def stop_timers_def split: option.splits)
  show "tw_inv (tw_Add now k ttl tw)"
    using assms by (auto simp: tw_Add_def Let_def tw_inv_def stop_timers_def less_SucI split: option.splits)
qed

end
