(* ===== verification/Engine.thy ===== *)
theory Engine
  imports ShardedMap Cache Wal TTL
begin

text \<open>
  \<open>db.go\<close> and the codec half of \<open>entry.go\<close>: the state of an open database and its single-key
  operations. A call returns an outcome and the state it leaves. Goroutines a call starts are
  entered in \<open>pending\<close>; \<open>run_task\<close> is what one does when it runs. Every reading of the clock and
  every write to a file is a step of the world inside the state.
\<close>

section \<open>State\<close>

record Metrics =
  TotalWrites :: "64 word"
  TotalReads :: "64 word"
  TotalDeletes :: "64 word"
  KeyCount :: "64 word"
  DataSize :: "64 word"
  CompressionRatio :: "64 word"
  CacheHits :: "64 word"
  CacheMisses :: "64 word"
  ExpiredKeyCount :: "64 word"
  CompactionCount :: "64 word"
  StartTime :: instant

datatype Task = ExpireTask key | CompactTask

text \<open>
  \<open>activeFile\<close> is \<open>None\<close> for a nil or closed handle, else the name of the file behind it;
  \<open>smart\<close>, \<open>wal\<close> and \<open>ttlManager\<close> are \<open>None\<close> where the code has a nil pointer.
\<close>

record GojiDB =
  config :: GojiDBConfig
  keyDir :: ConcurrentMap
  activeFile :: "bytes option"
  readFiles :: "(32 word \<times> bytes) list"
  activeFileID :: "32 word"
  metrics :: Metrics
  ttlManager :: "TTLManager option"
  blockCache :: BlockCache
  keyCache :: KeyCache
  smart :: "SmartCompressor option"
  wal :: "WALManager option"
  dbClosed :: bool
  pending :: "Task list"
  world :: World

type_synonym 'a result = "'a outcome \<times> GojiDB"

text \<open>Sequencing: anything but success ends the call with the state reached.\<close>

fun db_then :: "'a result \<Rightarrow> ('a \<Rightarrow> GojiDB \<Rightarrow> 'b result) \<Rightarrow> 'b result" where
  "db_then (Ok x, db) f = f x db"
| "db_then (Err e, db) f = (Err e, db)"
| "db_then (Panic, db) f = (Panic, db)"
| "db_then (Blocked, db) f = (Blocked, db)"

definition db_wrap :: "string \<Rightarrow> 'a result \<Rightarrow> 'a result" where
  "db_wrap m x = (map_err (Wrapped m) (fst x), snd x)"

definition db_now :: "Platform \<Rightarrow> GojiDB \<Rightarrow> instant \<times> GojiDB" where
  "db_now P db = (let (t, w) = read_clock P (world db) in (t, db\<lparr>world := w\<rparr>))"

definition bump :: "(Metrics \<Rightarrow> Metrics) \<Rightarrow> GojiDB \<Rightarrow> GojiDB" where
  "bump f db = (if EnableMetrics (config db) then db\<lparr>metrics := f (metrics db)\<rparr> else db)"

section \<open>Compression\<close>

definition performStandardCompress ::
  "Platform \<Rightarrow> CompressionType \<Rightarrow> bytes \<Rightarrow> bytes \<times> CompressionType" where
  "performStandardCompress P ct data =
     (if ct = SnappyCompression then (snappyEncode P data, SnappyCompression)
      else if ct = ZSTDCompression then (zstdEncode P data, ZSTDCompression)
      else if ct = GzipCompression then (gzipEncode P data, GzipCompression)
      else (data, NoCompression))"

definition updateCompressionMetrics :: "nat \<Rightarrow> nat \<Rightarrow> GojiDB \<Rightarrow> GojiDB" where
  "updateCompressionMetrics orig packed db =
     (if orig = 0 \<or> packed = 0 then db
      else bump (\<lambda>m. m\<lparr>CompressionRatio :=
             word_of_int (go_trunc (real_of_int (int orig - int packed) / real orig * 10000))\<rparr>) db)"

definition standardCompress :: "Platform \<Rightarrow> bytes \<Rightarrow> GojiDB \<Rightarrow> (bytes \<times> CompressionType) result" where
  "standardCompress P data db =
     (let (out, a) = performStandardCompress P (cfgCompressionType (config db)) data
      in (Ok (out, a), updateCompressionMetrics (length data) (length out) db))"

text \<open>An error or an empty result of the smart compressor falls back to the standard one.\<close>

definition db_compress :: "Platform \<Rightarrow> bytes \<Rightarrow> GojiDB \<Rightarrow> (bytes \<times> CompressionType) result" where
  "db_compress P data db =
     (if data = [] \<or> cfgCompressionType (config db) = NoCompression
      then (Ok (data, NoCompression), db)
      else case smart db of
             None \<Rightarrow> standardCompress P data db
           | Some sc \<Rightarrow>
               let (r, sc1, w1) = CompressWithSmartChoice P data sc (world db);
                   db1 = db\<lparr>smart := Some sc1, world := w1\<rparr>
               in case r of
                    Ok (out, a) \<Rightarrow>
                      if out = [] then standardCompress P data db1 else (Ok (out, a), db1)
                  | Err _ \<Rightarrow> standardCompress P data db1
                  | Panic \<Rightarrow> (Panic, db1)
                  | Blocked \<Rightarrow> (Blocked, db1))"

text \<open>With a smart compressor the recorded algorithm is ignored.\<close>

definition db_decompress :: "Platform \<Rightarrow> GojiDB \<Rightarrow> bytes \<Rightarrow> CompressionType \<Rightarrow> bytes outcome" where
  "db_decompress P db data ct =
     (if smart db \<noteq> None then smart_Decompress P data else decompressChunk P data ct)"

section \<open>Files\<close>

definition data_name :: "32 word \<Rightarrow> bytes" where
  "data_name fid = show_nat (unat fid) @ DataSuffix"

definition db_file :: "bytes \<Rightarrow> GojiDB \<Rightarrow> bytes" where
  "db_file f db = contents f (wFiles (world db))"

definition active_size :: "GojiDB \<Rightarrow> nat outcome" where
  "active_size db = file_size (activeFile db) (world db)"

definition db_append :: "Platform \<Rightarrow> bytes \<Rightarrow> GojiDB \<Rightarrow> unit result" where
  "db_append P data db =
     (let (r, w) = append_file P (activeFile db) data (world db) in (r, db\<lparr>world := w\<rparr>))"

definition openActiveFile :: "GojiDB \<Rightarrow> GojiDB" where
  "openActiveFile db =
     (let f = data_name (activeFileID db)
      in db\<lparr>activeFile := Some f,
            world := (world db)\<lparr>wFiles := create_missing f (wFiles (world db))\<rparr>\<rparr>)"

definition rotateActiveFile :: "GojiDB \<Rightarrow> GojiDB" where
  "rotateActiveFile db =
     (let f = data_name (activeFileID db);
          db1 = (if activeFile db \<noteq> None \<and> map_of (wFiles (world db)) f \<noteq> None
                 then db\<lparr>readFiles := AList.update (activeFileID db) f (readFiles db)\<rparr> else db)
      in openActiveFile (db1\<lparr>activeFileID := activeFileID db + 1\<rparr>))"

text \<open>Rotation before \<open>n\<close> more bytes; skipped when there is no active file.\<close>

definition rotate_for :: "nat \<Rightarrow> GojiDB \<Rightarrow> GojiDB" where
  "rotate_for n db =
     (case active_size db of
        Ok sz \<Rightarrow> if int sz + int n > MaxFileSize (config db) then rotateActiveFile db else db
      | _ \<Rightarrow> db)"

section \<open>Writing\<close>

definition mk_entry ::
  "32 word \<Rightarrow> 32 word \<Rightarrow> CompressionType \<Rightarrow> key \<Rightarrow> bytes \<Rightarrow> Entry" where
  "mk_entry ts ttl ct k v =
     (let e = \<lparr>eCRC = 0, eTimestamp = ts, eTTL = ttl, eKeySize = of_nat (length k),
               eValueSize = of_nat (length v), eCompression = ct, eKey = k, eValue = v\<rparr>
      in e\<lparr>eCRC := calculateCRC e\<rparr>)"

text \<open>The position of the value of an entry written at \<open>pos\<close>.\<close>

definition value_pos :: "int \<Rightarrow> Entry \<Rightarrow> 64 word" where
  "value_pos pos e = word_of_int (pos + int HeaderSize + int (unat (eKeySize e)))"

definition db_wal :: "Platform \<Rightarrow> WALOpType \<Rightarrow> key \<Rightarrow> bytes \<Rightarrow> GojiDB \<Rightarrow> unit result" where
  "db_wal P ty k v db =
     (case wal db of
        None \<Rightarrow> (Ok (), db)
      | Some m \<Rightarrow>
          let (r, m1, w1) = wal_log P ty k v [] m (world db)
          in (map_err (Wrapped ''write WAL'') r, db\<lparr>wal := Some m1, world := w1\<rparr>))"

definition cache_put :: "Platform \<Rightarrow> key \<Rightarrow> KeyDir \<Rightarrow> GojiDB \<Rightarrow> GojiDB" where
  "cache_put P k kd db =
     (let (t, db1) = db_now P db in db1\<lparr>keyCache := SetKeyDir t k kd (keyCache db1)\<rparr>)"

definition invalidate_blocks :: "GojiDB \<Rightarrow> GojiDB" where
  "invalidate_blocks db = db\<lparr>blockCache := InvalidateFile (activeFileID db) (blockCache db)\<rparr>"

text \<open>The expiry stamp: none for 0, now for a negative duration, else now plus the duration.\<close>

definition ttl_stamp :: "Platform \<Rightarrow> int \<Rightarrow> GojiDB \<Rightarrow> 32 word \<times> GojiDB" where
  "ttl_stamp P ttl db =
     (if ttl = 0 then (0, db)
      else let (t, db1) = db_now P db in (unix32 (if ttl > 0 then t + ttl else t), db1))"

definition spawn_compaction :: "GojiDB \<Rightarrow> GojiDB" where
  "spawn_compaction db =
     (if EnableMetrics (config db) \<and> sint (TotalWrites (metrics db)) mod 1000 = 0
      then db\<lparr>pending := pending db @ [CompactTask]\<rparr> else db)"

text \<open>
  From the lock on: rotate, append, log, index, caches. An error of the log leaves the record in
  the data file and out of the index.
\<close>

definition store_entry :: "Platform \<Rightarrow> key \<Rightarrow> bytes \<Rightarrow> Entry \<Rightarrow> GojiDB \<Rightarrow> unit result" where
  "store_entry P k raw e db0 =
     (let data = serializeEntry e; db = rotate_for (length data) db0
      in case active_size db of
           Err x \<Rightarrow> (Err x, db)
         | Panic \<Rightarrow> (Panic, db)
         | Blocked \<Rightarrow> (Blocked, db)
         | Ok pos \<Rightarrow>
             db_then (db_append P data db) (\<lambda>_ db1.
             db_then (db_wal P WALPut k raw db1) (\<lambda>_ db2.
               let kd = \<lparr>FileID = activeFileID db2, ValueSize = eValueSize e,
                         ValuePos = value_pos (int pos) e, Timestamp = eTimestamp e, TTL = eTTL e,
                         Compression = eCompression e, Deleted = False\<rparr>;
                   db3 = db2\<lparr>keyDir := cm_Set k kd (keyDir db2)\<rparr>
               in (Ok (), spawn_compaction (invalidate_blocks (cache_put P k (kd\<lparr>TTL := 0\<rparr>) db3))))))"

definition PutWithTTL :: "Platform \<Rightarrow> key \<Rightarrow> bytes \<Rightarrow> int \<Rightarrow> GojiDB \<Rightarrow> unit result" where
  "PutWithTTL P k v ttl db =
     (if k = [] then (Err EmptyKey, db)
      else db_then (db_wrap ''compress'' (db_compress P v
                     (bump (\<lambda>m. m\<lparr>TotalWrites := TotalWrites m + 1\<rparr>) db))) (\<lambda>(z, a) db1.
        let (t, db2) = db_now P db1; (x, db3) = ttl_stamp P ttl db2
        in store_entry P k v (mk_entry (unix32 t) x a k z) db3))"

definition Put :: "Platform \<Rightarrow> key \<Rightarrow> bytes \<Rightarrow> GojiDB \<Rightarrow> unit result" where
  "Put P k v db = PutWithTTL P k v 0 db"

text \<open>
  A deletion writes a tombstone; whatever \<open>compress\<close> did, its header names the configured
  algorithm. An error of \<open>compress\<close> is ignored and leaves an empty value.
\<close>

definition tombstone :: "Platform \<Rightarrow> key \<Rightarrow> GojiDB \<Rightarrow> Entry result" where
  "tombstone P k db =
     (let (r, db1) = db_compress P TombstoneValue db
      in case r of
           Panic \<Rightarrow> (Panic, db1)
         | Blocked \<Rightarrow> (Blocked, db1)
         | _ \<Rightarrow>
           (let val = (case r of Ok (z, _) \<Rightarrow> z | _ \<Rightarrow> []);
                (t, db2) = db_now P db1
            in (Ok (mk_entry (unix32 t) 0 (cfgCompressionType (config db2)) k val), db2)))"

definition mark_deleted :: "key \<Rightarrow> Entry \<Rightarrow> GojiDB \<Rightarrow> GojiDB" where
  "mark_deleted k e db =
     (case cm_Get (keyDir db) k of
        Some kd \<Rightarrow>
          db\<lparr>keyDir := cm_Set k (kd\<lparr>Deleted := True, Timestamp := eTimestamp e\<rparr>) (keyDir db)\<rparr>
      | None \<Rightarrow> db)"

definition Delete :: "Platform \<Rightarrow> key \<Rightarrow> GojiDB \<Rightarrow> unit result" where
  "Delete P k db =
     (if k = [] then (Err EmptyKey, db)
      else if cm_Get (keyDir db) k = None then (Err KeyNotFound, db)
      else db_then (tombstone P k db) (\<lambda>e db1.
           db_then (db_append P (serializeEntry e) db1) (\<lambda>_ db2.
           db_then (db_wal P WALDelete k [] db2) (\<lambda>_ db3.
             let db4 = mark_deleted k e db3;
                 db5 = db4\<lparr>ttlManager := map_option (tm_Remove k) (ttlManager db4)\<rparr>;
                 db6 = db5\<lparr>keyCache := RemoveKey k (keyCache db5)\<rparr>
             in (Ok (), bump (\<lambda>m. m\<lparr>TotalDeletes := TotalDeletes m + 1\<rparr>) (invalidate_blocks db6))))))"

text \<open>The internal deletion: no log record, no cache update.\<close>

definition deleteInternal :: "Platform \<Rightarrow> key \<Rightarrow> GojiDB \<Rightarrow> unit result" where
  "deleteInternal P k db =
     (case cm_Get (keyDir db) k of
        None \<Rightarrow> (Err KeyNotFound, db)
      | Some kd \<Rightarrow>
          if Deleted kd then (Err KeyNotFound, db)
          else db_then (tombstone P k db) (\<lambda>e db1.
               db_then (db_append P (serializeEntry e) db1) (\<lambda>_ db2. (Ok (), mark_deleted k e db2))))"

section \<open>Reading\<close>

text \<open>
  The bytes behind an index entry: the active handle, or the file opened by name. (In \<open>Compact\<close>
  the same files are read by \<open>readKeyData\<close>.)
\<close>

definition entry_file :: "GojiDB \<Rightarrow> 32 word \<Rightarrow> bytes outcome" where
  "entry_file db fid =
     (if fid = activeFileID db
      then case activeFile db of None \<Rightarrow> Err InvalidHandle | Some f \<Rightarrow> Ok (db_file f db)
      else of_option NoSuchFile (map_of (wFiles (world db)) (data_name fid)))"

definition check_ttl :: "Platform \<Rightarrow> KeyDir \<Rightarrow> GojiDB \<Rightarrow> bool \<times> GojiDB" where
  "check_ttl P kd db =
     (if TTL kd = 0 then (False, db)
      else let (t, db1) = db_now P db; late = (unix32 t \<ge> TTL kd)
           in (late, if late then bump (\<lambda>m. m\<lparr>ExpiredKeyCount := ExpiredKeyCount m + 1\<rparr>) db1 else db1))"

definition get_block :: "Platform \<Rightarrow> 32 word \<Rightarrow> 64 word \<Rightarrow> 32 word \<Rightarrow> GojiDB \<Rightarrow> bytes option \<times> GojiDB" where
  "get_block P fid off sz db =
     (let (t, db1) = db_now P db; (r, bc) = GetBlock (sha256 P) t fid off sz (blockCache db1)
      in (r, db1\<lparr>blockCache := bc\<rparr>))"

text \<open>The cached block is looked up at the position of the value itself.\<close>

definition tryCacheRead :: "Platform \<Rightarrow> KeyDir \<Rightarrow> GojiDB \<Rightarrow> bytes option result" where
  "tryCacheRead P kd db =
     (let (c, db1) = get_block P (FileID kd) (ValuePos kd) (ValueSize kd) db
      in case c of
           None \<Rightarrow> (Ok None, db1)
         | Some data \<Rightarrow>
             (case db_decompress P db1 data (Compression kd) of
                Ok v \<Rightarrow> (Ok (Some v), bump (\<lambda>m. m\<lparr>CacheHits := CacheHits m + 1\<rparr>) db1)
              | Err _ \<Rightarrow> (Ok None, db1)
              | Panic \<Rightarrow> (Panic, db1)
              | Blocked \<Rightarrow> (Blocked, db1)))"

definition block_start :: "GojiDB \<Rightarrow> KeyDir \<Rightarrow> 64 word" where
  "block_start db kd =
     (let b = word_of_int (blockSize (blockCache db)) in (ValuePos kd div b) * b)"

definition extractDataFromBlock :: "bytes \<Rightarrow> KeyDir \<Rightarrow> 64 word \<Rightarrow> bytes option" where
  "extractDataFromBlock block kd start =
     (let off = ValuePos kd - start
      in if off + ucast (ValueSize kd) \<le> of_nat (length block)
         then Some (byte_slice (unat off) (unat (ValueSize kd)) block) else None)"

text \<open>A block that is not complete in the file is filled up with zeros.\<close>

definition updateBlockCache :: "Platform \<Rightarrow> KeyDir \<Rightarrow> 64 word \<Rightarrow> GojiDB \<Rightarrow> GojiDB" where
  "updateBlockCache P kd start db =
     (let n = nat (blockSize (blockCache db));
          block = zero_fill n (case entry_file db (FileID kd) of
                                 Ok c \<Rightarrow> read_at_partial c (sint start) n | _ \<Rightarrow> []);
          (t, db1) = db_now P db
      in db1\<lparr>blockCache := SetBlock (sha256 P) t (FileID kd) start block (blockCache db1)\<rparr>)"

definition readFromFileAndCache :: "Platform \<Rightarrow> KeyDir \<Rightarrow> 64 word \<Rightarrow> GojiDB \<Rightarrow> bytes result" where
  "readFromFileAndCache P kd start db =
     (case bind_outcome (entry_file db (FileID kd))
             (\<lambda>c. read_at c (sint (ValuePos kd)) (unat (ValueSize kd))) of
        Ok data \<Rightarrow> (Ok data, updateBlockCache P kd start db)
      | r \<Rightarrow> (r, db))"

definition readData :: "Platform \<Rightarrow> KeyDir \<Rightarrow> GojiDB \<Rightarrow> bytes result" where
  "readData P kd db =
     (let start = block_start db kd;
          (c, db1) = get_block P (FileID kd) start (word_of_int (blockSize (blockCache db))) db
      in case Option.bind c (\<lambda>block. extractDataFromBlock block kd start) of
           Some data \<Rightarrow> (Ok data, db1)
         | None \<Rightarrow> readFromFileAndCache P kd start db1)"

definition spawn :: "Task \<Rightarrow> GojiDB \<Rightarrow> GojiDB" where
  "spawn t db = db\<lparr>pending := pending db @ [t]\<rparr>"

definition miss :: "GojiDB \<Rightarrow> GojiDB" where
  "miss db = bump (\<lambda>m. m\<lparr>CacheMisses := CacheMisses m + 1\<rparr>) db"

text \<open>The part of \<open>Get\<close> under the read lock.\<close>

definition get_indexed :: "Platform \<Rightarrow> key \<Rightarrow> GojiDB \<Rightarrow> bytes result" where
  "get_indexed P k db =
     (case cm_Get (keyDir db) k of
        None \<Rightarrow> (Err KeyNotFound, miss db)
      | Some kd \<Rightarrow>
          if Deleted kd then (Err KeyNotFound, miss db)
          else let db1 = cache_put P k kd db; (late, db2) = check_ttl P kd db1
               in if late then (Err KeyExpired, spawn (ExpireTask k) db2)
                  else db_then (readData P kd db2) (\<lambda>data db3.
                    case db_decompress P db3 data (Compression kd) of
                      Ok v \<Rightarrow> (Ok v, bump (\<lambda>m. m\<lparr>CacheHits := CacheHits m + 1\<rparr>) db3)
                    | Err e \<Rightarrow> (Err e, miss db3)
                    | r \<Rightarrow> (r, db3)))"

definition get_cached_keydir :: "Platform \<Rightarrow> key \<Rightarrow> GojiDB \<Rightarrow> KeyDir option \<times> GojiDB" where
  "get_cached_keydir P k db =
     (let (t, db1) = db_now P db; (r, kc) = GetKeyDir t k (keyCache db1)
      in (r, db1\<lparr>keyCache := kc\<rparr>))"

definition Get :: "Platform \<Rightarrow> key \<Rightarrow> GojiDB \<Rightarrow> bytes result" where
  "Get P k db0 =
     (if k = [] then (Err EmptyKey, db0)
      else let (c, db1) = get_cached_keydir P k (bump (\<lambda>m. m\<lparr>TotalReads := TotalReads m + 1\<rparr>) db0)
      in case c of
           None \<Rightarrow> get_indexed P k db1
         | Some kd \<Rightarrow>
             let (late, db2) = check_ttl P kd db1
             in if late then (Err KeyExpired, spawn (ExpireTask k) db2)
                else db_then (tryCacheRead P kd db2) (\<lambda>r db3.
                  case r of Some v \<Rightarrow> (Ok v, db3) | None \<Rightarrow> get_indexed P k db3))"

section \<open>Keys and their expiry\<close>

text \<open>The index visited by \<open>Range\<close>, keeping the keys of the entries that satisfy \<open>f\<close>.\<close>

definition range_keys :: "(KeyDir \<Rightarrow> bool) \<Rightarrow> GojiDB \<Rightarrow> (key \<times> KeyDir) list" where
  "range_keys f db =
     cm_Range (\<lambda>k kd acc. (True, if f kd then acc @ [(k, kd)] else acc)) (keyDir db) []"

definition unexpired :: "32 word \<Rightarrow> KeyDir \<Rightarrow> bool" where
  "unexpired now kd \<longleftrightarrow> \<not> Deleted kd \<and> (TTL kd = 0 \<or> now \<le> TTL kd)"

definition ListKeys :: "Platform \<Rightarrow> GojiDB \<Rightarrow> key list \<times> GojiDB" where
  "ListKeys P db =
     (let (t, db1) = db_now P db in (sort (map fst (range_keys (unexpired (unix32 t)) db1)), db1))"

definition SetTTL :: "Platform \<Rightarrow> key \<Rightarrow> int \<Rightarrow> GojiDB \<Rightarrow> unit result" where
  "SetTTL P k ttl db =
     (case cm_Get (keyDir db) k of
        None \<Rightarrow> (Err KeyNotFound, db)
      | Some kd \<Rightarrow>
          if Deleted kd then (Err KeyNotFound, db)
          else let (x, db1) = (if ttl > 0 then let (t, db1) = db_now P db in (unix32 (t + ttl), db1)
                               else (0, db))
               in (Ok (), db1\<lparr>keyDir := cm_Set k (kd\<lparr>TTL := x\<rparr>) (keyDir db1)\<rparr>))"

text \<open>The remaining time in nanoseconds, \<open>-1\<close> for a key that does not expire.\<close>

definition GetTTL :: "Platform \<Rightarrow> key \<Rightarrow> GojiDB \<Rightarrow> int result" where
  "GetTTL P k db =
     (case cm_Get (keyDir db) k of
        None \<Rightarrow> (Err KeyNotFound, db)
      | Some kd \<Rightarrow>
          if Deleted kd then (Err KeyNotFound, db)
          else if TTL kd = 0 then (Ok (- 1), db)
          else let (t, db1) = db_now P db
               in if unix32 t \<ge> TTL kd then (Err KeyExpired, db1)
                  else (Ok ((int (unat (TTL kd)) - int (unat (unix32 t))) * 1000000000), db1))"

text \<open>The goroutine that \<open>Get\<close> starts for an expired key; the error of the deletion is dropped.\<close>

definition expireKey :: "Platform \<Rightarrow> key \<Rightarrow> GojiDB \<Rightarrow> unit result" where
  "expireKey P k db =
     (case cm_Get (keyDir db) k of
        Some kd \<Rightarrow>
          if Deleted kd then (Ok (), db)
          else (case deleteInternal P k db of (Err _, db1) \<Rightarrow> (Ok (), db1) | x \<Rightarrow> x)
      | None \<Rightarrow> (Ok (), db))"

fun delete_expired :: "Platform \<Rightarrow> key list \<Rightarrow> GojiDB \<Rightarrow> unit result" where
  "delete_expired P [] db = (Ok (), db)"
| "delete_expired P (k # ks) db =
     db_then (case deleteInternal P k db of (Err _, db1) \<Rightarrow> (Ok (), db1) | x \<Rightarrow> x) (\<lambda>_ db1.
       delete_expired P ks (bump (\<lambda>m. m\<lparr>ExpiredKeyCount := ExpiredKeyCount m + 1\<rparr>) db1))"

definition cleanupExpiredKeys :: "Platform \<Rightarrow> GojiDB \<Rightarrow> unit result" where
  "cleanupExpiredKeys P db =
     (let (t, db1) = db_now P db
      in delete_expired P
           (map fst (range_keys (\<lambda>kd. \<not> Deleted kd \<and> TTL kd > 0 \<and> unix32 t \<ge> TTL kd) db1)) db1)"

section \<open>Metrics and shutdown\<close>

definition GetMetrics :: "GojiDB \<Rightarrow> Metrics option" where
  "GetMetrics db =
     (if \<not> EnableMetrics (config db) then None
      else Some ((metrics db)\<lparr>KeyCount := of_nat (cm_Size (keyDir db)),
             DataSize := of_nat (sum_list (map (\<lambda>f. length (db_file f db))
                           (glob_data (wFiles (world db)))))\<rparr>))"

text \<open>\<open>taken\<close> is the race of \<open>SmartCompressor.Close\<close>. A second call returns at once.\<close>

definition db_Close :: "Platform \<Rightarrow> int \<Rightarrow> GojiDB \<Rightarrow> unit result" where
  "db_Close P taken db =
     (if dbClosed db then (Ok (), db)
      else let db0 = db\<lparr>dbClosed := True\<rparr>
      in db_then (case ttlManager db0 of
                    None \<Rightarrow> (Ok (), db0)
                  | Some m \<Rightarrow> (case tm_Stop m of
                                 Ok m1 \<Rightarrow> (Ok (), db0\<lparr>ttlManager := Some m1\<rparr>)
                               | _ \<Rightarrow> (Panic, db0))) (\<lambda>_ db1.
         db_then (case smart db1 of
                    None \<Rightarrow> (Ok (), db1)
                  | Some sc \<Rightarrow> let (r, sc1) = smart_Close P taken sc in (r, db1\<lparr>smart := Some sc1\<rparr>)) (\<lambda>_ db2.
           let db3 = (case wal db2 of
                        None \<Rightarrow> db2
                      | Some m \<Rightarrow> let (m1, w1) = wal_Close P m (world db2)
                                 in db2\<lparr>wal := Some m1, world := w1\<rparr>)
           in (Ok (), db3\<lparr>activeFile := None\<rparr>))))"

end
