(* ===== verification/EngineSpec.thy ===== *)
theory EngineSpec
  imports Engine
begin

text \<open>
  What the engine's operations mean: the map from keys to values and expiry stamps that a state
  holds (\<open>db_view\<close>), the invariant under which the caches agree with the files (\<open>db_sound\<close>), and
  what reads leave alone.
\<close>

section \<open>What the operations leave alone\<close>

text \<open>The parts of the state that index and values depend on.\<close>

definition db_core where
  "db_core db = (keyDir db, activeFile db, activeFileID db, blockCache db, keyCache db,
     wFiles (world db), smart db = None)"

lemma read_clock_frame [simp, frame_simps]:
  "wFiles (snd (read_clock P w)) = wFiles w" "wSnaps (snd (read_clock P w)) = wSnaps w"
  "wWrites (snd (read_clock P w)) = wWrites w" "wTicks (snd (read_clock P w)) = Suc (wTicks w)"
  "fst (read_clock P w) = clock P (wTicks w)"
  by (simp_all add: read_clock_def)

lemma db_now_eq: "db_now P db = (clock P (wTicks (world db)), db\<lparr>world := (world db)\<lparr>wTicks := Suc (wTicks (world db))\<rparr>\<rparr>)"
  by (simp add: db_now_def read_clock_def)

lemma db_core_frame [simp, frame_simps]:
  "db_core (bump f db) = db_core db" "db_core (spawn t db) = db_core db" "db_core (miss db) = db_core db"
  "db_core (snd (db_now P db)) = db_core db"
  by (simp_all add: db_core_def bump_def spawn_def miss_def db_now_eq)

lemma bump_frame [simp, frame_simps]:
  "config (bump f db) = config db" "wal (bump f db) = wal db" "world (bump f db) = world db"
  "keyDir (bump f db) = keyDir db" "smart (bump f db) = smart db" "activeFile (bump f db) = activeFile db"
  "activeFileID (bump f db) = activeFileID db" "blockCache (bump f db) = blockCache db"
  "keyCache (bump f db) = keyCache db" "ttlManager (bump f db) = ttlManager db"
  by (simp_all add: bump_def)

lemma db_then_cases:
  assumes "db_then x f = (r, db')"
  obtains (ok) y db1 where "x = (Ok y, db1)" "f y db1 = (r, db')"
    | (stop) "snd x = db'" "\<And>y. fst x \<noteq> Ok y"
  using assms by (cases x; cases "fst x") auto

section \<open>The world under compression\<close>

lemma cc_set_world: "cc_set P k d a cc w = (cc', w') \<Longrightarrow> wFiles w' = wFiles w \<and> wSnaps w' = wSnaps w \<and> wWrites w' = wWrites w \<and> wTicks w \<le> wTicks w'"
  by (auto simp: cc_set_def read_clock_def Let_def)

lemma sc_cache_set_world:
  "sc_cache_set P k d a sc w = (sc', w') \<Longrightarrow> wFiles w' = wFiles w \<and> wSnaps w' = wSnaps w \<and> wWrites w' = wWrites w \<and> wTicks w \<le> wTicks w'"
  by (auto simp: sc_cache_set_def split: if_splits prod.splits dest: cc_set_world)

lemma addToDictionaryTraining_world:
  "addToDictionaryTraining P a d sc w = (r, sc', w') \<Longrightarrow>
   wFiles w' = wFiles w \<and> wSnaps w' = wSnaps w \<and> wWrites w' = wWrites w \<and> wTicks w \<le> wTicks w'"
  by (auto simp: addToDictionaryTraining_def trainDictionary_def read_clock_def Let_def
      split: if_splits option.splits)

lemma compress_single_world:
  "compress_single P d sc w = (r, sc', w') \<Longrightarrow>
   wFiles w' = wFiles w \<and> wSnaps w' = wSnaps w \<and> wWrites w' = wWrites w \<and> wTicks w \<le> wTicks w'"
  by (auto simp: compress_single_def Let_def split: outcome.splits prod.splits if_splits
      dest!: sc_cache_set_world addToDictionaryTraining_world)

lemma compress_uncached_world:
  "compress_uncached P d sc w = (r, sc', w') \<Longrightarrow>
   wFiles w' = wFiles w \<and> wSnaps w' = wSnaps w \<and> wWrites w' = wWrites w \<and> wTicks w \<le> wTicks w'"
  by (auto simp: compress_uncached_def Let_def split: outcome.splits prod.splits if_splits bool.splits
      dest!: sc_cache_set_world compress_single_world)

lemma smart_choice_world:
  "CompressWithSmartChoice P d sc w = (r, sc', w') \<Longrightarrow>
   wFiles w' = wFiles w \<and> wSnaps w' = wSnaps w \<and> wWrites w' = wWrites w \<and> wTicks w \<le> wTicks w'"
  by (auto simp: CompressWithSmartChoice_def split: if_splits option.splits
      dest!: compress_uncached_world)


lemma updateCompressionMetrics_frame [simp]:
  "db_core (updateCompressionMetrics m n db) = db_core db" "config (updateCompressionMetrics m n db) = config db"
  "wal (updateCompressionMetrics m n db) = wal db" "world (updateCompressionMetrics m n db) = world db"
  "smart (updateCompressionMetrics m n db) = smart db"
  by (simp_all add: updateCompressionMetrics_def)

definition same_store :: "GojiDB \<Rightarrow> GojiDB \<Rightarrow> bool" where
  "same_store db db' \<longleftrightarrow> db_core db' = db_core db \<and> config db' = config db \<and> wal db' = wal db \<and>
     wSnaps (world db') = wSnaps (world db) \<and> wTicks (world db) \<le> wTicks (world db')"

lemma same_store_refl [simp]: "same_store db db"
  by (simp add: same_store_def)

lemma same_store_trans [trans]: "same_store a b \<Longrightarrow> same_store b c \<Longrightarrow> same_store a c"
  by (simp add: same_store_def)

lemma same_store_bump [simp]: "same_store db (bump f db)"
  by (simp add: same_store_def)

lemma same_store_now [simp]: "same_store db (snd (db_now P db))"
  by (simp add: same_store_def db_now_eq db_core_def)

lemma db_compress_frame:
  assumes "db_compress P v db = (r, db')"
  shows "same_store db db'"
proof -
  consider "data = data" "v = [] \<or> cfgCompressionType (config db) = 0"
    | (std) "\<not> (v = [] \<or> cfgCompressionType (config db) = 0)" "smart db = None"
    | (sm) sc where "\<not> (v = [] \<or> cfgCompressionType (config db) = 0)" "smart db = Some sc" by blast
  then show ?thesis
  proof cases
    case 1
    then show ?thesis using assms by (simp add: db_compress_def)
  next
    case std
    then show ?thesis using assms
      by (auto simp: db_compress_def standardCompress_def same_store_def split: prod.splits)
  next
    case sm
    obtain r1 sc1 w1 where c: "CompressWithSmartChoice P v sc (world db) = (r1, sc1, w1)"
      by (rule prod_cases3)
    have "same_store db (db\<lparr>smart := Some sc1, world := w1\<rparr>)"
      using smart_choice_world [OF c] sm(2) by (simp add: same_store_def db_core_def)
    then show ?thesis
      using assms sm c
      by (auto simp: db_compress_def standardCompress_def Let_def same_store_def
          split: prod.splits outcome.splits if_splits)
  qed
qed

section \<open>The records the engine writes\<close>

lemma mk_entry_fields [simp]:
  "eTimestamp (mk_entry ts ttl ct k v) = ts" "eTTL (mk_entry ts ttl ct k v) = ttl"
  "eKeySize (mk_entry ts ttl ct k v) = of_nat (length k)"
  "eValueSize (mk_entry ts ttl ct k v) = of_nat (length v)"
  "eCompression (mk_entry ts ttl ct k v) = ct" "eKey (mk_entry ts ttl ct k v) = k"
  "eValue (mk_entry ts ttl ct k v) = v"
  by (simp_all add: mk_entry_def Let_def)

lemma mk_entry_verifies [simp]: "verifyCRC (mk_entry ts ttl ct k v)"
  by (simp add: mk_entry_def Let_def verifyCRC_def calculateCRC_def crc_input_def)

lemma mk_entry_sized: "length k < 2 ^ 16 \<Longrightarrow> length v < 2 ^ 32 \<Longrightarrow> entry_sized (mk_entry ts ttl ct k v)"
  by (simp add: entry_sized_def unat_of_nat_small)

section \<open>Soundness of a state\<close>

definition file_of :: "GojiDB \<Rightarrow> 32 word \<Rightarrow> bytes option" where
  "file_of db fid = map_of (wFiles (world db)) (data_name fid)"

text \<open>The active handle is open on the file of the active id.\<close>

definition db_open :: "GojiDB \<Rightarrow> bool" where
  "db_open db \<longleftrightarrow> activeFile db = Some (data_name (activeFileID db)) \<and> file_of db (activeFileID db) \<noteq> None"

definition live :: "GojiDB \<Rightarrow> key \<Rightarrow> KeyDir \<Rightarrow> bool" where
  "live db k kd \<longleftrightarrow> cm_Get (keyDir db) k = Some kd \<and> \<not> Deleted kd"

text \<open>The bytes an index entry points to.\<close>

definition value_slice :: "bytes \<Rightarrow> KeyDir \<Rightarrow> bytes" where
  "value_slice c kd = byte_slice (unat (ValuePos kd)) (unat (ValueSize kd)) c"

definition entry_inside :: "GojiDB \<Rightarrow> KeyDir \<Rightarrow> bool" where
  "entry_inside db kd \<longleftrightarrow>
     (\<exists>c. file_of db (FileID kd) = Some c \<and> unat (ValuePos kd) + unat (ValueSize kd) \<le> length c)"

definition kd_block :: "KeyDir \<Rightarrow> 64 word" where
  "kd_block kd = (ValuePos kd div 4096) * 4096"

text \<open>A cached block is filed under an aligned offset and agrees with every live value in it.\<close>

definition block_ok :: "Platform \<Rightarrow> GojiDB \<Rightarrow> key \<Rightarrow> bytes \<Rightarrow> bool" where
  "block_ok P db bk b \<longleftrightarrow>
     (\<exists>fid off. bk = generateBlockKey (sha256 P) fid off \<and> 4096 dvd unat off \<and>
        (\<forall>k kd c d. live db k kd \<and> FileID kd = fid \<and> kd_block kd = off \<and> file_of db fid = Some c \<and>
           extractDataFromBlock b kd off = Some d \<longrightarrow> d = value_slice c kd))"

definition db_sound :: "Platform \<Rightarrow> GojiDB \<Rightarrow> bool" where
  "db_sound P db \<longleftrightarrow>
     cm_inv (keyDir db) \<and> lru_inv (bcCache (blockCache db)) \<and> lru_inv (kcCache (keyCache db)) \<and>
     blockSize (blockCache db) = 4096 \<and> db_open db \<and>
     (\<forall>fid c. file_of db fid = Some c \<longrightarrow> length c < 2 ^ 63) \<and>
     (\<forall>k kd. live db k kd \<longrightarrow> entry_inside db kd) \<and>
     lru.coherent (block_ok P db) (bcCache (blockCache db))"

text \<open>The part of it that does not speak of the caches.\<close>

definition index_sound :: "GojiDB \<Rightarrow> bool" where
  "index_sound db \<longleftrightarrow> cm_inv (keyDir db) \<and> db_open db \<and>
     (\<forall>fid c. file_of db fid = Some c \<longrightarrow> length c < 2 ^ 63) \<and> (\<forall>k kd. live db k kd \<longrightarrow> entry_inside db kd)"

lemma db_sound_index: "db_sound P db \<Longrightarrow> index_sound db"
  by (simp add: db_sound_def index_sound_def)

text \<open>What the database holds: a value and an expiry stamp for each key.\<close>

definition db_value :: "Platform \<Rightarrow> GojiDB \<Rightarrow> KeyDir \<Rightarrow> bytes outcome" where
  "db_value P db kd =
     (case file_of db (FileID kd) of
        None \<Rightarrow> Err NoSuchFile
      | Some c \<Rightarrow> db_decompress P db (value_slice c kd) (Compression kd))"

definition db_view :: "Platform \<Rightarrow> GojiDB \<Rightarrow> key \<Rightarrow> (bytes outcome \<times> 32 word) option" where
  "db_view P db k =
     (case cm_Get (keyDir db) k of
        None \<Rightarrow> None
      | Some kd \<Rightarrow> if Deleted kd then None else Some (db_value P db kd, TTL kd))"

lemma db_core_congs:
  assumes "db_core db' = db_core db"
  shows "file_of db' = file_of db" "db_open db' = db_open db" "live db' = live db"
    "entry_inside db' = entry_inside db" "block_ok P db' = block_ok P db" "db_sound P db' = db_sound P db"
    "db_value P db' = db_value P db" "db_view P db' = db_view P db" "db_decompress P db' = db_decompress P db"
    "cm_Get (keyDir db') = cm_Get (keyDir db)" "entry_file db' = entry_file db"
proof -
  have f: "file_of db' = file_of db" using assms by (simp add: db_core_def file_of_def fun_eq_iff)
  show "file_of db' = file_of db" by (rule f)
  show o: "db_open db' = db_open db" using assms by (simp add: db_open_def f) (simp add: db_core_def)
  show l: "live db' = live db" using assms by (simp add: db_core_def live_def fun_eq_iff)
  show e: "entry_inside db' = entry_inside db" by (simp add: entry_inside_def f fun_eq_iff)
  show b: "block_ok P db' = block_ok P db" by (simp add: block_ok_def f l fun_eq_iff)
  have k: "keyDir db' = keyDir db" "blockCache db' = blockCache db" "keyCache db' = keyCache db"
    using assms by (simp_all add: db_core_def)
  show "db_sound P db' = db_sound P db" by (simp add: db_sound_def f o l e b k)
  show d: "db_decompress P db' = db_decompress P db"
    using assms by (auto simp: db_decompress_def fun_eq_iff db_core_def)
  show v: "db_value P db' = db_value P db" by (intro ext) (simp only: db_value_def f d)
  show "db_view P db' = db_view P db" by (intro ext) (simp only: db_view_def k v)
  show "cm_Get (keyDir db') = cm_Get (keyDir db)" by (simp add: k)
  have "activeFileID db' = activeFileID db" "activeFile db' = activeFile db"
    "wFiles (world db') = wFiles (world db)" using assms by (simp_all add: db_core_def)
  then show "entry_file db' = entry_file db"
    by (intro ext) (simp only: entry_file_def db_file_def)
qed

lemma same_store_sound: "same_store db db' \<Longrightarrow> db_sound P db' = db_sound P db"
  by (rule db_core_congs) (simp add: same_store_def)

lemma same_store_view: "same_store db db' \<Longrightarrow> db_view P db' = db_view P db"
  by (rule db_core_congs) (simp add: same_store_def)

section \<open>Reading\<close>

lemma entry_file_open: "db_open db \<Longrightarrow> entry_file db fid = of_option NoSuchFile (file_of db fid)"
  by (auto simp: db_open_def entry_file_def db_file_def contents_def file_of_def of_option_def split: option.splits)

lemma block_mod:
  fixes p :: "64 word"
  shows "(p div 4096) * 4096 \<le> p" "unat (p - (p div 4096) * 4096) = unat p mod 4096"
    "unat ((p div 4096) * 4096) = 4096 * (unat p div 4096)" "4096 dvd unat ((p div 4096) * 4096)"
proof -
  have u: "unat ((p div 4096) * 4096) = 4096 * (unat p div 4096)"
  proof -
    have "unat (p div 4096) * unat (4096 :: 64 word) \<le> unat p"
      using div_times_less_eq_dividend [of "unat p" 4096] by (simp only: unat_div) simp
    also have "unat p < 2 ^ LENGTH(64)" by (rule unsigned_less)
    finally have "unat ((p div 4096) * 4096) = unat (p div 4096) * unat (4096 :: 64 word)"
      by (rule unat_mult_lem [THEN iffD1])
    then show ?thesis by (simp add: unat_div)
  qed
  show "unat ((p div 4096) * 4096) = 4096 * (unat p div 4096)" by (rule u)
  show "4096 dvd unat ((p div 4096) * 4096)" by (simp add: u)
  show le: "(p div 4096) * 4096 \<le> p" by (simp add: word_le_nat_alt u)
  show "unat (p - (p div 4096) * 4096) = unat p mod 4096"
    using le by (simp add: unat_sub u minus_mult_div_eq_mod)
qed


lemma lru_Get_peek: "lru_inv c \<Longrightarrow> lru_Get t k c = (lru_peek c k, lru_touch t k c)"
  by (simp add: lru_touch_def lru_peek_abs lru_Get_refines(1) prod_eq_iff)

text \<open>Touching or replacing the block cache does not change what the state holds.\<close>

lemma block_cache_irrelevant [simp]:
  "live (db\<lparr>blockCache := bc\<rparr>) = live db" "file_of (db\<lparr>blockCache := bc\<rparr>) = file_of db"
  "block_ok P (db\<lparr>blockCache := bc\<rparr>) = block_ok P db" "db_open (db\<lparr>blockCache := bc\<rparr>) = db_open db"
  "entry_inside (db\<lparr>blockCache := bc\<rparr>) = entry_inside db"
  by (simp_all add: live_def file_of_def block_ok_def db_open_def entry_inside_def fun_eq_iff)

lemma key_cache_irrelevant [simp]:
  "live (db\<lparr>keyCache := kc\<rparr>) = live db" "file_of (db\<lparr>keyCache := kc\<rparr>) = file_of db"
  "block_ok P (db\<lparr>keyCache := kc\<rparr>) = block_ok P db" "db_open (db\<lparr>keyCache := kc\<rparr>) = db_open db"
  "entry_inside (db\<lparr>keyCache := kc\<rparr>) = entry_inside db"
  by (simp_all add: live_def file_of_def block_ok_def db_open_def entry_inside_def fun_eq_iff)

definition block_key :: "Platform \<Rightarrow> 32 word \<Rightarrow> 64 word \<Rightarrow> key" where
  "block_key P fid off = generateBlockKey (sha256 P) fid off"

text \<open>What reads may change: clock, counters, pending goroutines and the caches, coherently.\<close>

definition reads :: "Platform \<Rightarrow> GojiDB \<Rightarrow> GojiDB \<Rightarrow> bool" where
  "reads P db db' \<longleftrightarrow> db_sound P db' \<and>
     keyDir db' = keyDir db \<and> activeFile db' = activeFile db \<and> activeFileID db' = activeFileID db \<and>
     wFiles (world db') = wFiles (world db) \<and> smart db' = smart db \<and> config db' = config db \<and>
     wal db' = wal db \<and> wTicks (world db) \<le> wTicks (world db')"

lemma reads_trans [trans]: "reads P a b \<Longrightarrow> reads P b c \<Longrightarrow> reads P a c"
  by (auto simp: reads_def)

lemma reads_view:
  assumes "reads P db db'"
  shows "db_view P db' = db_view P db" "live db' = live db" "file_of db' = file_of db"
    "db_decompress P db' = db_decompress P db" "db_value P db' = db_value P db"
proof -
  show f: "file_of db' = file_of db" using assms by (simp add: reads_def file_of_def fun_eq_iff)
  show "live db' = live db" using assms by (simp add: reads_def live_def fun_eq_iff)
  show d: "db_decompress P db' = db_decompress P db"
    using assms by (simp add: reads_def db_decompress_def fun_eq_iff)
  show v: "db_value P db' = db_value P db" by (intro ext) (simp only: db_value_def f d)
  have "keyDir db' = keyDir db" using assms by (simp add: reads_def)
  then show "db_view P db' = db_view P db" by (intro ext) (simp only: db_view_def v)
qed

lemma reads_bump: "db_sound P db \<Longrightarrow> reads P db (bump f db)"
  by (simp add: reads_def db_core_congs(6) [OF db_core_frame(1)])

lemma reads_spawn: "db_sound P db \<Longrightarrow> reads P db (spawn t db)"
  by (simp add: reads_def db_core_congs [OF db_core_frame(2)]) (simp add: spawn_def)

lemma reads_now: "db_sound P db \<Longrightarrow> reads P db (snd (db_now P db))"
  by (simp add: reads_def db_core_congs [OF db_core_frame(4)]) (simp add: db_now_eq)

lemma reads_block_cache:
  assumes "db_sound P db" "lru_inv (bcCache bc)" "blockSize bc = blockSize (blockCache db)"
    and "lru.coherent (block_ok P db) (bcCache bc)"
  shows "reads P db (db\<lparr>blockCache := bc\<rparr>)"
  using assms by (simp add: reads_def db_sound_def)

lemma reads_key_cache:
  assumes "db_sound P db" "lru_inv (kcCache kc)"
  shows "reads P db (db\<lparr>keyCache := kc\<rparr>)"
  using assms by (simp add: reads_def db_sound_def)

lemma get_block_reads:
  assumes "db_sound P db" "get_block P fid off sz db = (r, db')"
  shows "r = lru_peek (bcCache (blockCache db)) (block_key P fid off)" "reads P db db'"
proof -
  let ?c = "bcCache (blockCache db)" and ?t = "clock P (wTicks (world db))"
  have i: "lru_inv ?c" using assms(1) by (simp add: db_sound_def)
  let ?db1 = "snd (db_now P db)"
  have r1: "reads P db ?db1" using assms(1) by (rule reads_now)
  have b1: "blockCache ?db1 = blockCache db" by (simp add: db_now_eq)
  have eq: "r = lru_peek ?c (block_key P fid off)"
    "db' = ?db1\<lparr>blockCache := (blockCache db)\<lparr>bcCache := lru_touch ?t (block_key P fid off) ?c\<rparr>\<rparr>"
    using assms(2) by (auto simp: get_block_def GetBlock_def db_now_eq lru_Get_peek [OF i] block_key_def)
  then show "r = lru_peek ?c (block_key P fid off)" by simp
  have s1: "db_sound P ?db1" using r1 by (simp add: reads_def)
  have "reads P ?db1 db'"
    unfolding eq(2)
    using s1 i by (intro reads_block_cache) (simp_all add: b1 lru.inv_touch lru.coherent_touch db_sound_def)
  with r1 show "reads P db db'" by (rule reads_trans)
qed

lemma cache_put_reads:
  assumes "db_sound P db"
  shows "reads P db (cache_put P k kd db)"
proof -
  let ?db1 = "snd (db_now P db)"
  have r1: "reads P db ?db1" using assms by (rule reads_now)
  have i: "lru_inv (kcCache (keyCache db))" using assms by (simp add: db_sound_def)
  have "cache_put P k kd db =
      ?db1\<lparr>keyCache := SetKeyDir (clock P (wTicks (world db))) k kd (keyCache db)\<rparr>"
    by (simp add: cache_put_def db_now_eq)
  then have "reads P ?db1 (cache_put P k kd db)"
    using r1 lru_Set_refines(1) [OF i]
    by (simp only:) (intro reads_key_cache; simp add: reads_def SetKeyDir_def)
  with r1 show ?thesis by (rule reads_trans)
qed


lemma check_ttl_reads:
  assumes "db_sound P db" "check_ttl P kd db = (late, db')"
  shows "reads P db db'" "wTicks (world db') \<le> Suc (wTicks (world db))"
    "late \<longleftrightarrow> TTL kd \<noteq> 0 \<and> unix32 (clock P (wTicks (world db))) \<ge> TTL kd"
proof -
  have n: "reads P db (snd (db_now P db))" using assms(1) by (rule reads_now)
  then have "reads P db (bump f (snd (db_now P db)))" for f
    by (rule reads_trans) (rule reads_bump, use n in \<open>simp add: reads_def\<close>)
  moreover have "reads P db db" using assms(1) by (simp add: reads_def)
  ultimately show "reads P db db'"
    using assms(2) n by (auto simp: check_ttl_def Let_def db_now_eq split: if_splits)
  show "wTicks (world db') \<le> Suc (wTicks (world db))"
    "late \<longleftrightarrow> TTL kd \<noteq> 0 \<and> unix32 (clock P (wTicks (world db))) \<ge> TTL kd"
    using assms(2) by (auto simp: check_ttl_def Let_def db_now_eq split: if_splits)
qed

lemma read_at_slice:
  assumes "unat (ValuePos kd) + unat (ValueSize kd) \<le> length c" "length c < 2 ^ 63"
  shows "read_at c (sint (ValuePos kd)) (unat (ValueSize kd)) = Ok (value_slice c kd)"
proof -
  have "unat (ValuePos kd) < 2 ^ 63" using assms by linarith
  then have "sint (ValuePos kd) = int (unat (ValuePos kd))"
    by (rule sint_small)
  then show ?thesis using assms(1) by (simp add: read_at_ok value_slice_def)
qed

text \<open>A block read from the file agrees with every live value that lies in it.\<close>

lemma extract_fresh_block:
  assumes "length c < 2 ^ 63" "unat (ValuePos kd) + unat (ValueSize kd) \<le> length c"
    and "extractDataFromBlock (zero_fill 4096 (read_at_partial c (sint (kd_block kd)) 4096)) kd (kd_block kd) = Some d"
  shows "d = value_slice c kd"
proof -
  let ?s = "unat (kd_block kd)" and ?p = "unat (ValuePos kd)" and ?n = "unat (ValueSize kd)"
  let ?o = "unat (ValuePos kd - kd_block kd)"
  note bm = block_mod [of "ValuePos kd"]
  have s: "?s = 4096 * (?p div 4096)" and o: "?o = ?p mod 4096"
    using bm by (simp_all add: kd_block_def)
  then have so: "?s + ?o = ?p" by simp
  have "?s < 2 ^ 63" using so assms(1,2) by linarith
  then have "sint (kd_block kd) = int ?s"
    by (rule sint_small)
  then have r: "read_at_partial c (sint (kd_block kd)) 4096 = byte_slice ?s 4096 c"
    by (simp add: read_at_partial_def)
  have len: "length (zero_fill 4096 (byte_slice ?s 4096 c)) = 4096"
    by (rule length_zero_fill) (simp add: byte_slice_def)
  have nb: "?n < 2 ^ 32" using unsigned_less [of "ValueSize kd"] by simp
  have ob: "?o < 4096" by (simp add: o)
  have sum: "unat (ValuePos kd - kd_block kd + ucast (ValueSize kd)) = ?o + ?n"
  proof -
    have u: "unat (ucast (ValueSize kd) :: 64 word) = ?n" by (rule unat_ucast_32_64)
    have "?o + ?n < 2 ^ 64" by (simp add: less_le_trans [OF add_strict_mono [OF ob nb]])
    then show ?thesis using u by (simp add: unat_add_lem [THEN iffD1])
  qed
  have le: "?o + ?n \<le> 4096" and d: "d = byte_slice ?o ?n (zero_fill 4096 (byte_slice ?s 4096 c))"
    using assms(3) sum by (auto simp: extractDataFromBlock_def Let_def r len word_le_nat_alt split: if_splits)
  have "byte_slice ?o ?n (zero_fill 4096 (byte_slice ?s 4096 c)) = byte_slice ?o ?n (byte_slice ?s 4096 c)"
    unfolding zero_fill_def using le so assms(2) by (intro byte_slice_append_left) (simp add: byte_slice_def)
  also have "\<dots> = byte_slice ?p ?n c" using byte_slice_slice [OF le, of ?s c] so by simp
  finally show ?thesis by (simp add: d value_slice_def)
qed

lemma db_soundD:
  assumes "db_sound P db"
  shows "cm_inv (keyDir db)" "lru_inv (bcCache (blockCache db))" "lru_inv (kcCache (keyCache db))"
    "blockSize (blockCache db) = 4096" "db_open db" "file_of db fid = Some c \<Longrightarrow> length c < 2 ^ 63"
    "live db k kd \<Longrightarrow> entry_inside db kd" "lru.coherent (block_ok P db) (bcCache (blockCache db))"
  using assms unfolding db_sound_def by blast+

lemma reads_refl: "db_sound P db \<Longrightarrow> reads P db db"
  by (simp add: reads_def)

lemma block_start_sound: "db_sound P db \<Longrightarrow> block_start db kd = kd_block kd"
  by (simp add: block_start_def kd_block_def db_soundD(4))

lemma updateBlockCache_reads:
  assumes "db_sound P db" "file_of db (FileID kd) = Some c"
  shows "reads P db (updateBlockCache P kd (kd_block kd) db)"
proof -
  let ?db1 = "snd (db_now P db)" and ?t = "clock P (wTicks (world db))"
  let ?b = "zero_fill 4096 (read_at_partial c (sint (kd_block kd)) 4096)"
  let ?bc = "SetBlock (sha256 P) ?t (FileID kd) (kd_block kd) ?b (blockCache db)"
  note s = db_soundD [OF assms(1)]
  have r1: "reads P db ?db1" using assms(1) by (rule reads_now)
  have "entry_file db (FileID kd) = Ok c" by (simp add: entry_file_open [OF s(5)] assms(2) of_option_def)
  then have eq: "updateBlockCache P kd (kd_block kd) db = ?db1\<lparr>blockCache := ?bc\<rparr>"
    by (simp add: updateBlockCache_def db_now_eq s(4) Let_def)
  have ok: "block_ok P db (generateBlockKey (sha256 P) (FileID kd) (kd_block kd)) ?b"
  proof -
    have "d = value_slice c kd'"
      if "live db k kd'" "kd_block kd' = kd_block kd" "FileID kd' = FileID kd"
        "extractDataFromBlock ?b kd' (kd_block kd) = Some d" for k kd' d
    proof (rule extract_fresh_block)
      show "length c < 2 ^ 63" using s(6) assms(2) by blast
      show "unat (ValuePos kd') + unat (ValueSize kd') \<le> length c"
        using s(7) [OF that(1)] assms(2) that(3) by (auto simp: entry_inside_def)
      show "extractDataFromBlock (zero_fill 4096 (read_at_partial c (sint (kd_block kd')) 4096)) kd' (kd_block kd') = Some d"
        using that(2,4) by simp
    qed
    moreover have "4096 dvd unat (kd_block kd)" unfolding kd_block_def by (rule block_mod)
    ultimately show ?thesis using assms(2) unfolding block_ok_def by (intro exI conjI) auto
  qed
  have st: "bcCache ?bc = lru_store (?t, FileID kd, kd_block kd, of_nat (length ?b), unix32 ?t)
      (generateBlockKey (sha256 P) (FileID kd) (kd_block kd)) ?b (bcCache (blockCache db))"
    by (simp add: SetBlock_def lru_store_def)
  have s1: "db_sound P ?db1" using r1 by (simp add: reads_def)
  have "reads P ?db1 (?db1\<lparr>blockCache := ?bc\<rparr>)"
  proof (rule reads_block_cache [OF s1])
    show "lru_inv (bcCache ?bc)" unfolding st by (rule lru.inv_store) (rule s(2))
    show "blockSize ?bc = blockSize (blockCache ?db1)" by (simp add: SetBlock_def db_now_eq)
    have "block_ok P ?db1 = block_ok P db" by (rule db_core_congs(5)) (rule db_core_frame(4))
    then show "lru.coherent (block_ok P ?db1) (bcCache ?bc)"
      using lru.coherent_store [OF s(2,8) ok] by (simp only: st)
  qed
  with r1 show ?thesis unfolding eq by (rule reads_trans)
qed

lemma live_file:
  assumes "db_sound P db" "live db k kd"
  obtains c where "file_of db (FileID kd) = Some c" "unat (ValuePos kd) + unat (ValueSize kd) \<le> length c"
    "length c < 2 ^ 63"
  using db_soundD(6,7) [OF assms(1)] assms(2) unfolding entry_inside_def by blast

lemma readData_live:
  assumes "db_sound P db" "sha_separates (sha256 P)" "live db k kd" "readData P kd db = (r, db')"
    and "file_of db (FileID kd) = Some c"
  shows "r = Ok (value_slice c kd)" "reads P db db'"
proof -
  note s = db_soundD [OF assms(1)]
  obtain c' where c': "file_of db (FileID kd) = Some c'"
    "unat (ValuePos kd) + unat (ValueSize kd) \<le> length c'" "length c' < 2 ^ 63"
    using live_file [OF assms(1,3)] .
  then have c: "unat (ValuePos kd) + unat (ValueSize kd) \<le> length c" "length c < 2 ^ 63"
    using assms(5) by simp_all
  obtain b db1 where g: "get_block P (FileID kd) (kd_block kd) 4096 db = (b, db1)" by (rule prod.exhaust)
  note gr = get_block_reads [OF assms(1) g]
  have run: "(r, db') = (case Option.bind b (\<lambda>block. extractDataFromBlock block kd (kd_block kd)) of
      Some data \<Rightarrow> (Ok data, db1) | None \<Rightarrow> readFromFileAndCache P kd (kd_block kd) db1)"
    using assms(4) g by (simp add: readData_def block_start_sound [OF assms(1)] s(4) Let_def split: option.splits)
  have s1: "db_sound P db1" using gr(2) by (simp add: reads_def)
  show "r = Ok (value_slice c kd)" "reads P db db'"
  proof (atomize (full), cases "Option.bind b (\<lambda>block. extractDataFromBlock block kd (kd_block kd))")
    case (Some d)
    then obtain block where block: "b = Some block" "extractDataFromBlock block kd (kd_block kd) = Some d"
      by (auto simp: bind_eq_Some_conv)
    have "block_ok P db (block_key P (FileID kd) (kd_block kd)) block"
      using lru.coherentD [OF s(8)] gr(1) block(1) by simp
    then obtain fid off where o: "generateBlockKey (sha256 P) (FileID kd) (kd_block kd) = generateBlockKey (sha256 P) fid off"
      "\<forall>k kd c d. live db k kd \<and> FileID kd = fid \<and> kd_block kd = off \<and> file_of db fid = Some c \<and>
         extractDataFromBlock block kd off = Some d \<longrightarrow> d = value_slice c kd"
      unfolding block_ok_def block_key_def by blast
    then have "FileID kd = fid" "kd_block kd = off" using generateBlockKey_inj [OF assms(2)] by simp_all
    then have "d = value_slice c kd" using o(2) [rule_format, of k kd c d] assms(3,5) block(2) by simp
    then show "r = Ok (value_slice c kd) \<and> reads P db db'" using run Some gr(2) by simp
  next
    case None
    have f: "file_of db1 (FileID kd) = Some c" using reads_view(3) [OF gr(2)] assms(5) by simp
    have "entry_file db1 (FileID kd) = Ok c"
      by (simp add: entry_file_open [OF db_soundD(5) [OF s1]] f of_option_def)
    then have "readFromFileAndCache P kd (kd_block kd) db1 =
        (Ok (value_slice c kd), updateBlockCache P kd (kd_block kd) db1)"
      by (simp add: readFromFileAndCache_def read_at_slice [OF c])
    then show "r = Ok (value_slice c kd) \<and> reads P db db'"
      using run None reads_trans [OF gr(2) updateBlockCache_reads [OF s1 f]] by simp
  qed
qed


section \<open>\<open>Get\<close>\<close>

text \<open>What a lookup may answer at the times \<open>m\<close> to \<open>n\<close>.\<close>

definition get_answer :: "Platform \<Rightarrow> nat \<Rightarrow> nat \<Rightarrow> (bytes outcome \<times> 32 word) option \<Rightarrow> bytes outcome \<Rightarrow> bool" where
  "get_answer P m n e r \<longleftrightarrow>
     (case e of
        None \<Rightarrow> r = Err KeyNotFound
      | Some (v, ttl) \<Rightarrow>
          if ttl = 0 then r = v
          else \<exists>t. m \<le> t \<and> t \<le> n \<and> r = (if unix32 (clock P t) \<ge> ttl then Err KeyExpired else v))"

lemma reads_ticks: "reads P a b \<Longrightarrow> wTicks (world a) \<le> wTicks (world b)"
  by (simp add: reads_def)

lemma reads_sound: "reads P a b \<Longrightarrow> db_sound P b"
  by (simp add: reads_def)

lemma reads_bumped: "reads P a b \<Longrightarrow> reads P a (bump f b)"
  by (rule reads_trans) (auto intro: reads_bump reads_sound)

lemma reads_spawned: "reads P a b \<Longrightarrow> reads P a (spawn t b)"
  by (rule reads_trans) (auto intro: reads_spawn reads_sound)

lemma get_indexed_answer:
  assumes "db_sound P db" "sha_separates (sha256 P)" "get_indexed P k db = (r, db')"
  shows "get_answer P (wTicks (world db)) (wTicks (world db')) (db_view P db k) r" "reads P db db'"
proof -
  have missed: "reads P db (miss db)" unfolding miss_def by (rule reads_bump [OF assms(1)])
  show "get_answer P (wTicks (world db)) (wTicks (world db')) (db_view P db k) r" "reads P db db'"
  proof (atomize (full), cases "\<exists>kd. live db k kd")
    case False
    then have "db_view P db k = None" by (auto simp: db_view_def live_def split: option.splits)
    moreover have "(r, db') = (Err KeyNotFound, miss db)"
      using False assms(3) by (auto simp: get_indexed_def live_def split: option.splits)
    ultimately show "get_answer P (wTicks (world db)) (wTicks (world db')) (db_view P db k) r \<and> reads P db db'"
      using missed by (simp add: get_answer_def)
  next
    case True
    then obtain kd where kd: "live db k kd" by blast
    let ?db1 = "cache_put P k kd db"
    obtain late db2 where ct: "check_ttl P kd ?db1 = (late, db2)" by (rule prod.exhaust)
    have r1: "reads P db ?db1" using assms(1) by (rule cache_put_reads)
    note c = check_ttl_reads [OF reads_sound [OF r1] ct]
    have r2: "reads P db db2" using r1 c(1) by (rule reads_trans)
    obtain f where f: "file_of db (FileID kd) = Some f" using live_file [OF assms(1) kd] .
    have view: "db_view P db k = Some (db_decompress P db (value_slice f kd) (Compression kd), TTL kd)"
      using kd f by (simp add: db_view_def live_def db_value_def)
    obtain d db3 where rd: "readData P kd db2 = (d, db3)" by (rule prod.exhaust)
    have "live db2 k kd" "file_of db2 (FileID kd) = Some f" using kd f reads_view(2,3) [OF r2] by simp_all
    note d = readData_live [OF reads_sound [OF r2] assms(2) this(1) rd this(2)]
    have r3: "reads P db db3" using r2 d(2) by (rule reads_trans)
    have run: "(r, db') = (if late then (Err KeyExpired, spawn (ExpireTask k) db2)
        else case db_decompress P db (value_slice f kd) (Compression kd) of
               Ok v \<Rightarrow> (Ok v, bump (\<lambda>m. m\<lparr>CacheHits := CacheHits m + 1\<rparr>) db3)
             | Err e \<Rightarrow> (Err e, miss db3) | x \<Rightarrow> (x, db3))"
      using assms(3) kd ct rd [unfolded d(1)] reads_view(4) [OF r3]
      by (cases late) (simp_all add: get_indexed_def live_def Let_def)
    have fin: "reads P db db'"
      using run r2 r3
      by (auto simp: miss_def intro: reads_bumped reads_spawned split: if_splits outcome.splits)
    let ?t = "wTicks (world ?db1)"
    have res: "r = (if late then Err KeyExpired else db_decompress P db (value_slice f kd) (Compression kd))"
      using run by (auto split: if_splits outcome.splits)
    have "get_answer P (wTicks (world db)) (wTicks (world db')) (db_view P db k) r"
    proof (cases "TTL kd = 0")
      case True
      then show ?thesis using res c(3) by (simp add: get_answer_def view)
    next
      case False
      have "?t \<le> wTicks (world db2)" by (rule reads_ticks [OF c(1)])
      also have "\<dots> \<le> wTicks (world db')"
        using run reads_ticks [OF d(2)]
        by (auto simp: miss_def spawn_def bump_def split: if_splits outcome.splits)
      finally show ?thesis
        using False reads_ticks [OF r1] res c(3) by (auto simp: get_answer_def view intro!: exI [of _ ?t])
    qed
    with fin show "get_answer P (wTicks (world db)) (wTicks (world db')) (db_view P db k) r \<and> reads P db db'"
      by blast
  qed
qed


lemma get_cached_keydir_reads:
  assumes "db_sound P db" "get_cached_keydir P k db = (c, db')"
  shows "c = map_option decode_KeyDir (lru_peek (kcCache (keyCache db)) k)" "reads P db db'"
proof -
  let ?c = "kcCache (keyCache db)" and ?t = "clock P (wTicks (world db))" and ?db1 = "snd (db_now P db)"
  note i = db_soundD(3) [OF assms(1)]
  have r1: "reads P db ?db1" using assms(1) by (rule reads_now)
  have eq: "c = map_option decode_KeyDir (lru_peek ?c k)"
    "db' = ?db1\<lparr>keyCache := (keyCache db)\<lparr>kcCache := lru_touch ?t k ?c\<rparr>\<rparr>"
    using assms(2) by (auto simp: get_cached_keydir_def GetKeyDir_def db_now_eq lru_Get_peek [OF i])
  show "c = map_option decode_KeyDir (lru_peek ?c k)" by (rule eq(1))
  have "reads P ?db1 db'"
    unfolding eq(2) by (rule reads_key_cache [OF reads_sound [OF r1]]) (simp add: lru.inv_touch i)
  with r1 show "reads P db db'" by (rule reads_trans)
qed

text \<open>Only an aligned position can hit the block cache at the position of the value itself.\<close>

lemma tryCacheRead_misses:
  assumes "db_sound P db" "\<not> 4096 dvd unat (ValuePos kd)"
    and "sha_separates (sha256 P)" "tryCacheRead P kd db = (r, db')"
  shows "r = Ok None" "reads P db db'"
proof -
  obtain b db1 where g: "get_block P (FileID kd) (ValuePos kd) (ValueSize kd) db = (b, db1)" by (rule prod.exhaust)
  note gr = get_block_reads [OF assms(1) g]
  have "b = None"
  proof (rule ccontr)
    assume "b \<noteq> None"
    then obtain x where "lru_peek (bcCache (blockCache db)) (block_key P (FileID kd) (ValuePos kd)) = Some x"
      using gr(1) by auto
    then have "block_ok P db (block_key P (FileID kd) (ValuePos kd)) x"
      using lru.coherentD [OF db_soundD(8) [OF assms(1)]] by blast
    then obtain fid off where "generateBlockKey (sha256 P) (FileID kd) (ValuePos kd) = generateBlockKey (sha256 P) fid off"
      "4096 dvd unat off" unfolding block_ok_def block_key_def by blast
    then show False using assms(2) generateBlockKey_inj [OF assms(3)] by simp
  qed
  then show "r = Ok None" "reads P db db'" using assms(4) g gr(2) by (simp_all add: tryCacheRead_def)
qed

definition unaligned :: "GojiDB \<Rightarrow> key \<Rightarrow> bool" where
  "unaligned db k \<longleftrightarrow>
     (case lru_peek (kcCache (keyCache db)) k of
        None \<Rightarrow> True | Some b \<Rightarrow> \<not> 4096 dvd unat (ValuePos (decode_KeyDir b)))"

lemma get_answer_later:
  "get_answer P m n e r \<Longrightarrow> m' \<le> m \<Longrightarrow> get_answer P m' n e r"
  by (auto simp: get_answer_def split: option.splits if_splits intro: order_trans)

lemma Get_answer:
  assumes "db_sound P db" "sha_separates (sha256 P)" "k \<noteq> []" "unaligned db k" "Get P k db = (r, db')"
  shows "get_answer P (wTicks (world db)) (wTicks (world db')) (db_view P db k) r" "reads P db db'"
proof -
  let ?db0 = "bump (\<lambda>m. m\<lparr>TotalReads := TotalReads m + 1\<rparr>) db"
  have r0: "reads P db ?db0" using assms(1) by (rule reads_bump)
  obtain c db1 where g: "get_cached_keydir P k ?db0 = (c, db1)" by (rule prod.exhaust)
  note gc = get_cached_keydir_reads [OF reads_sound [OF r0] g]
  have r1: "reads P db db1" using r0 gc(2) by (rule reads_trans)
  have "\<exists>db3. reads P db db3 \<and> (r, db') = get_indexed P k db3"
  proof (cases c)
    case None
    then show ?thesis using r1 g assms(3,5) by (auto simp: Get_def Let_def)
  next
    case (Some kd)
    then have al: "\<not> 4096 dvd unat (ValuePos kd)" "TTL kd = 0"
      using gc(1) assms(4) by (auto simp: unaligned_def decode_KeyDir_def)
    have ct: "check_ttl P kd db1 = (False, db1)" by (simp add: check_ttl_def al(2))
    obtain x db3 where t: "tryCacheRead P kd db1 = (x, db3)" by (rule prod.exhaust)
    note tr = tryCacheRead_misses [OF reads_sound [OF r1] al(1) assms(2) t]
    then show ?thesis
      using reads_trans [OF r1 tr(2)] t g Some assms(3,5) ct
      by (intro exI [of _ db3]) (simp add: Get_def Let_def)
  qed
  then obtain db3 where db3: "reads P db db3" "get_indexed P k db3 = (r, db')" by metis
  note a = get_indexed_answer [OF reads_sound [OF db3(1)] assms(2) db3(2)]
  show "reads P db db'" using db3(1) a(2) by (rule reads_trans)
  show "get_answer P (wTicks (world db)) (wTicks (world db')) (db_view P db k) r"
    using a(1) reads_ticks [OF db3(1)] reads_view(1) [OF db3(1)] by (simp add: get_answer_later)
qed

end
