(* ===== verification/PutSpec.thy ===== *)
theory PutSpec
  imports EngineSpec
begin

text \<open>
  What the writing operations do to the files, the index and the view of the database: appending,
  logging and rotation only make files grow, and \<open>store_entry\<close> points the index to the record it
  has appended.
\<close>

section \<open>Files only grow\<close>

lemma data_name_inject [simp]: "data_name a = data_name b \<longleftrightarrow> a = b"
  by (simp add: data_name_def word_unat_eq_iff)

lemma data_name_suffix [simp]: "has_suffix (data_name fid) DataSuffix"
  by (simp add: data_name_def)

lemma data_name_not_wal [simp]: "data_name fid \<noteq> WalName" "WalName \<noteq> data_name fid"
proof -
  have "\<not> has_suffix WalName DataSuffix" by code_simp
  then show "data_name fid \<noteq> WalName" "WalName \<noteq> data_name fid" by (metis data_name_suffix)+
qed

definition grows :: "GojiDB \<Rightarrow> GojiDB \<Rightarrow> bool" where
  "grows db db' \<longleftrightarrow> (\<forall>fid c. file_of db fid = Some c \<longrightarrow> (\<exists>x. file_of db' fid = Some (c @ x)))"

lemma grows_refl [simp]: "grows db db"
  by (auto simp: grows_def intro: exI [of _ "[]"])

lemma grows_trans [trans]: "grows a b \<Longrightarrow> grows b c \<Longrightarrow> grows a c"
  unfolding grows_def by (metis append.assoc)

lemma grows_same: "(\<And>fid. file_of db' fid = file_of db fid) \<Longrightarrow> grows db db'"
  by (auto simp: grows_def intro: exI [of _ "[]"])

lemma value_slice_grown:
  "unat (ValuePos kd) + unat (ValueSize kd) \<le> length c \<Longrightarrow> value_slice (c @ x) kd = value_slice c kd"
  by (simp add: value_slice_def)

lemma grown_entry:
  assumes "grows db db'" "entry_inside db kd"
  shows "entry_inside db' kd" "db_decompress P db' = db_decompress P db \<Longrightarrow> db_value P db' kd = db_value P db kd"
proof -
  obtain c x where c: "file_of db (FileID kd) = Some c" "unat (ValuePos kd) + unat (ValueSize kd) \<le> length c"
    "file_of db' (FileID kd) = Some (c @ x)"
    using assms unfolding entry_inside_def grows_def by blast
  then show "entry_inside db' kd" by (auto simp: entry_inside_def)
  assume "db_decompress P db' = db_decompress P db"
  then show "db_value P db' kd = db_value P db kd"
    by (simp add: db_value_def c value_slice_grown [OF c(2)])
qed

text \<open>The directory: no name twice, and of the files only the numbered ones and the log change.\<close>

definition dir_keeps :: "GojiDB \<Rightarrow> GojiDB \<Rightarrow> bool" where
  "dir_keeps db db' \<longleftrightarrow>
     (distinct (map fst (wFiles (world db))) \<longrightarrow> distinct (map fst (wFiles (world db')))) \<and>
     (\<forall>f. f \<noteq> WalName \<and> (\<forall>fid. f \<noteq> data_name fid) \<longrightarrow>
        map_of (wFiles (world db')) f = map_of (wFiles (world db)) f)"

lemma dir_keeps_same: "wFiles (world db') = wFiles (world db) \<Longrightarrow> dir_keeps db db'"
  by (simp add: dir_keeps_def)

lemma dir_keeps_trans [trans]: "dir_keeps a b \<Longrightarrow> dir_keeps b c \<Longrightarrow> dir_keeps a c"
  by (simp add: dir_keeps_def)

text \<open>A cached block stays right while the files grow and no entry is added.\<close>

lemma block_ok_grown:
  assumes "grows db db'" "\<forall>k kd. live db' k kd \<longrightarrow> live db k kd \<and> entry_inside db kd" "block_ok P db bk b"
  shows "block_ok P db' bk b"
proof -
  obtain fid off where o: "bk = generateBlockKey (sha256 P) fid off" "4096 dvd unat off"
    "\<And>k kd c d. live db k kd \<Longrightarrow> FileID kd = fid \<Longrightarrow> kd_block kd = off \<Longrightarrow> file_of db fid = Some c \<Longrightarrow>
       extractDataFromBlock b kd off = Some d \<Longrightarrow> d = value_slice c kd"
    using assms(3) unfolding block_ok_def by blast
  have "d = value_slice c' kd"
    if "live db' k kd" "FileID kd = fid" "kd_block kd = off" "file_of db' fid = Some c'"
      "extractDataFromBlock b kd off = Some d" for k kd c' d
  proof -
    note h = that
    have l: "live db k kd" "entry_inside db kd" using assms(2) h(1) by blast+
    then obtain c where c: "file_of db fid = Some c" "unat (ValuePos kd) + unat (ValueSize kd) \<le> length c"
      using h(2) by (auto simp: entry_inside_def)
    obtain x where "file_of db' fid = Some (c @ x)" using assms(1) c(1) unfolding grows_def by blast
    then have "c' = c @ x" using h(4) by simp
    then show ?thesis using o(3) [OF l(1) h(2,3) c(1) h(5)] by (simp add: value_slice_grown [OF c(2)])
  qed
  then show ?thesis using o(1,2) unfolding block_ok_def by blast
qed

text \<open>Storing an entry whose value is in the files.\<close>

definition room :: "nat \<Rightarrow> GojiDB \<Rightarrow> bool" where
  "room n db \<longleftrightarrow> (\<forall>fid c. file_of db fid = Some c \<longrightarrow> length c + n < 2 ^ 63) \<and> n < 2 ^ 63"

definition wal_ready :: "GojiDB \<Rightarrow> bool" where
  "wal_ready db \<longleftrightarrow> (case wal db of None \<Rightarrow> True | Some m \<Rightarrow> wal_open m)"

text \<open>What a write does outside the index: the parts that never matter to the index are free.\<close>

definition wrote :: "Platform \<Rightarrow> bytes \<Rightarrow> GojiDB \<Rightarrow> GojiDB \<Rightarrow> bool" where
  "wrote P data db db' \<longleftrightarrow>
     db_open db' \<and> grows db db' \<and> dir_keeps db db' \<and> wal_ready db' \<and>
     keyDir db' = keyDir db \<and> blockCache db' = blockCache db \<and> keyCache db' = keyCache db \<and>
     smart db' = smart db \<and> config db' = config db \<and> activeFileID db' = activeFileID db \<and>
     wTicks (world db) \<le> wTicks (world db') \<and>
     (\<forall>fid. file_of db' fid =
        (if fid = activeFileID db then map_option (\<lambda>c. c @ data) (file_of db fid) else file_of db fid))"

lemma db_append_wrote:
  assumes "writes_ok P" "db_open db" "wal_ready db"
  obtains db' where "db_append P data db = (Ok (), db')" "wrote P data db db'"
proof -
  let ?f = "data_name (activeFileID db)"
  obtain c where c: "activeFile db = Some ?f" "map_of (wFiles (world db)) ?f = Some c"
    using assms(2) by (auto simp: db_open_def file_of_def)
  let ?db' = "db\<lparr>world := (world db)\<lparr>wFiles := AList.update ?f (c @ data) (wFiles (world db)),
     wWrites := Suc (wWrites (world db))\<rparr>\<rparr>"
  have e: "db_append P data db = (Ok (), ?db')"
    by (simp add: db_append_def c append_file_writes_ok [OF assms(1)] contents_def)
  have f: "file_of ?db' fid = (if fid = activeFileID db then map_option (\<lambda>c. c @ data) (file_of db fid) else file_of db fid)" for fid
    using c(2) by (simp add: file_of_def update_conv')
  have "db_open ?db'" using c by (simp add: db_open_def f) (simp add: file_of_def)
  moreover have "grows db ?db'" unfolding grows_def f by auto
  moreover have "dir_keeps db ?db'" by (simp add: dir_keeps_def distinct_update update_conv')
  ultimately have "wrote P data db ?db'"
    using assms(3) f by (simp add: wrote_def wal_ready_def)
  with e show thesis by (rule that)
qed

text \<open>The log is another file.\<close>

lemma db_wal_wrote:
  assumes "writes_ok P" "wal_ready db" "db_open db"
  obtains db' where "db_wal P ty k v db = (Ok (), db')" "wrote P [] db db'" "wal db = None \<longleftrightarrow> wal db' = None"
proof (cases "wal db")
  case None
  then show thesis
    using assms by (intro that [of db]) (auto simp: db_wal_def wrote_def wal_ready_def dir_keeps_same intro: option.map_ident [symmetric])
next
  case (Some m)
  then have m: "wal_open m" using assms(2) by (simp add: wal_ready_def)
  obtain rs where l: "wal_extends rs m (world db) (wal_log P ty k v [] m (world db))"
    using wal_log_logs [OF assms(1) m, of ty k v "[]" "world db"] by (auto simp: logs_def)
  then obtain m1 w1 where w: "wal_log P ty k v [] m (world db) = (Ok (), m1, w1)"
    by (cases "wal_log P ty k v [] m (world db)") (auto simp: wal_extends_def)
  note x = l [unfolded w wal_extends_def fst_conv snd_conv]
  let ?db' = "db\<lparr>wal := Some m1, world := w1\<rparr>"
  have f: "file_of ?db' fid = file_of db fid" for fid using x by (simp add: file_of_def)
  moreover have "dir_keeps db ?db'" using x by (simp add: dir_keeps_def)
  ultimately have "wrote P [] db ?db'"
    using x assms(3) f by (simp add: wrote_def grows_same wal_ready_def db_open_def option.map_ident)
  then show thesis by (intro that [of ?db']) (simp_all add: db_wal_def Some w)
qed


text \<open>Rotation opens the next file, empty unless it was there already.\<close>

definition rotated :: "GojiDB \<Rightarrow> GojiDB \<Rightarrow> bool" where
  "rotated db db' \<longleftrightarrow>
     db_open db' \<and> grows db db' \<and> dir_keeps db db' \<and> wal_ready db' = wal_ready db \<and>
     keyDir db' = keyDir db \<and> blockCache db' = blockCache db \<and> keyCache db' = keyCache db \<and>
     smart db' = smart db \<and> config db' = config db \<and> wTicks (world db') = wTicks (world db) \<and>
     activeFileID db' \<in> {activeFileID db, activeFileID db + 1} \<and>
     (\<forall>fid. file_of db' fid =
        (if fid = activeFileID db' \<and> file_of db fid = None then Some [] else file_of db fid))"

lemma rotate_for_rotated:
  assumes "db_open db"
  shows "rotated db (rotate_for n db)"
proof -
  have o: "activeFile db = Some (data_name (activeFileID db))" "file_of db (activeFileID db) \<noteq> None"
    using assms by (simp_all add: db_open_def)
  have stay: "rotated db db" using assms by (auto simp: rotated_def db_open_def dir_keeps_same)
  let ?fs = "create_missing (data_name (activeFileID db + 1)) (wFiles (world db))"
  have f: "file_of (rotateActiveFile db) fid =
      (if fid = activeFileID db + 1 \<and> file_of db fid = None then Some [] else file_of db fid)" for fid
    by (simp add: rotateActiveFile_def openActiveFile_def file_of_def create_missing_def update_conv' Let_def)
  have a: "activeFileID (rotateActiveFile db) = activeFileID db + 1"
    "activeFile (rotateActiveFile db) = Some (data_name (activeFileID db + 1))"
    by (simp_all add: rotateActiveFile_def openActiveFile_def Let_def)
  have "grows db (rotateActiveFile db)" unfolding grows_def f by auto
  moreover have "db_open (rotateActiveFile db)" by (simp add: db_open_def a f)
  moreover have "keyDir (rotateActiveFile db) = keyDir db" "blockCache (rotateActiveFile db) = blockCache db"
    "keyCache (rotateActiveFile db) = keyCache db" "smart (rotateActiveFile db) = smart db"
    "config (rotateActiveFile db) = config db" "wTicks (world (rotateActiveFile db)) = wTicks (world db)"
    "wal (rotateActiveFile db) = wal db"
    by (simp_all add: rotateActiveFile_def openActiveFile_def Let_def)
  moreover have "dir_keeps db (rotateActiveFile db)"
    by (simp add: dir_keeps_def rotateActiveFile_def openActiveFile_def create_missing_def distinct_update update_conv' Let_def)
  ultimately have "rotated db (rotateActiveFile db)"
    using f by (simp add: rotated_def a wal_ready_def)
  then show ?thesis
    using stay by (auto simp: rotate_for_def split: outcome.splits)
qed

text \<open>What an update of the index leaves of the invariant, once the block cache was emptied.\<close>

lemma sound_after_set:
  assumes "db_sound P db" "grows db db'" "db_open db'"
    and "keyDir db' = cm_Set k kd (keyDir db)" "entry_inside db' kd"
    and "\<forall>fid c. file_of db' fid = Some c \<longrightarrow> length c < 2 ^ 63"
    and "bcCache (blockCache db') = lru_Clear (bcCache (blockCache db))"
    and "blockSize (blockCache db') = blockSize (blockCache db)" "lru_inv (kcCache (keyCache db'))"
  shows "db_sound P db'"
proof -
  note s = db_soundD [OF assms(1)]
  have g: "cm_Get (keyDir db') k' = (if k' = k then Some kd else cm_Get (keyDir db) k')" for k'
    by (simp add: assms(4) cm.get_set [OF s(1)])
  have "entry_inside db' kd'" if "live db' k' kd'" for k' kd'
  proof (cases "k' = k")
    case True
    then show ?thesis using that assms(5) by (simp add: live_def g)
  next
    case False
    then have "live db k' kd'" using that by (simp add: live_def g)
    then show ?thesis by (intro grown_entry(1) [OF assms(2)] s(7))
  qed
  then show ?thesis
    using assms(3,6,8,9) s
    by (auto simp: db_sound_def assms(4,7) cm.inv_set lru.inv_clear lru.coherent_clear)
qed

lemma view_after_set:
  assumes "db_sound P db" "grows db db'" "db_decompress P db' = db_decompress P db"
    and "keyDir db' = cm_Set k kd (keyDir db)"
  shows "db_view P db' =
    (db_view P db)(k := if Deleted kd then None else Some (db_value P db' kd, TTL kd))"
proof
  fix k'
  note s = db_soundD [OF assms(1)]
  have g: "cm_Get (keyDir db') k' = (if k' = k then Some kd else cm_Get (keyDir db) k')"
    by (simp add: assms(4) cm.get_set [OF s(1)])
  have "db_value P db' kd' = db_value P db kd'" if "live db k' kd'" for kd'
    by (rule grown_entry(2) [OF assms(2) s(7) [OF that] assms(3)])
  then show "db_view P db' k' =
      ((db_view P db)(k := if Deleted kd then None else Some (db_value P db' kd, TTL kd))) k'"
    by (auto simp: db_view_def g live_def split: option.splits)
qed


section \<open>Writing a record\<close>

lemma serialized_value:
  assumes "entry_sized e"
  shows "byte_slice (length c + (HeaderSize + length (eKey e))) (length (eValue e)) (c @ serializeEntry e) = eValue e"
proof -
  define h where "h = put_u32 (eCRC e) @ put_u32 (eTimestamp e) @ put_u32 (eTTL e) @
     put_u16 (eKeySize e) @ put_u32 (eValueSize e) @ [eCompression e] @ eKey e"
  have "serializeEntry e = h @ eValue e"
    using assms by (simp add: serializeEntry_def entry_sized_def h_def)
  moreover have "length h = HeaderSize + length (eKey e)" by (simp add: h_def HeaderSize_def)
  ultimately show ?thesis using byte_slice_at_end [of "eValue e" "length (eValue e)" "c @ h"] by simp
qed

definition stored_at :: "32 word \<Rightarrow> nat \<Rightarrow> Entry \<Rightarrow> KeyDir" where
  "stored_at fid pos e = \<lparr>FileID = fid, ValueSize = eValueSize e, ValuePos = value_pos (int pos) e,
     Timestamp = eTimestamp e, TTL = eTTL e, Compression = eCompression e, Deleted = False\<rparr>"

lemma stored_at_fields [simp]:
  "FileID (stored_at fid pos e) = fid" "ValueSize (stored_at fid pos e) = eValueSize e"
  "TTL (stored_at fid pos e) = eTTL e" "Compression (stored_at fid pos e) = eCompression e"
  "Deleted (stored_at fid pos e) = False" "Timestamp (stored_at fid pos e) = eTimestamp e"
  by (simp_all add: stored_at_def)

lemma value_pos_nat:
  assumes "entry_sized e" "pos + length (serializeEntry e) < 2 ^ 63"
  shows "unat (value_pos (int pos) e) = pos + (HeaderSize + length (eKey e))"
proof -
  have "value_pos (int pos) e = of_nat (pos + (HeaderSize + length (eKey e)))"
    using assms(1) by (simp add: value_pos_def entry_sized_def)
  moreover have "pos + (HeaderSize + length (eKey e)) < 2 ^ LENGTH(64)"
    using assms by (simp add: entry_sized_def)
  ultimately show ?thesis by (simp only: unat_of_nat_small)
qed

lemma stored_at_slice:
  assumes "entry_sized e" "length c + length (serializeEntry e) < 2 ^ 63"
  shows "value_slice (c @ serializeEntry e) (stored_at fid (length c) e) = eValue e"
    "unat (ValuePos (stored_at fid (length c) e)) + unat (ValueSize (stored_at fid (length c) e)) \<le>
       length (c @ serializeEntry e)"
proof -
  have v: "unat (eValueSize e) = length (eValue e)" using assms(1) by (simp add: entry_sized_def)
  show "value_slice (c @ serializeEntry e) (stored_at fid (length c) e) = eValue e"
    using serialized_value [OF assms(1), of c] value_pos_nat [OF assms]
    by (simp add: value_slice_def stored_at_def v)
  show "unat (ValuePos (stored_at fid (length c) e)) + unat (ValueSize (stored_at fid (length c) e)) \<le>
       length (c @ serializeEntry e)"
    using value_pos_nat [OF assms] assms(1) by (simp add: stored_at_def entry_sized_def)
qed

text \<open>
  The effect of \<open>store_entry\<close>: the record is appended to the active file, after a rotation perhaps,
  and the index points to it.
\<close>

definition stored :: "key \<Rightarrow> Entry \<Rightarrow> GojiDB \<Rightarrow> GojiDB \<Rightarrow> bool" where
  "stored k e db db' \<longleftrightarrow> (\<exists>db1 c. rotated db db1 \<and> db1 = rotate_for (length (serializeEntry e)) db \<and> file_of db1 (activeFileID db1) = Some c \<and>
     activeFileID db' = activeFileID db1 \<and> grows db db' \<and> dir_keeps db db' \<and> db_open db' \<and> wal_ready db' \<and>
     (\<forall>fid. file_of db' fid = (if fid = activeFileID db1 then Some (c @ serializeEntry e) else file_of db1 fid)) \<and>
     keyDir db' = cm_Set k (stored_at (activeFileID db1) (length c) e) (keyDir db) \<and>
     lru_peek (kcCache (keyCache db')) k = Some (encode_KeyDir (stored_at (activeFileID db1) (length c) e)) \<and>
     (\<forall>bk. lru_peek (bcCache (blockCache db')) bk = None) \<and>
     smart db' = smart db \<and> config db' = config db \<and> wTicks (world db) \<le> wTicks (world db'))"

lemma lru_peek_Set: "lru_inv c \<Longrightarrow> lru_peek (lru_Set t k v fid pos sz ts c) k = Some v"
  using lru.peek_store_same [of c "(t, fid, pos, sz, ts)" k v] by (simp add: lru_store_def)

lemma same_file_frame:
  "file_of (cache_put P k kd db) = file_of db" "file_of (invalidate_blocks db) = file_of db"
  "file_of (spawn_compaction db) = file_of db" "file_of (db\<lparr>keyDir := m\<rparr>) = file_of db"
  by (simp_all add: file_of_def fun_eq_iff cache_put_def db_now_eq invalidate_blocks_def spawn_compaction_def)

lemma store_entry_stored:
  assumes "writes_ok P" "db_sound P db" "wal_ready db" "entry_sized e" "room (length (serializeEntry e)) db"
  obtains db' where "store_entry P k raw e db = (Ok (), db')" "stored k e db db'" "db_sound P db'"
proof -
  note s = db_soundD [OF assms(2)]
  define data where "data = serializeEntry e"
  define db1 where "db1 = rotate_for (length data) db"
  have r: "rotated db db1" unfolding db1_def by (rule rotate_for_rotated [OF s(5)])
  have r': "db_open db1" "grows db db1" "wal_ready db1" "keyDir db1 = keyDir db" "blockCache db1 = blockCache db"
    "keyCache db1 = keyCache db" "smart db1 = smart db" "config db1 = config db"
    "wTicks (world db1) = wTicks (world db)"
    using r assms(3) unfolding rotated_def by blast+
  obtain c where c: "activeFile db1 = Some (data_name (activeFileID db1))" "file_of db1 (activeFileID db1) = Some c"
    using r'(1) by (auto simp: db_open_def)
  have sz: "active_size db1 = Ok (length c)"
    using c by (simp add: active_size_def file_size_def contents_def file_of_def)
  obtain db2 where w: "db_append P data db1 = (Ok (), db2)" "wrote P data db1 db2"
    using db_append_wrote [OF assms(1) r'(1,3)] by metis
  note w' = w(2) [unfolded wrote_def]
  obtain db3 where l: "db_wal P WALPut k raw db2 = (Ok (), db3)" "wrote P [] db2 db3"
    using db_wal_wrote [OF assms(1)] w' by metis
  note l' = l(2) [unfolded wrote_def]
  define kd where "kd = stored_at (activeFileID db1) (length c) e"
  define db4 where "db4 = db3\<lparr>keyDir := cm_Set k kd (keyDir db3)\<rparr>"
  define db' where "db' = spawn_compaction (invalidate_blocks (cache_put P k (kd\<lparr>TTL := 0\<rparr>) db4))"
  have run: "store_entry P k raw e db = (Ok (), db')"
    using l' w' sz w(1) l(1)
    by (simp add: store_entry_def Let_def stored_at_def data_def [symmetric] db1_def [symmetric] db'_def db4_def kd_def)
  have f3: "file_of db3 fid = (if fid = activeFileID db1 then Some (c @ data) else file_of db1 fid)" for fid
    using l' w' c(2) by (simp add: option.map_ident)
  have fw: "wFiles (world db') = wFiles (world db3)" "wTicks (world db') = Suc (wTicks (world db3))"
    by (simp_all add: db'_def db4_def spawn_compaction_def invalidate_blocks_def cache_put_def db_now_eq)
  have f: "file_of db' fid = (if fid = activeFileID db1 then Some (c @ data) else file_of db1 fid)" for fid
    using f3 [of fid] by (simp add: file_of_def fw)
  have fld: "activeFileID db' = activeFileID db3" "activeFile db' = activeFile db3" "wal db' = wal db3"
    "keyDir db' = cm_Set k kd (keyDir db3)" "smart db' = smart db3" "config db' = config db3"
    "bcCache (blockCache db') = lru_Clear (bcCache (blockCache db3))"
    "blockSize (blockCache db') = blockSize (blockCache db3)"
    "kcCache (keyCache db') = kcCache (SetKeyDir (clock P (wTicks (world db3))) k (kd\<lparr>TTL := 0\<rparr>) (keyCache db3))"
    by (simp_all add: db'_def db4_def spawn_compaction_def invalidate_blocks_def cache_put_def db_now_eq InvalidateFile_def)
  have old: "activeFileID db3 = activeFileID db1" "keyDir db3 = keyDir db" "blockCache db3 = blockCache db"
    "keyCache db3 = keyCache db" "smart db3 = smart db" "config db3 = config db" "db_open db3" "wal_ready db3"
    "grows db db3" "wTicks (world db) \<le> wTicks (world db3)"
    using r' w' l' by (auto intro: grows_trans)
  have o: "db_open db'" using old(7) by (simp add: db_open_def fld file_of_def fw)
  have g: "grows db db'" using old(9) by (simp add: grows_def file_of_def fw)
  have "dir_keeps db db1" "dir_keeps db1 db2" "dir_keeps db2 db3"
    using r w(2) l(2) unfolding rotated_def wrote_def by blast+
  then have "dir_keeps db db3" by (blast intro: dir_keeps_trans)
  then have dk: "dir_keeps db db'" by (simp add: dir_keeps_def fw)
  have pk: "lru_peek (kcCache (keyCache db')) k = Some (encode_KeyDir kd)"
    unfolding fld(9) SetKeyDir_def old by (simp add: lru_peek_Set [OF s(3)] encode_KeyDir_def)
  have pb: "lru_peek (bcCache (blockCache db')) bk = None" for bk
    unfolding fld(7) old by (rule lru.peek_clear [OF s(2)])
  have st: "stored k e db db'"
    unfolding stored_def
    using r db1_def c(2) f o g dk pk [unfolded kd_def] pb old(8,10)
    by (intro exI [of _ db1] exI [of _ c]) (simp add: wal_ready_def fld old fw kd_def data_def le_SucI)
  have len1: "length x + length data < 2 ^ 63" if "file_of db1 fid = Some x" for fid x
  proof -
    have "file_of db fid = Some x \<or> x = []" using that r unfolding rotated_def by (metis option.inject)
    then show ?thesis using assms(5) unfolding room_def data_def by (metis add_0 list.size(3))
  qed
  have len: "\<forall>fid x. file_of db' fid = Some x \<longrightarrow> length x < 2 ^ 63"
  proof (intro allI impI)
    fix fid x
    assume "file_of db' fid = Some x"
    then show "length x < 2 ^ 63" using len1 [OF c(2)] len1 [of fid x] by (auto simp: f split: if_splits)
  qed
  note room = len1 [OF c(2)]
  have ins: "entry_inside db' kd"
    using stored_at_slice(2) [OF assms(4) room [unfolded data_def]] f [of "activeFileID db1"]
    unfolding entry_inside_def kd_def data_def stored_at_fields by auto
  have kc: "lru_inv (kcCache (keyCache db'))"
    unfolding fld by (simp add: SetKeyDir_def old lru_Set_refines(1) [OF s(3)])
  have "db_sound P db'"
    by (rule sound_after_set [OF assms(2) g o _ ins len _ _ kc]) (simp_all add: fld old)
  with run st show thesis by (rule that)
qed

section \<open>\<open>PutWithTTL\<close>\<close>

lemma same_store_ready:
  assumes "same_store a b"
  shows "wal_ready b = wal_ready a" "room n b = room n a" "grows a b"
proof -
  have f: "file_of b = file_of a" using db_core_congs(1) assms unfolding same_store_def by blast
  have "wal b = wal a" using assms unfolding same_store_def by blast
  then show "wal_ready b = wal_ready a" "room n b = room n a" "grows a b"
    by (simp_all only: wal_ready_def room_def f) (rule grows_same, simp only: f)
qed

text \<open>The stamps a call between the times \<open>m\<close> and \<open>n\<close> may write.\<close>

definition stamp_ok :: "Platform \<Rightarrow> nat \<Rightarrow> nat \<Rightarrow> int \<Rightarrow> 32 word \<Rightarrow> bool" where
  "stamp_ok P m n ttl x \<longleftrightarrow>
     (if ttl = 0 then x = 0
      else \<exists>t. m \<le> t \<and> t < n \<and> x = unix32 (if ttl > 0 then clock P t + ttl else clock P t))"

lemma ttl_stamp_ok:
  assumes "ttl_stamp P ttl db = (x, db')"
  shows "stamp_ok P (wTicks (world db)) (wTicks (world db')) ttl x" "same_store db db'"
  using assms same_store_now [of db P]
  by (auto simp: ttl_stamp_def stamp_ok_def db_now_eq Let_def split: if_splits)

lemma stored_view:
  assumes "db_sound P db" "entry_sized e" "stored k e db db'"
    and "room (length (serializeEntry e)) db"
  shows "db_view P db' = (db_view P db)(k \<mapsto> (db_decompress P db (eValue e) (eCompression e), eTTL e))"
proof -
  obtain db1 c where s: "rotated db db1" "file_of db1 (activeFileID db1) = Some c" "grows db db'"
    "\<forall>fid. file_of db' fid = (if fid = activeFileID db1 then Some (c @ serializeEntry e) else file_of db1 fid)"
    "keyDir db' = cm_Set k (stored_at (activeFileID db1) (length c) e) (keyDir db)" "smart db' = smart db"
    using assms(3) unfolding stored_def by blast
  have d: "db_decompress P db' = db_decompress P db" using s(6) by (simp add: db_decompress_def fun_eq_iff)
  have "file_of db (activeFileID db1) = Some c \<or> c = []"
    using s(1,2) unfolding rotated_def by (metis option.inject)
  then have l: "length c + length (serializeEntry e) < 2 ^ 63"
    using assms(4) unfolding room_def by (metis add_0 list.size(3))
  have "db_value P db' (stored_at (activeFileID db1) (length c) e) = db_decompress P db (eValue e) (eCompression e)"
    using s(4) stored_at_slice(1) [OF assms(2) l] by (simp add: db_value_def d)
  then show ?thesis using view_after_set [OF assms(1) s(3) d s(5)] by simp
qed

lemma stored_room:
  assumes "stored k e db db'" "room (length (serializeEntry e) + n) db"
  shows "room n db'"
proof -
  obtain db1 c where s: "rotated db db1" "file_of db1 (activeFileID db1) = Some c"
    "\<forall>fid. file_of db' fid = (if fid = activeFileID db1 then Some (c @ serializeEntry e) else file_of db1 fid)"
    using assms(1) unfolding stored_def by blast
  have one: "length x + (length (serializeEntry e) + n) < 2 ^ 63" if "file_of db1 fid = Some x" for fid x
  proof -
    have "file_of db fid = Some x \<or> x = []" using that s(1) unfolding rotated_def by (metis option.inject)
    then show ?thesis using assms(2) unfolding room_def by (metis add_0 list.size(3))
  qed
  have "length x + n < 2 ^ 63" if "file_of db' fid = Some x" for fid x
  proof (cases "fid = activeFileID db1")
    case True
    then have "x = c @ serializeEntry e" using s(3) that by simp
    then show ?thesis using one [OF s(2)] by (simp del: length_serializeEntry)
  next
    case False
    then show ?thesis using s(3) that one [of fid x] by (simp del: length_serializeEntry)
  qed
  then show ?thesis using assms(2) unfolding room_def by (simp del: length_serializeEntry)
qed

lemma wrote_room:
  assumes "wrote P data a b" "room (length data + n) a"
  shows "room n b"
proof -
  have "length x + n < 2 ^ 63" if f: "file_of b fid = Some x" for fid x
  proof -
    obtain x0 where x0: "file_of a fid = Some x0" "x = x0 \<or> x = x0 @ data"
      using assms(1) f unfolding wrote_def by (auto split: if_splits)
    then have "length x0 + (length data + n) < 2 ^ 63" using assms(2) unfolding room_def by blast
    then show ?thesis using x0(2) by auto
  qed
  then show ?thesis using assms(2) unfolding room_def by simp
qed

text \<open>The record a successful \<open>Put\<close> has stored, and when.\<close>

definition put_trace ::
  "Platform \<Rightarrow> key \<Rightarrow> bytes \<Rightarrow> CompressionType \<Rightarrow> 32 word \<Rightarrow> GojiDB \<Rightarrow> GojiDB \<Rightarrow> bool" where
  "put_trace P k z a x db db' \<longleftrightarrow> (\<exists>db1 t. same_store db db1 \<and> wTicks (world db) \<le> t \<and> t \<le> wTicks (world db') \<and>
     stored k (mk_entry (unix32 (clock P t)) x a k z) db1 db')"

lemma put_refines:
  assumes "writes_ok P" "db_sound P db" "wal_ready db" "k \<noteq> []" "length k < 2 ^ 16"
    and "db_compress P v (bump (\<lambda>m. m\<lparr>TotalWrites := TotalWrites m + 1\<rparr>) db) = (Ok (z, a), db1)"
    and "length z < 2 ^ 32" "room (HeaderSize + length k + length z) db"
  obtains db' x where "PutWithTTL P k v ttl db = (Ok (), db')" "db_sound P db'" "wal_ready db'" "grows db db'"
    "db_view P db' = (db_view P db)(k \<mapsto> (db_decompress P db z a, x))"
    "stamp_ok P (wTicks (world db)) (wTicks (world db')) ttl x" "config db' = config db" "smart db' = smart db1"
    "\<And>n. room (HeaderSize + length k + length z + n) db \<Longrightarrow> room n db'"
    "put_trace P k z a x db db'"
proof -
  let ?db0 = "bump (\<lambda>m. m\<lparr>TotalWrites := TotalWrites m + 1\<rparr>) db"
  have s1: "same_store db db1" using same_store_trans [OF same_store_bump db_compress_frame [OF assms(6)]] .
  define db2 where "db2 = snd (db_now P db1)"
  have s2: "same_store db db2" using same_store_trans [OF s1 same_store_now] by (simp add: db2_def)
  obtain x db3 where st: "ttl_stamp P ttl db2 = (x, db3)" by (rule prod.exhaust)
  note ts = ttl_stamp_ok [OF st]
  have s3: "same_store db db3" using same_store_trans [OF s2 ts(2)] .
  let ?e = "mk_entry (unix32 (clock P (wTicks (world db1)))) x a k z"
  have sz: "entry_sized ?e" by (rule mk_entry_sized [OF assms(5,7)])
  have len: "length (serializeEntry ?e) = HeaderSize + length k + length z"
    using sz by (simp add: entry_sized_def)
  have snd3: "db_sound P db3" using same_store_sound [OF s3] assms(2) by simp
  have r3: "wal_ready db3" "room (length (serializeEntry ?e)) db3"
    unfolding len using same_store_ready [OF s3] assms(3,8) by simp_all
  obtain db' where e: "store_entry P k v ?e db3 = (Ok (), db')" "stored k ?e db3 db'" "db_sound P db'"
    using store_entry_stored [OF assms(1) snd3 r3(1) sz r3(2)] .
  have run: "PutWithTTL P k v ttl db = (Ok (), db')"
    using assms(4,6) st e(1) by (simp add: PutWithTTL_def db_wrap_def db2_def db_now_eq)
  have d3: "db_decompress P db3 = db_decompress P db" "db_view P db3 = db_view P db"
    by (rule db_core_congs(9), use s3 in \<open>unfold same_store_def, blast\<close>) (rule same_store_view [OF s3])
  have v: "db_view P db' = (db_view P db)(k \<mapsto> (db_decompress P db z a, x))"
    using stored_view [OF snd3 sz e(2) r3(2)] d3 by simp
  have e': "config db' = config db3" "smart db' = smart db3" "wTicks (world db3) \<le> wTicks (world db')" "grows db3 db'" "wal_ready db'"
    using e(2) unfolding stored_def by blast+
  have sm: "smart db3 = smart db1"
    using st by (auto simp: db2_def db_now_eq ttl_stamp_def Let_def split: if_splits)
  have "stamp_ok P (wTicks (world db)) (wTicks (world db')) ttl x"
    using ts(1) s2 e'(3) unfolding stamp_ok_def same_store_def by (meson le_trans less_le_trans)
  moreover have "grows db db'" by (rule grows_trans [OF same_store_ready(3) [OF s3] e'(4)])
  moreover have "config db' = config db" using e'(1) s3 unfolding same_store_def by simp
  moreover have "smart db' = smart db1" using e'(2) sm by simp
  moreover have "room n db'" if "room (HeaderSize + length k + length z + n) db" for n
    by (rule stored_room [OF e(2)], unfold len) (use that same_store_ready(2) [OF s3] in simp)
  moreover have "put_trace P k z a x db db'"
    unfolding put_trace_def
    by (intro exI [of _ db3] exI [of _ "wTicks (world db1)"] conjI s3 e(2))
      (use s1 s3 ts(2) e'(3) in \<open>auto simp: same_store_def db2_def db_now_eq\<close>)
  ultimately show thesis using that [OF run e(3) e'(5) _ v] by blast
qed

section \<open>Deletion\<close>

lemma mark_deleted_frame [simp, frame_simps]:
  "world (mark_deleted k e db) = world db" "wal (mark_deleted k e db) = wal db"
  "blockCache (mark_deleted k e db) = blockCache db" "keyCache (mark_deleted k e db) = keyCache db"
  "smart (mark_deleted k e db) = smart db" "config (mark_deleted k e db) = config db"
  "activeFile (mark_deleted k e db) = activeFile db" "activeFileID (mark_deleted k e db) = activeFileID db"
  "ttlManager (mark_deleted k e db) = ttlManager db"
  by (simp_all add: mark_deleted_def split: option.splits)

lemma mark_deleted_get:
  assumes "cm_inv (keyDir db)"
  shows "cm_inv (keyDir (mark_deleted k e db))"
    "cm_Get (keyDir (mark_deleted k e db)) k' =
      (if k' = k then map_option (\<lambda>kd. kd\<lparr>Deleted := True, Timestamp := eTimestamp e\<rparr>) (cm_Get (keyDir db) k)
       else cm_Get (keyDir db) k')"
  using assms by (auto simp: mark_deleted_def cm.inv_set cm.get_set split: option.splits)

text \<open>
  A state in which the record \<open>e\<close> has been appended and the index has lost \<open>k\<close>; the block cache is the old one
  or empty.
\<close>

definition erased :: "key \<Rightarrow> Entry \<Rightarrow> GojiDB \<Rightarrow> GojiDB \<Rightarrow> bool" where
  "erased k e db db' \<longleftrightarrow> grows db db' \<and> dir_keeps db db' \<and> db_open db' \<and> wal_ready db' \<and>
     keyDir db' = keyDir (mark_deleted k e db) \<and> activeFileID db' = activeFileID db \<and>
     (\<forall>fid. file_of db' fid =
        (if fid = activeFileID db then map_option (\<lambda>c. c @ serializeEntry e) (file_of db fid) else file_of db fid)) \<and>
     (bcCache (blockCache db') = bcCache (blockCache db) \<or> bcCache (blockCache db') = lru_Clear (bcCache (blockCache db))) \<and>
     blockSize (blockCache db') = blockSize (blockCache db) \<and> lru_inv (kcCache (keyCache db')) \<and>
     (smart db' = None \<longleftrightarrow> smart db = None) \<and> config db' = config db \<and>
     (\<forall>fid c. file_of db' fid = Some c \<longrightarrow> length c < 2 ^ 63) \<and> wTicks (world db) \<le> wTicks (world db')"

lemma erased_sound:
  assumes "db_sound P db" "erased k e db db'"
  shows "db_sound P db'" "db_view P db' = (db_view P db)(k := None)"
proof -
  note s = db_soundD [OF assms(1)]
  have kd: "keyDir db' = keyDir (mark_deleted k e db)" using assms(2) unfolding erased_def by blast
  have e: "grows db db'" "db_open db'" "smart db' = None \<longleftrightarrow> smart db = None"
    "bcCache (blockCache db') = bcCache (blockCache db) \<or> bcCache (blockCache db') = lru_Clear (bcCache (blockCache db))"
    "blockSize (blockCache db') = blockSize (blockCache db)" "lru_inv (kcCache (keyCache db'))"
    "\<forall>fid c. file_of db' fid = Some c \<longrightarrow> length c < 2 ^ 63"
    using assms(2) unfolding erased_def by blast+
  note m = mark_deleted_get [OF s(1), of k e]
  have l: "live db k' kd'" "k' \<noteq> k" if "live db' k' kd'" for k' kd'
    using that by (auto simp: live_def kd m(2) split: if_splits)
  have d: "db_decompress P db' = db_decompress P db" using e(3) by (auto simp: db_decompress_def fun_eq_iff)
  have ins: "entry_inside db kd'" if "live db' k' kd'" for k' kd' by (rule s(7) [OF l(1) [OF that]])
  have b: "block_ok P db' bk x" if "block_ok P db bk x" for bk x
    by (rule block_ok_grown [OF e(1) _ that]) (use l(1) ins in blast)
  have c: "lru.coherent (block_ok P db') (bcCache (blockCache db'))"
    using e(4) lru.coherent_mono [OF s(8) b] lru.coherent_clear [OF s(2)] by (elim disjE) (simp_all only:)
  have i: "lru_inv (bcCache (blockCache db'))" using e(4) s(2) lru.inv_clear [OF s(2)] by (elim disjE) (simp_all only:)
  have "entry_inside db' kd'" if "live db' k' kd'" for k' kd'
    by (rule grown_entry(1) [OF e(1) ins [OF that]])
  then show "db_sound P db'"
    unfolding db_sound_def kd using e(2,6,7) i c m(1) e(5) [unfolded s(4)] by blast
  have "db_value P db' kd' = db_value P db kd'" if "live db k' kd'" for k' kd'
    by (rule grown_entry(2) [OF e(1) s(7) [OF that] d])
  then show "db_view P db' = (db_view P db)(k := None)"
    by (auto simp: fun_eq_iff db_view_def kd m(2) live_def split: option.splits)
qed

text \<open>What \<open>tombstone\<close> returns and leaves, where compression ends.\<close>

lemma tombstone_ends:
  assumes "db_compress P TombstoneValue db = (r, db1)" "returns r"
  obtains db2 z where "tombstone P k db =
    (Ok (mk_entry (unix32 (clock P (wTicks (world db1)))) 0 (cfgCompressionType (config db)) k z), db2)"
    "same_store db db2" "smart db2 = smart db1" "z = (case r of Ok (x, _) \<Rightarrow> x | _ \<Rightarrow> [])"
proof -
  have s: "same_store db db1" by (rule db_compress_frame [OF assms(1)])
  let ?z = "case r of Ok (x, _) \<Rightarrow> x | _ \<Rightarrow> []"
  let ?db2 = "snd (db_now P db1)"
  have s2: "same_store db ?db2" by (rule same_store_trans [OF s same_store_now])
  have "config db1 = config db" using s unfolding same_store_def by blast
  then have "tombstone P k db =
      (Ok (mk_entry (unix32 (clock P (wTicks (world db1)))) 0 (cfgCompressionType (config db)) k ?z), ?db2)"
    using assms by (auto simp: tombstone_def db_now_eq Let_def returns_def split: outcome.splits)
  moreover have "smart ?db2 = smart db1" by (simp add: db_now_eq)
  ultimately show thesis by (rule that [OF _ s2 _ refl])
qed

lemma appended_lengths:
  assumes "room (length data) db" "wrote P data db db'"
  shows "\<forall>fid c. file_of db' fid = Some c \<longrightarrow> length c < 2 ^ 63"
proof (intro allI impI)
  fix fid c
  assume f: "file_of db' fid = Some c"
  then obtain c0 where "file_of db fid = Some c0" "c = c0 \<or> c = c0 @ data"
    using assms(2) unfolding wrote_def by (auto split: if_splits)
  moreover have "length c0 + length data < 2 ^ 63"
    using assms(1) calculation(1) unfolding room_def by blast
  ultimately show "length c < 2 ^ 63" by auto
qed

lemma wrote_nil_files: "wrote P [] a b \<Longrightarrow> file_of b = file_of a"
  by (auto simp: wrote_def fun_eq_iff option.map_ident)

lemma wrote_step:
  assumes "writes_ok P" "db_sound P db" "wal_ready db" "same_store db db1" "room (length data) db"
  obtains db2 where "db_append P data db1 = (Ok (), db2)" "wrote P data db1 db2" "db_sound P db1" "wal_ready db1"
    "\<forall>fid c. file_of db2 fid = Some c \<longrightarrow> length c < 2 ^ 63" "grows db db2"
proof -
  have s1: "db_sound P db1" using same_store_sound [OF assms(4)] assms(2) by simp
  have r1: "wal_ready db1" "room (length data) db1" "grows db db1"
    using same_store_ready [OF assms(4)] assms(3,5) by simp_all
  obtain db2 where w: "db_append P data db1 = (Ok (), db2)" "wrote P data db1 db2"
    using db_append_wrote [OF assms(1) db_soundD(5) [OF s1] r1(1)] .
  have "grows db1 db2" using w(2) unfolding wrote_def by blast
  then show thesis
    using that [OF w s1 r1(1) appended_lengths [OF r1(2) w(2)]] grows_trans [OF r1(3)] by blast
qed

lemma appended_dir:
  assumes "same_store db db1" "wrote P data db1 db2"
  shows "dir_keeps db db2" "activeFileID db2 = activeFileID db"
    "\<forall>fid. file_of db2 fid = (if fid = activeFileID db then map_option (\<lambda>c. c @ data) (file_of db fid) else file_of db fid)"
proof -
  have c: "db_core db1 = db_core db" using assms(1) unfolding same_store_def by blast
  have f: "file_of db1 = file_of db" by (rule db_core_congs(1) [OF c])
  have f2: "activeFileID db1 = activeFileID db" "wFiles (world db1) = wFiles (world db)"
    using c unfolding db_core_def by blast+
  have w: "dir_keeps db1 db2" "activeFileID db2 = activeFileID db1"
    "\<forall>fid. file_of db2 fid = (if fid = activeFileID db1 then map_option (\<lambda>c. c @ data) (file_of db1 fid) else file_of db1 fid)"
    using assms(2) unfolding wrote_def by blast+
  show "dir_keeps db db2" using w(1) by (simp add: dir_keeps_def f2(2))
  show "activeFileID db2 = activeFileID db" using w(2) f2(1) by simp
  show "\<forall>fid. file_of db2 fid = (if fid = activeFileID db then map_option (\<lambda>c. c @ data) (file_of db fid) else file_of db fid)"
    using w(3) unfolding f f2 .
qed

lemma deleteInternal_erases:
  assumes "writes_ok P" "db_sound P db" "wal_ready db" "live db k kd"
    and "db_compress P TombstoneValue db = (c, db0)" "returns c"
    and "tombstone P k db = (Ok e, db1)" "room (length (serializeEntry e)) db"
  obtains db' where "deleteInternal P k db = (Ok (), db')" "erased k e db db'" "smart db' = smart db0"
    "\<And>n. room (length (serializeEntry e) + n) db \<Longrightarrow> room n db'"
proof -
  obtain z where t: "same_store db db1" "smart db1 = smart db0"
    using tombstone_ends [OF assms(5,6), of k] assms(7) by (metis prod.inject)
  obtain db2 where w: "db_append P (serializeEntry e) db1 = (Ok (), db2)" "wrote P (serializeEntry e) db1 db2"
    "db_sound P db1" "wal_ready db1" "\<forall>fid c. file_of db2 fid = Some c \<longrightarrow> length c < 2 ^ 63" "grows db db2"
    using wrote_step [OF assms(1-3) t(1) assms(8)] .
  let ?db' = "mark_deleted k e db2"
  have run: "deleteInternal P k db = (Ok (), ?db')"
    using assms(4,7) w(1) by (simp add: deleteInternal_def live_def)
  have w2: "db_open db2" "wal_ready db2" "keyDir db2 = keyDir db1" "blockCache db2 = blockCache db1"
    "keyCache db2 = keyCache db1" "smart db2 = smart db1" "config db2 = config db1" "wTicks (world db1) \<le> wTicks (world db2)"
    using w(2) unfolding wrote_def by blast+
  have t2: "keyDir db1 = keyDir db" "blockCache db1 = blockCache db" "keyCache db1 = keyCache db"
    "smart db1 = None \<longleftrightarrow> smart db = None" "config db1 = config db" "wTicks (world db) \<le> wTicks (world db1)"
    using t(1) unfolding same_store_def db_core_def by blast+
  have f: "file_of ?db' = file_of db2" by (simp add: file_of_def fun_eq_iff)
  have "keyDir ?db' = keyDir (mark_deleted k e db)" by (simp add: mark_deleted_def w2(3) t2(1) split: option.splits)
  moreover have "grows db ?db'" using w(6) f by (simp add: grows_def)
  moreover have "db_open ?db'" using w2(1) by (simp add: db_open_def f)
  moreover have "wal_ready ?db'" using w2(2) by (simp add: wal_ready_def)
  moreover have "\<forall>fid c. file_of ?db' fid = Some c \<longrightarrow> length c < 2 ^ 63" unfolding f by (rule w(5))
  moreover have "lru_inv (kcCache (keyCache ?db'))" using db_soundD(3) [OF assms(2)] w2(5) t2(3) by simp
  moreover have "dir_keeps db ?db'"
    using appended_dir(1) [OF t(1) w(2)] by (simp add: dir_keeps_def)
  moreover have "activeFileID ?db' = activeFileID db" using appended_dir(2) [OF t(1) w(2)] by simp
  moreover have "\<forall>fid. file_of ?db' fid =
      (if fid = activeFileID db then map_option (\<lambda>c. c @ serializeEntry e) (file_of db fid) else file_of db fid)"
    unfolding f by (rule appended_dir(3) [OF t(1) w(2)])
  ultimately have "erased k e db ?db'"
    unfolding erased_def using w2 t2 by (intro conjI) simp_all
  moreover have "room n ?db'" if "room (length (serializeEntry e) + n) db" for n
    using wrote_room [OF w(2)] that same_store_ready(2) [OF t(1)] by (simp add: room_def f)
  ultimately show thesis using run w2(6) t(2) by (intro that [of ?db']) simp_all
qed

lemma Delete_erases:
  assumes "writes_ok P" "db_sound P db" "wal_ready db" "k \<noteq> []" "cm_Get (keyDir db) k \<noteq> None"
    and "db_compress P TombstoneValue db = (c, db0)" "returns c"
    and "tombstone P k db = (Ok e, db1)" "room (length (serializeEntry e)) db"
  obtains db' where "Delete P k db = (Ok (), db')" "erased k e db db'" "smart db' = smart db0"
    "\<And>n. room (length (serializeEntry e) + n) db \<Longrightarrow> room n db'"
proof -
  obtain z where t: "same_store db db1" "smart db1 = smart db0"
    using tombstone_ends [OF assms(6,7), of k] assms(8) by (metis prod.inject)
  obtain db2 where w: "db_append P (serializeEntry e) db1 = (Ok (), db2)" "wrote P (serializeEntry e) db1 db2"
    "db_sound P db1" "wal_ready db1" "\<forall>fid c. file_of db2 fid = Some c \<longrightarrow> length c < 2 ^ 63" "grows db db2"
    using wrote_step [OF assms(1-3) t(1) assms(9)] .
  have w2: "db_open db2" "wal_ready db2" "keyDir db2 = keyDir db1" "blockCache db2 = blockCache db1"
    "keyCache db2 = keyCache db1" "smart db2 = smart db1" "config db2 = config db1" "wTicks (world db1) \<le> wTicks (world db2)"
    using w(2) unfolding wrote_def by blast+
  obtain db3 where l: "db_wal P WALDelete k [] db2 = (Ok (), db3)" "wrote P [] db2 db3"
    using db_wal_wrote [OF assms(1) w2(2,1)] by metis
  have w3: "db_open db3" "wal_ready db3" "keyDir db3 = keyDir db2" "blockCache db3 = blockCache db2"
    "keyCache db3 = keyCache db2" "smart db3 = smart db2" "config db3 = config db2" "wTicks (world db2) \<le> wTicks (world db3)"
    using l(2) unfolding wrote_def by blast+
  have t2: "keyDir db1 = keyDir db" "blockCache db1 = blockCache db" "keyCache db1 = keyCache db"
    "smart db1 = None \<longleftrightarrow> smart db = None" "config db1 = config db" "wTicks (world db) \<le> wTicks (world db1)"
    using t(1) unfolding same_store_def db_core_def by blast+
  define db4 where "db4 = mark_deleted k e db3"
  define db' where "db' = bump (\<lambda>m. m\<lparr>TotalDeletes := TotalDeletes m + 1\<rparr>) (invalidate_blocks
    (db4\<lparr>ttlManager := map_option (tm_Remove k) (ttlManager db4), keyCache := RemoveKey k (keyCache db4)\<rparr>))"
  have run: "Delete P k db = (Ok (), db')"
    using assms(4,5,8) w(1) l(1) by (simp add: Delete_def Let_def db'_def db4_def)
  have f: "file_of db' = file_of db2"
    using wrote_nil_files [OF l(2)] by (simp add: file_of_def fun_eq_iff db'_def db4_def invalidate_blocks_def)
  have fld: "keyDir db' = keyDir (mark_deleted k e db)" "wal db' = wal db3" "activeFile db' = activeFile db3"
    "activeFileID db' = activeFileID db3" "smart db' = smart db3" "config db' = config db3"
    "bcCache (blockCache db') = lru_Clear (bcCache (blockCache db3))" "blockSize (blockCache db') = blockSize (blockCache db3)"
    "kcCache (keyCache db') = lru_Remove k (kcCache (keyCache db3))" "wTicks (world db') = wTicks (world db3)"
    by (simp_all add: db'_def db4_def invalidate_blocks_def InvalidateFile_def RemoveKey_def mark_deleted_def
        w2(3) w3(3) t2(1) split: option.splits)
  have f3: "file_of db3 = file_of db2" by (rule wrote_nil_files [OF l(2)])
  have "lru_inv (kcCache (keyCache db'))"
    unfolding fld w3 w2 t2 by (rule lru.inv_remove [OF db_soundD(3) [OF assms(2)]])
  moreover have "db_open db'" using w3(1) by (simp add: db_open_def f f3 fld)
  moreover have "wal_ready db'" using w3(2) by (simp add: wal_ready_def fld)
  moreover have "grows db db'" using w(6) by (simp add: grows_def f)
  moreover have "\<forall>fid c. file_of db' fid = Some c \<longrightarrow> length c < 2 ^ 63" unfolding f by (rule w(5))
  moreover have "dir_keeps db db'"
  proof -
    have "dir_keeps db2 db3" using l(2) unfolding wrote_def by blast
    then have "dir_keeps db db3" using appended_dir(1) [OF t(1) w(2)] by (blast intro: dir_keeps_trans)
    moreover have "wFiles (world db') = wFiles (world db3)" by (simp add: db'_def db4_def invalidate_blocks_def)
    ultimately show ?thesis by (simp add: dir_keeps_def)
  qed
  moreover have "activeFileID db' = activeFileID db"
    using appended_dir(2) [OF t(1) w(2)] l(2) unfolding fld wrote_def by simp
  moreover have "\<forall>fid. file_of db' fid =
      (if fid = activeFileID db then map_option (\<lambda>c. c @ serializeEntry e) (file_of db fid) else file_of db fid)"
    unfolding f by (rule appended_dir(3) [OF t(1) w(2)])
  ultimately have "erased k e db db'"
    unfolding erased_def using w3 w2 t2 fld by (intro conjI) simp_all
  moreover have "room n db'" if "room (length (serializeEntry e) + n) db" for n
    using wrote_room [OF w(2)] that same_store_ready(2) [OF t(1)] by (simp add: room_def f)
  ultimately show thesis using run fld(5) w3(6) w2(6) t(2) by (intro that [of db']) simp_all
qed

section \<open>The expiry of a key\<close>

text \<open>An index entry with another stamp.\<close>

lemma SetTTL_sound:
  assumes "db_sound P db" "live db k kd" "SetTTL P k ttl db = (r, db')"
  shows "r = Ok ()" "db_sound P db'"
    "\<exists>x. stamp_ok P (wTicks (world db)) (wTicks (world db')) (max 0 ttl) x \<and>
       db_view P db' = (db_view P db)(k \<mapsto> (db_value P db kd, x))"
proof -
  note s = db_soundD [OF assms(1)]
  obtain x db1 where x: "ttl_stamp P (max 0 ttl) db = (x, db1)" by (rule prod.exhaust)
  note st = ttl_stamp_ok [OF x]
  let ?kd = "kd\<lparr>TTL := x\<rparr>"
  have kd: "cm_Get (keyDir db) k = Some kd" "\<not> Deleted kd" using assms(2) by (simp_all add: live_def)
  have run: "r = Ok ()" "db' = db1\<lparr>keyDir := cm_Set k ?kd (keyDir db1)\<rparr>"
    using assms(3) x kd by (auto simp: SetTTL_def ttl_stamp_def max_def Let_def split: if_splits prod.splits)
  have s1: "db_sound P db1" using same_store_sound [OF st(2)] assms(1) by simp
  have k1: "keyDir db1 = keyDir db" "db_core db1 = db_core db" using st(2) unfolding same_store_def db_core_def by blast+
  note cong = db_core_congs [OF k1(2)]
  have f: "file_of db' = file_of db" using cong(1) by (simp add: run(2) file_of_def fun_eq_iff)
  have g: "cm_Get (keyDir db') k' = (if k' = k then Some ?kd else cm_Get (keyDir db) k')" for k'
    by (simp add: run(2) k1(1) cm.get_set [OF s(1)])
  have lv: "\<exists>kd0. live db k' kd0 \<and> FileID kd0 = FileID kd' \<and> ValuePos kd0 = ValuePos kd' \<and> ValueSize kd0 = ValueSize kd'"
    if "live db' k' kd'" for k' kd'
    using that kd by (cases "k' = k") (auto simp: live_def g)
  have ins: "entry_inside db' kd'" if "live db' k' kd'" for k' kd'
    using lv [OF that] s(7) unfolding entry_inside_def f by metis
  have b: "block_ok P db' bk y" if "block_ok P db bk y" for bk y
  proof -
    note h = that
    obtain fid off where o: "bk = generateBlockKey (sha256 P) fid off" "4096 dvd unat off"
      "\<And>k kd c d. live db k kd \<Longrightarrow> FileID kd = fid \<Longrightarrow> kd_block kd = off \<Longrightarrow> file_of db fid = Some c \<Longrightarrow>
         extractDataFromBlock y kd off = Some d \<Longrightarrow> d = value_slice c kd"
      using h unfolding block_ok_def by blast
    have "d = value_slice c kd'"
      if "live db' k' kd'" "FileID kd' = fid" "kd_block kd' = off" "file_of db' fid = Some c"
        "extractDataFromBlock y kd' off = Some d" for k' kd' c d
    proof -
      note h = that
      obtain kd0 where k0: "live db k' kd0" "FileID kd0 = FileID kd'" "ValuePos kd0 = ValuePos kd'" "ValueSize kd0 = ValueSize kd'"
        using lv [OF h(1)] by blast
      then have "d = value_slice c kd0"
        using h by (intro o(3) [OF k0(1)]) (simp_all add: kd_block_def f extractDataFromBlock_def Let_def cong: if_cong)
      then show ?thesis using k0 by (simp add: value_slice_def)
    qed
    then show ?thesis using o(1,2) unfolding block_ok_def by blast
  qed
  have bc: "bcCache (blockCache db') = bcCache (blockCache db)" "blockSize (blockCache db') = blockSize (blockCache db)"
    "keyCache db' = keyCache db" using k1(2) by (simp_all add: run(2) db_core_def)
  have "lru.coherent (block_ok P db') (bcCache (blockCache db'))"
    unfolding bc(1) by (rule lru.coherent_mono [OF s(8) b])
  moreover have "cm_inv (keyDir db')" by (simp add: run(2) k1(1) cm.inv_set s(1))
  moreover have "db_open db'"
    using s(5) k1(2) by (simp add: db_open_def f) (simp add: run(2) db_core_def)
  ultimately show "db_sound P db'"
    unfolding db_sound_def bc(2,3) f using s(2-4,6) ins bc(1) by simp
  show "r = Ok ()" by (rule run(1))
  have d: "db_decompress P db' = db_decompress P db"
    using k1(2) by (auto simp: run(2) db_decompress_def db_core_def fun_eq_iff)
  have "db_value P db' kd' = db_value P db kd'" for kd' by (simp only: db_value_def f d)
  moreover have "db_value P db ?kd = db_value P db kd" by (simp add: db_value_def value_slice_def cong: option.case_cong)
  ultimately have "db_view P db' = (db_view P db)(k \<mapsto> (db_value P db kd, x))"
    using kd by (auto simp: fun_eq_iff db_view_def g split: option.splits)
  moreover have "wTicks (world db') = wTicks (world db1)" by (simp add: run(2))
  ultimately show "\<exists>x. stamp_ok P (wTicks (world db)) (wTicks (world db')) (max 0 ttl) x \<and>
       db_view P db' = (db_view P db)(k \<mapsto> (db_value P db kd, x))"
    using st(1) by auto
qed

end
