(* ===== verification/Transaction.thy ===== *)
theory Transaction
  imports Engine
begin

text \<open>
  \<open>transaction.go\<close>: operations are collected and applied one by one by \<open>Commit\<close>, after they have
  been written to the log as a begin, the operations and a commit. A failing operation ends
  \<open>Commit\<close> with the earlier ones applied.
\<close>

text \<open>The identifier is random; it is an argument of \<open>BeginTransaction\<close>.\<close>

record Transaction =
  txId :: key
  operations :: "TransactionOp list"

definition hex_digit :: "nat \<Rightarrow> byte" where
  "hex_digit d = (if d < 10 then 48 + of_nat d else 87 + of_nat d)"

definition hex_encode :: "bytes \<Rightarrow> bytes" where
  "hex_encode bs = concat (map (\<lambda>b. [hex_digit (unat b div 16), hex_digit (unat b mod 16)]) bs)"

definition BeginTransaction :: "bytes \<Rightarrow> Transaction" where
  "BeginTransaction rnd = \<lparr>txId = hex_encode rnd, operations = []\<rparr>"

definition tx_Put :: "key \<Rightarrow> bytes \<Rightarrow> Transaction \<Rightarrow> Transaction" where
  "tx_Put k v tx =
     tx\<lparr>operations := operations tx @ [\<lparr>opType = str ''PUT'', opKey = k, opValue = v\<rparr>]\<rparr>"

definition tx_Delete :: "key \<Rightarrow> Transaction \<Rightarrow> Transaction" where
  "tx_Delete k tx =
     tx\<lparr>operations := operations tx @ [\<lparr>opType = str ''DELETE'', opKey = k, opValue = []\<rparr>]\<rparr>"

text \<open>A read goes to the database and does not see the transaction's own writes.\<close>

definition tx_Get :: "Platform \<Rightarrow> key \<Rightarrow> Transaction \<Rightarrow> GojiDB \<Rightarrow> bytes result" where
  "tx_Get P k tx db = Get P k db"

fun apply_ops :: "Platform \<Rightarrow> TransactionOp list \<Rightarrow> GojiDB \<Rightarrow> unit result" where
  "apply_ops P [] db = (Ok (), db)"
| "apply_ops P (op # ops) db =
     db_then (if opType op = str ''PUT'' then db_wrap ''PUT'' (Put P (opKey op) (opValue op) db)
              else if opType op = str ''DELETE''
              then (case Delete P (opKey op) db of (Err _, db1) \<Rightarrow> (Ok (), db1) | x \<Rightarrow> x)
              else (Ok (), db)) (\<lambda>_ db1. apply_ops P ops db1)"

definition with_wal ::
  "string \<Rightarrow> (WALManager \<Rightarrow> World \<Rightarrow> unit outcome \<times> WALManager \<times> World) \<Rightarrow> GojiDB \<Rightarrow> unit result" where
  "with_wal m f db =
     (case wal db of
        None \<Rightarrow> (Ok (), db)
      | Some x \<Rightarrow> let (r, x1, w1) = f x (world db)
                 in (map_err (Wrapped m) r, db\<lparr>wal := Some x1, world := w1\<rparr>))"

text \<open>The closing record carries the transaction in its key and no transaction id.\<close>

definition tx_mark :: "Transaction \<Rightarrow> key" where
  "tx_mark tx = str ''tx_'' @ txId tx"

definition Commit :: "Platform \<Rightarrow> Transaction \<Rightarrow> GojiDB \<Rightarrow> Transaction outcome \<times> GojiDB" where
  "Commit P tx db =
     db_then (with_wal ''transaction WAL write'' (WriteTransaction P (txId tx) (operations tx)) db) (\<lambda>_ db1.
     db_then (apply_ops P (operations tx) db1) (\<lambda>_ db2.
     db_then (with_wal ''transaction commit WAL write'' (wal_log P WALCommit (tx_mark tx) [] []) db2) (\<lambda>_ db3.
       (Ok (tx\<lparr>operations := []\<rparr>), db3))))"

definition Rollback :: "Platform \<Rightarrow> Transaction \<Rightarrow> GojiDB \<Rightarrow> Transaction outcome \<times> GojiDB" where
  "Rollback P tx db =
     db_then (with_wal ''transaction rollback WAL write'' (wal_log P WALRollback (tx_mark tx) [] []) db)
       (\<lambda>_ db1. (Ok (tx\<lparr>operations := []\<rparr>), db1))"

end
