(* ===== verification/Startup.thy ===== *)
theory Startup
  imports Engine
begin

text \<open>
  Opening a database (\<open>NewGojiDB\<close>, \<open>rebuildKeyDir\<close>, \<open>processFile\<close> in \<open>db.go\<close>) and replaying the log
  (\<open>Recover\<close>, \<open>replayTransactions\<close> in \<open>wal.go\<close>). The index is rebuilt from the data files before
  the smart compressor exists, so the rebuild decodes with the plain codecs.
\<close>

section \<open>Rebuilding the index\<close>

definition parseFileID :: "bytes \<Rightarrow> 32 word outcome" where
  "parseFileID f = parse_uint32 (trim_suffix f DataSuffix)"

text \<open>
  One record of a data file: it replaces the index entry unless that is newer. A value that
  does not decode counts as no tombstone.
\<close>

definition is_tombstone :: "Platform \<Rightarrow> GojiDB \<Rightarrow> Entry \<Rightarrow> bool" where
  "is_tombstone P db e \<longleftrightarrow> db_decompress P db (eValue e) (eCompression e) = Ok TombstoneValue"

definition index_entry :: "32 word \<Rightarrow> int \<Rightarrow> bool \<Rightarrow> Entry \<Rightarrow> KeyDir" where
  "index_entry fid off dead e =
     \<lparr>FileID = fid, ValueSize = eValueSize e, ValuePos = value_pos off e, Timestamp = eTimestamp e,
      TTL = eTTL e, Compression = eCompression e, Deleted = dead\<rparr>"

definition apply_entry :: "Platform \<Rightarrow> 32 word \<Rightarrow> int \<Rightarrow> Entry \<Rightarrow> GojiDB \<Rightarrow> GojiDB" where
  "apply_entry P fid off e db =
     (if \<not> verifyCRC e then db
      else if (case cm_Get (keyDir db) (eKey e) of None \<Rightarrow> True | Some old \<Rightarrow> eTimestamp e \<ge> Timestamp old)
      then db\<lparr>keyDir := cm_Set (eKey e) (index_entry fid off (is_tombstone P db e) e) (keyDir db)\<rparr>
      else db)"

lemma readEntry_shorter:
  assumes "readEntry r = (res, r1)" "res \<noteq> Err EOF"
  shows "length r1 < length r"
  using assms readEntry_progress [OF assms(1)] by (cases "r = []") auto

text \<open>
  The loop over a file: \<open>r\<close> is what the reader still holds, \<open>off\<close> the running offset. A read error
  other than the end of file reports zero bytes and leaves the offset.
\<close>

function process_entries :: "Platform \<Rightarrow> 32 word \<Rightarrow> bytes \<Rightarrow> int \<Rightarrow> GojiDB \<Rightarrow> GojiDB" where
  "process_entries P fid r off db =
     (case readEntry r of
        (Ok (e, sz), r1) \<Rightarrow> process_entries P fid r1 (off + int sz) (apply_entry P fid off e db)
      | (Err EOF, r1) \<Rightarrow> db
      | (Err x, r1) \<Rightarrow> process_entries P fid r1 off db
      | (Panic, r1) \<Rightarrow> db
      | (Blocked, r1) \<Rightarrow> db)"
  by pat_completeness auto

termination
  by (relation "measure (\<lambda>(P, fid, r, off, db). length r)") (auto dest: readEntry_shorter [OF sym])

declare process_entries.simps [simp del]

text \<open>A decoder that panics would end the program; the plain codecs do not.\<close>

definition processFile :: "Platform \<Rightarrow> bytes \<Rightarrow> GojiDB \<Rightarrow> GojiDB" where
  "processFile P f db =
     (case parseFileID f of
        Ok fid \<Rightarrow> process_entries P fid (db_file f db) 0 db
      | _ \<Rightarrow> db)"

definition max_file_id :: "bytes list \<Rightarrow> 32 word" where
  "max_file_id fs =
     fold (\<lambda>f m. case parseFileID f of Ok fid \<Rightarrow> if fid > m then fid else m | _ \<Rightarrow> m) fs 0"

text \<open>By number where both names have one, else by name.\<close>

definition file_less :: "bytes \<Rightarrow> bytes \<Rightarrow> bool" where
  "file_less f g =
     (case (parseFileID f, parseFileID g) of (Ok a, Ok b) \<Rightarrow> a < b | _ \<Rightarrow> f < g)"

definition rebuildKeyDir :: "Platform \<Rightarrow> GojiDB \<Rightarrow> GojiDB" where
  "rebuildKeyDir P db =
     (let files = glob_data (wFiles (world db))
      in if files = [] then db\<lparr>activeFileID := 1\<rparr>
         else fold (processFile P) (sort_slice file_less files)
                (db\<lparr>activeFileID := max_file_id files\<rparr>))"

section \<open>Recovery\<close>

fun replay_ops :: "Platform \<Rightarrow> TransactionOp list \<Rightarrow> GojiDB \<Rightarrow> unit result" where
  "replay_ops P [] db = (Ok (), db)"
| "replay_ops P (op # ops) db =
     db_then (case (if opType op = str ''PUT'' then Put P (opKey op) (opValue op) db
                    else if opType op = str ''DELETE'' then Delete P (opKey op) db
                    else (Ok (), db)) of
                (Err _, db1) \<Rightarrow> (Ok (), db1)
              | x \<Rightarrow> x) (\<lambda>_ db1. replay_ops P ops db1)"

fun replayTransactions :: "Platform \<Rightarrow> (key \<times> WALRecord list) list \<Rightarrow> GojiDB \<Rightarrow> unit result" where
  "replayTransactions P [] db = (Ok (), db)"
| "replayTransactions P ((tx, recs) # txs) db =
     db_then (if tx_replayable recs then replay_ops P (tx_operations recs) db else (Ok (), db))
       (\<lambda>_ db1. replayTransactions P txs db1)"

text \<open>\<open>Recover\<close> reads the whole file, then replays the transactions in the order of the map.\<close>

definition Recover :: "Platform \<Rightarrow> GojiDB \<Rightarrow> unit result" where
  "Recover P db =
     (case wal db of
        None \<Rightarrow> (Ok (), db)
      | Some m \<Rightarrow>
          if \<not> EnableWAL (walConfig m) then (Ok (), db)
          else (case map_of (wFiles (world db)) WalName of
                 None \<Rightarrow> (Ok (), db)
               | Some c \<Rightarrow>
                   (case read_log P c of
                      Ok recs \<Rightarrow>
                        db_then (replayTransactions P
                                   (visit P (wTicks (world db)) (group_records recs)) db) (\<lambda>_ db1.
                          (Ok (), db1\<lparr>wal := map_option
                             (wal_stat (\<lambda>s. s\<lparr>RecoveryCount := RecoveryCount s + 1\<rparr>)) (wal db1)\<rparr>))
                    | Err e \<Rightarrow> (Err e, db)
                    | Panic \<Rightarrow> (Panic, db)
                    | Blocked \<Rightarrow> (Blocked, db))))"

section \<open>Opening\<close>

definition zero_metrics :: "instant \<Rightarrow> Metrics" where
  "zero_metrics t =
     \<lparr>TotalWrites = 0, TotalReads = 0, TotalDeletes = 0, KeyCount = 0, DataSize = 0,
      CompressionRatio = 0, CacheHits = 0, CacheMisses = 0, ExpiredKeyCount = 0,
      CompactionCount = 0, StartTime = t\<rparr>"

definition empty_db :: "Platform \<Rightarrow> GojiDBConfig \<Rightarrow> World \<Rightarrow> GojiDB" where
  "empty_db P cfg w =
     (let c = cfgCache cfg; (t, w1) = read_clock P w
      in \<lparr>config = cfg, keyDir = NewConcurrentMap 16, activeFile = None, readFiles = [],
          activeFileID = 0, metrics = zero_metrics t, ttlManager = None,
          blockCache = NewBlockCache (if cacheEnabled c then BlockCacheSize c else 0) 4096,
          keyCache = NewKeyCache (if cacheEnabled c then KeyCacheSize c else 0),
          smart = None, wal = None, dbClosed = False, pending = [], world = w1\<rparr>)"

definition attach_smart :: "Platform \<Rightarrow> GojiDB \<Rightarrow> GojiDB" where
  "attach_smart P db =
     (case cfgSmart (config db) of
        None \<Rightarrow> db
      | Some c \<Rightarrow> let (sc, w) = NewSmartCompressor P c (world db) in db\<lparr>smart := Some sc, world := w\<rparr>)"

definition attach_wal :: "Platform \<Rightarrow> GojiDB \<Rightarrow> unit result" where
  "attach_wal P db =
     (if \<not> EnableWAL (config db) then (Ok (), db)
      else let (r, w) = NewWALManager P (config db) (world db); db1 = db\<lparr>world := w\<rparr>
           in case r of
                Ok m \<Rightarrow> db_wrap ''WAL recovery'' (Recover P (db1\<lparr>wal := Some m\<rparr>))
              | Err e \<Rightarrow> (Err e, db1)
              | Panic \<Rightarrow> (Panic, db1)
              | Blocked \<Rightarrow> (Blocked, db1))"

text \<open>The database is returned only with \<open>Ok\<close>; the state of a failed call is what it left.\<close>

definition NewGojiDB :: "Platform \<Rightarrow> GojiDBConfig \<Rightarrow> World \<Rightarrow> unit result" where
  "NewGojiDB P cfg w =
     (let db1 = openActiveFile (rebuildKeyDir P (empty_db P cfg w));
          db2 = (if EnableTTL cfg then db1\<lparr>ttlManager := Some NewTTLManager\<rparr> else db1)
      in attach_wal P (attach_smart P db2))"

end
