(* ===== verification/StoreSpec.thy ===== *)
theory StoreSpec
  imports PutSpec Transaction Startup
begin

text \<open>
  The key-value interface that transactions and recovery rely on, the engine with the plain codecs
  as a model of it, and the sequences of operations the two run.
\<close>

section \<open>Operations of a transaction\<close>

type_synonym view = "key \<Rightarrow> (bytes outcome \<times> 32 word) option"

definition op_effect :: "TransactionOp \<Rightarrow> view \<Rightarrow> view" where
  "op_effect op m =
     (if opType op = str ''PUT'' then m(opKey op \<mapsto> (Ok (opValue op), 0))
      else if opType op = str ''DELETE'' then m(opKey op := None) else m)"

lemma put_is_not_delete [simp]: "str ''DELETE'' \<noteq> str ''PUT''" "str ''PUT'' \<noteq> str ''DELETE''"
  by (simp_all add: str_def)

section \<open>The interface\<close>

text \<open>
  \<open>ready n s\<close>: the store works and has room for \<open>n\<close> bytes more. Deleting an absent key may fail,
  with no effect.
\<close>

locale kv_store =
  fixes ready :: "nat \<Rightarrow> 's \<Rightarrow> bool"
    and put :: "key \<Rightarrow> bytes \<Rightarrow> 's \<Rightarrow> unit outcome \<times> 's"
    and del :: "key \<Rightarrow> 's \<Rightarrow> unit outcome \<times> 's"
    and view_of :: "'s \<Rightarrow> view"
    and fits :: "key \<Rightarrow> bytes \<Rightarrow> bool"
    and put_cost :: "key \<Rightarrow> bytes \<Rightarrow> nat"
    and del_cost :: "key \<Rightarrow> nat"
  assumes put_ok: "fits k v \<Longrightarrow> ready (put_cost k v + n) s \<Longrightarrow>
      \<exists>s'. put k v s = (Ok (), s') \<and> ready n s' \<and> view_of s' = (view_of s)(k \<mapsto> (Ok v, 0))"
    and del_ok: "k \<noteq> [] \<Longrightarrow> ready (del_cost k + n) s \<Longrightarrow>
      \<exists>r s'. del k s = (r, s') \<and> (r = Ok () \<or> (\<exists>e. r = Err e)) \<and> ready n s' \<and> view_of s' = (view_of s)(k := None)"
    and ready_less: "ready (m + n) s \<Longrightarrow> ready n s"
begin

definition admissible :: "TransactionOp \<Rightarrow> bool" where
  "admissible op \<longleftrightarrow>
     (opType op = str ''PUT'' \<longrightarrow> fits (opKey op) (opValue op)) \<and>
     (opType op = str ''DELETE'' \<longrightarrow> opKey op \<noteq> [])"

definition op_cost :: "TransactionOp \<Rightarrow> nat" where
  "op_cost op =
     (if opType op = str ''PUT'' then put_cost (opKey op) (opValue op)
      else if opType op = str ''DELETE'' then del_cost (opKey op) else 0)"

lemma step_put:
  assumes "admissible op" "ready (op_cost op + n) s" "opType op = str ''PUT''"
  obtains s' where "put (opKey op) (opValue op) s = (Ok (), s')" "ready n s'" "view_of s' = op_effect op (view_of s)"
  using put_ok [of "opKey op" "opValue op" n s] assms by (auto simp: admissible_def op_cost_def op_effect_def)

lemma step_delete:
  assumes "admissible op" "ready (op_cost op + n) s" "opType op = str ''DELETE''"
  obtains r s' where "del (opKey op) s = (r, s')" "r = Ok () \<or> (\<exists>e. r = Err e)" "ready n s'"
    "view_of s' = op_effect op (view_of s)"
  using del_ok [of "opKey op" n s] assms by (auto simp: admissible_def op_cost_def op_effect_def)

text \<open>A runner that does what the interface says at every operation carries the effects through.\<close>

lemma run_effects:
  assumes "\<And>s. run [] s = (Ok (), s)"
    and "\<And>op ops s s'. step op s = (Ok (), s') \<Longrightarrow> run (op # ops) s = run ops s'"
    and "\<And>op n s. admissible op \<Longrightarrow> ready (op_cost op + n) s \<Longrightarrow>
      \<exists>s'. step op s = (Ok (), s') \<and> ready n s' \<and> view_of s' = op_effect op (view_of s)"
    and "\<forall>op \<in> set ops. admissible op" "ready (sum_list (map op_cost ops) + n) s"
  shows "\<exists>s'. run ops s = (Ok (), s') \<and> ready n s' \<and> view_of s' = fold op_effect ops (view_of s)"
  using assms(4,5)
proof (induction ops arbitrary: s)
  case Nil
  then show ?case by (simp add: assms(1))
next
  case (Cons op ops)
  then obtain s1 where s1: "step op s = (Ok (), s1)" "ready (sum_list (map op_cost ops) + n) s1"
    "view_of s1 = op_effect op (view_of s)"
    using assms(3) [of op "sum_list (map op_cost ops) + n" s] by (auto simp: add.assoc)
  then show ?case using Cons.IH [of s1] Cons.prems(1) by (simp add: assms(2) [OF s1(1)])
qed

end

section \<open>The engine with the plain codecs\<close>

definition pack :: "Platform \<Rightarrow> GojiDBConfig \<Rightarrow> bytes \<Rightarrow> bytes \<times> CompressionType" where
  "pack P cfg v =
     (if v = [] \<or> cfgCompressionType cfg = NoCompression then (v, NoCompression)
      else performStandardCompress P (cfgCompressionType cfg) v)"

lemma unpack: "codec_ok P \<Longrightarrow> decompressChunk P (fst (pack P cfg v)) (snd (pack P cfg v)) = Ok v"
  by (simp add: pack_def performStandardCompress_def decompressChunk_def codec_ok_def of_option_def)

lemma db_compress_plain:
  assumes "smart db = None"
  obtains db' where "db_compress P v db = (Ok (pack P (config db) v), db')" "smart db' = None"
proof -
  obtain z a where "performStandardCompress P (cfgCompressionType (config db)) v = (z, a)" by (rule prod.exhaust)
  then show thesis
    using that assms by (cases "v = [] \<or> cfgCompressionType (config db) = 0")
      (auto simp: db_compress_def pack_def standardCompress_def)
qed

definition plain_ready :: "Platform \<Rightarrow> GojiDBConfig \<Rightarrow> nat \<Rightarrow> GojiDB \<Rightarrow> bool" where
  "plain_ready P cfg n db \<longleftrightarrow> writes_ok P \<and> db_sound P db \<and> wal_ready db \<and> room n db \<and> smart db = None \<and> config db = cfg"

definition plain_fits :: "Platform \<Rightarrow> GojiDBConfig \<Rightarrow> key \<Rightarrow> bytes \<Rightarrow> bool" where
  "plain_fits P cfg k v \<longleftrightarrow> codec_ok P \<and> k \<noteq> [] \<and> length k < 2 ^ 16 \<and> length (fst (pack P cfg v)) < 2 ^ 32"

definition put_cost :: "Platform \<Rightarrow> GojiDBConfig \<Rightarrow> key \<Rightarrow> bytes \<Rightarrow> nat" where
  "put_cost P cfg k v = HeaderSize + length k + length (fst (pack P cfg v))"

lemma room_less: "room (m + n) db \<Longrightarrow> room n db"
  unfolding room_def by (meson add_leD2 add_le_mono1 le_add2 le_less_trans nat_add_left_cancel_le)

lemma plain_PutWithTTL:
  assumes "plain_fits P cfg k v" "plain_ready P cfg (put_cost P cfg k v + n) db"
  obtains db' x where "PutWithTTL P k v ttl db = (Ok (), db')" "plain_ready P cfg n db'"
    "db_view P db' = (db_view P db)(k \<mapsto> (Ok v, x))" "stamp_ok P (wTicks (world db)) (wTicks (world db')) ttl x"
    "put_trace P k (fst (pack P cfg v)) (snd (pack P cfg v)) x db db'"
proof -
  let ?b = "bump (\<lambda>m. m\<lparr>TotalWrites := TotalWrites m + 1\<rparr>) db"
  have r: "db_sound P db" "wal_ready db" "room (put_cost P cfg k v + n) db" "smart db = None" "config db = cfg" "writes_ok P"
    using assms(2) by (simp_all add: plain_ready_def)
  obtain db1 where c: "db_compress P v ?b = (Ok (pack P cfg v), db1)" "smart db1 = None"
    using db_compress_plain [of ?b P v] r(4,5) by auto
  obtain z a where p: "pack P cfg v = (z, a)" by (rule prod.exhaust)
  have f: "k \<noteq> []" "length k < 2 ^ 16" "length z < 2 ^ 32" "codec_ok P"
    using assms(1) by (simp_all add: plain_fits_def p)
  have rm: "room (HeaderSize + length k + length z + n) db" using r(3) by (simp add: put_cost_def p)
  then have rm0: "room (HeaderSize + length k + length z) db"
    using room_less [of n] by (simp add: add.commute)
  have u: "db_decompress P db z a = Ok v"
    using unpack [OF f(4), of cfg v] r(4) by (simp add: p db_decompress_def)
  from put_refines [OF r(6,1,2) f(1,2) c(1) [unfolded p] f(3) rm0, of ttl]
  obtain db' x where "PutWithTTL P k v ttl db = (Ok (), db')" "db_sound P db'" "wal_ready db'"
    "db_view P db' = (db_view P db)(k \<mapsto> (db_decompress P db z a, x))" "config db' = config db" "smart db' = smart db1"
    "stamp_ok P (wTicks (world db)) (wTicks (world db')) ttl x" "room n db'"
    "put_trace P k z a x db db'"
    using rm by metis
  then show thesis using that c(2) r(5,6) by (simp add: plain_ready_def u p)
qed

definition del_cost :: "Platform \<Rightarrow> GojiDBConfig \<Rightarrow> key \<Rightarrow> nat" where
  "del_cost P cfg k = HeaderSize + length k + length (fst (pack P cfg TombstoneValue))"

lemma tombstone_length:
  "length (serializeEntry (mk_entry ts ttl a k z)) \<le> HeaderSize + length k + length z"
  by (simp add: add_mono unat_of_nat)

lemma room_le: "room n db \<Longrightarrow> m \<le> n \<Longrightarrow> room m db"
  using room_less [of "n - m" m] by simp

lemma plain_tombstone:
  assumes "smart db = None"
  obtains e db1 db0 where "db_compress P TombstoneValue db = (Ok (pack P (config db) TombstoneValue), db0)"
    "smart db0 = None" "tombstone P k db = (Ok e, db1)"
    "e = mk_entry (unix32 (clock P (wTicks (world db)))) 0 (cfgCompressionType (config db)) k
           (fst (pack P (config db) TombstoneValue))"
    "length (serializeEntry e) \<le> del_cost P (config db) k"
proof -
  obtain db0 where c: "db_compress P TombstoneValue db = (Ok (pack P (config db) TombstoneValue), db0)" "smart db0 = None"
    by (rule db_compress_plain [OF assms])
  have w: "world db0 = world db"
    using c assms by (auto simp: db_compress_def standardCompress_def split: if_splits prod.splits)
  obtain db2 where t: "tombstone P k db = (Ok (mk_entry (unix32 (clock P (wTicks (world db0)))) 0 (cfgCompressionType (config db)) k
      (case Ok (pack P (config db) TombstoneValue) of Ok (x, _) \<Rightarrow> x | _ \<Rightarrow> [])), db2)"
    using tombstone_ends [OF c(1), of k] by (metis returns_simps(1))
  have "(case Ok (pack P (config db) TombstoneValue) of Ok (x, _) \<Rightarrow> x | _ \<Rightarrow> []) = fst (pack P (config db) TombstoneValue)"
    by (simp split: prod.splits)
  note t' = t [unfolded this w]
  show thesis by (rule that [OF c t' refl]) (simp only: del_cost_def tombstone_length)
qed

lemma plain_Delete:
  assumes "k \<noteq> []" "plain_ready P cfg (del_cost P cfg k + n) db"
  obtains r db' where "Delete P k db = (r, db')" "plain_ready P cfg n db'"
    "db_view P db' = (db_view P db)(k := None)" "r = (if cm_Get (keyDir db) k = None then Err KeyNotFound else Ok ())"
    "cm_Get (keyDir db) k = None \<longrightarrow> db' = db"
    "cm_Get (keyDir db) k \<noteq> None \<longrightarrow> erased k (mk_entry (unix32 (clock P (wTicks (world db)))) 0 (cfgCompressionType cfg) k
       (fst (pack P cfg TombstoneValue))) db db'"
proof (cases "cm_Get (keyDir db) k = None")
  case True
  then have "Delete P k db = (Err KeyNotFound, db)" using assms(1) by (simp add: Delete_def)
  moreover have "plain_ready P cfg n db" using assms(2) room_less by (auto simp: plain_ready_def)
  moreover have "db_view P db = (db_view P db)(k := None)" using True by (simp add: fun_eq_iff db_view_def)
  ultimately show thesis using True that by simp
next
  case False
  have r: "db_sound P db" "wal_ready db" "room (del_cost P cfg k + n) db" "smart db = None" "config db = cfg" "writes_ok P"
    using assms(2) by (simp_all add: plain_ready_def)
  obtain e db1 db0 where t: "db_compress P TombstoneValue db = (Ok (pack P cfg TombstoneValue), db0)"
    "smart db0 = None" "tombstone P k db = (Ok e, db1)" "length (serializeEntry e) \<le> del_cost P cfg k"
    "e = mk_entry (unix32 (clock P (wTicks (world db)))) 0 (cfgCompressionType cfg) k (fst (pack P cfg TombstoneValue))"
    using plain_tombstone [OF r(4), of P k] r(5) by metis
  have rm: "room (length (serializeEntry e) + n) db" "room (length (serializeEntry e)) db"
    using room_le [OF r(3)] t(4) by simp_all
  obtain db' where d: "Delete P k db = (Ok (), db')" "erased k e db db'" "smart db' = smart db0"
    "\<And>n. room (length (serializeEntry e) + n) db \<Longrightarrow> room n db'"
    using Delete_erases [OF r(6,1,2) assms(1) False t(1) returns_simps(1) t(3) rm(2)] by metis
  note s = erased_sound [OF r(1) d(2)]
  have "wal_ready db'" "config db' = config db" using d(2) unfolding erased_def by blast+
  then have "plain_ready P cfg n db'" using s(1) d(3,4) t(2) r(5,6) rm(1) by (simp add: plain_ready_def)
  then show thesis using that [OF d(1) _ s(2)] False d(2) t(5) by simp
qed


interpretation plain: kv_store "plain_ready P cfg" "Put P" "Delete P" "db_view P" "plain_fits P cfg"
  "put_cost P cfg" "del_cost P cfg"
  for P cfg
proof unfold_locales
  show "\<exists>s'. Put P k v s = (Ok (), s') \<and> plain_ready P cfg n s' \<and> db_view P s' = (db_view P s)(k \<mapsto> (Ok v, 0))"
    if "plain_fits P cfg k v" "plain_ready P cfg (put_cost P cfg k v + n) s" for k v n s
    using plain_PutWithTTL [OF that, of 0]
    by (auto simp: Put_def stamp_ok_def)
  show "\<exists>r s'. Delete P k s = (r, s') \<and> (r = Ok () \<or> (\<exists>e. r = Err e)) \<and> plain_ready P cfg n s' \<and>
      db_view P s' = (db_view P s)(k := None)"
    if "k \<noteq> []" "plain_ready P cfg (del_cost P cfg k + n) s" for k n s
    using plain_Delete [OF that] by metis
  show "plain_ready P cfg n s" if "plain_ready P cfg (m + n) s" for m n s
    using that room_less unfolding plain_ready_def by blast
qed

section \<open>Sequences of operations\<close>

lemma apply_ops_effects:
  assumes "\<forall>op \<in> set ops. plain.admissible P cfg op"
    and "plain_ready P cfg (sum_list (map (plain.op_cost P cfg) ops) + n) db"
  obtains db' where "apply_ops P ops db = (Ok (), db')" "plain_ready P cfg n db'"
    "db_view P db' = fold op_effect ops (db_view P db)"
proof -
  let ?step = "\<lambda>op db. if opType op = str ''PUT'' then db_wrap ''PUT'' (Put P (opKey op) (opValue op) db)
      else if opType op = str ''DELETE''
      then (case Delete P (opKey op) db of (Err _, db1) \<Rightarrow> (Ok (), db1) | x \<Rightarrow> x) else (Ok (), db)"
  have step: "\<exists>s'. ?step op s = (Ok (), s') \<and> plain_ready P cfg n s' \<and> db_view P s' = op_effect op (db_view P s)"
    if a: "plain.admissible P cfg op" "plain_ready P cfg (plain.op_cost P cfg op + n) s" for op n s
  proof -
    consider "opType op = str ''PUT''" | "opType op = str ''DELETE''"
      | "opType op \<noteq> str ''PUT''" "opType op \<noteq> str ''DELETE''" by blast
    then show ?thesis
    proof cases
      case 1
      obtain s' where "Put P (opKey op) (opValue op) s = (Ok (), s')" "plain_ready P cfg n s'"
        "db_view P s' = op_effect op (db_view P s)"
        by (rule plain.step_put [OF a 1])
      then show ?thesis using 1 by (simp add: db_wrap_def)
    next
      case 2
      obtain r s' where "Delete P (opKey op) s = (r, s')" "r = Ok () \<or> (\<exists>e. r = Err e)" "plain_ready P cfg n s'"
        "db_view P s' = op_effect op (db_view P s)"
        by (rule plain.step_delete [OF a 2])
      then show ?thesis using 2 by (elim disjE exE) simp_all
    next
      case 3
      then show ?thesis using a(2) by (simp add: plain.op_cost_def op_effect_def)
    qed
  qed
  have "\<exists>s'. apply_ops P ops db = (Ok (), s') \<and> plain_ready P cfg n s' \<and> db_view P s' = fold op_effect ops (db_view P db)"
    by (rule plain.run_effects [OF _ _ step assms]) simp_all
  then show thesis using that by blast
qed


section \<open>\<open>Commit\<close>\<close>

lemma with_wal_wrote:
  assumes "wal_ready db" "db_open db"
    and "\<And>m w. wal db = Some m \<Longrightarrow> wal_open m \<Longrightarrow> \<exists>Q. logs P Q m w (f m w)"
  obtains db' where "with_wal s f db = (Ok (), db')" "wrote P [] db db'"
proof (cases "wal db")
  case None
  then show thesis
    using assms(1,2) by (intro that [of db]) (auto simp: with_wal_def wrote_def wal_ready_def dir_keeps_same intro: option.map_ident [symmetric])
next
  case (Some m)
  then have m: "wal_open m" using assms(1) by (simp add: wal_ready_def)
  obtain rs where l: "wal_extends rs m (world db) (f m (world db))"
    using assms(3) [OF Some m] by (auto simp: logs_def)
  then obtain m1 w1 where w: "f m (world db) = (Ok (), m1, w1)"
    by (cases "f m (world db)") (auto simp: wal_extends_def)
  note x = l [unfolded w wal_extends_def fst_conv snd_conv]
  let ?db' = "db\<lparr>wal := Some m1, world := w1\<rparr>"
  have f: "file_of ?db' fid = file_of db fid" for fid using x by (simp add: file_of_def)
  moreover have "dir_keeps db ?db'" using x by (simp add: dir_keeps_def)
  ultimately have "wrote P [] db ?db'"
    using x assms(2) f by (simp add: wrote_def grows_same wal_ready_def db_open_def option.map_ident)
  then show thesis by (intro that [of ?db']) (simp_all add: with_wal_def Some w)
qed

lemma wrote_nil_ready:
  assumes "wrote P [] a b" "plain_ready P cfg n a"
  shows "plain_ready P cfg n b" "db_view P b = db_view P a"
proof -
  have f: "file_of b = file_of a" by (rule wrote_nil_files [OF assms(1)])
  have w: "db_open b" "wal_ready b" "keyDir b = keyDir a" "blockCache b = blockCache a" "keyCache b = keyCache a"
    "smart b = smart a" "config b = config a" using assms(1) unfolding wrote_def by blast+
  have l: "live b = live a" by (simp add: live_def w fun_eq_iff)
  have e: "entry_inside b = entry_inside a" by (simp add: entry_inside_def f fun_eq_iff)
  have k: "block_ok P b = block_ok P a" by (simp add: block_ok_def f l fun_eq_iff)
  have "db_sound P b = (db_sound P a \<and> db_open b)" if "db_open a"
    using that w(1) by (simp add: db_sound_def f l e k w)
  then show "plain_ready P cfg n b"
    using assms(2) w db_soundD(5) by (auto simp: plain_ready_def room_def f)
  have d: "db_decompress P b = db_decompress P a" by (simp add: db_decompress_def w fun_eq_iff)
  have "db_value P b = db_value P a" by (intro ext) (simp only: db_value_def f d)
  then show "db_view P b = db_view P a" by (intro ext) (simp only: db_view_def w)
qed

lemma Commit_effects:
  assumes "\<forall>op \<in> set (operations tx). plain.admissible P cfg op"
    and "plain_ready P cfg (sum_list (map (plain.op_cost P cfg) (operations tx)) + n) db"
  obtains db' where "Commit P tx db = (Ok (tx\<lparr>operations := []\<rparr>), db')" "plain_ready P cfg n db'"
    "db_view P db' = fold op_effect (operations tx) (db_view P db)"
proof -
  note r = assms(2) [unfolded plain_ready_def]
  obtain db1 where w1: "with_wal ''transaction WAL write'' (WriteTransaction P (txId tx) (operations tx)) db = (Ok (), db1)"
    "wrote P [] db db1"
    by (rule with_wal_wrote [of db P "WriteTransaction P (txId tx) (operations tx)"])
      (use r db_soundD(5) WriteTransaction_logs in blast)+
  note s1 = wrote_nil_ready [OF w1(2) assms(2)]
  obtain db2 where a: "apply_ops P (operations tx) db1 = (Ok (), db2)" "plain_ready P cfg n db2"
    "db_view P db2 = fold op_effect (operations tx) (db_view P db1)"
    by (rule apply_ops_effects [OF assms(1) s1(1)])
  obtain db3 where w2: "with_wal ''transaction commit WAL write'' (wal_log P WALCommit (tx_mark tx) [] []) db2 = (Ok (), db3)"
    "wrote P [] db2 db3"
    by (rule with_wal_wrote [of db2 P "wal_log P WALCommit (tx_mark tx) [] []"])
      (use a(2) db_soundD(5) wal_log_logs in \<open>unfold plain_ready_def, blast\<close>)+
  note s2 = wrote_nil_ready [OF w2(2) a(2)]
  have "Commit P tx db = (Ok (tx\<lparr>operations := []\<rparr>), db3)"
    using w1(1) a(1) w2(1) by (simp add: Commit_def)
  then show thesis using that s2 a(3) s1(2) by simp
qed

section \<open>Replay\<close>

lemma replay_ops_effects:
  assumes "\<forall>op \<in> set ops. plain.admissible P cfg op"
    and "plain_ready P cfg (sum_list (map (plain.op_cost P cfg) ops) + n) db"
  obtains db' where "replay_ops P ops db = (Ok (), db')" "plain_ready P cfg n db'"
    "db_view P db' = fold op_effect ops (db_view P db)"
proof -
  let ?step = "\<lambda>op db. case (if opType op = str ''PUT'' then Put P (opKey op) (opValue op) db
      else if opType op = str ''DELETE'' then Delete P (opKey op) db else (Ok (), db)) of
      (Err _, db1) \<Rightarrow> (Ok (), db1) | x \<Rightarrow> x"
  have step: "\<exists>s'. ?step op s = (Ok (), s') \<and> plain_ready P cfg n s' \<and> db_view P s' = op_effect op (db_view P s)"
    if a: "plain.admissible P cfg op" "plain_ready P cfg (plain.op_cost P cfg op + n) s" for op n s
  proof -
    consider "opType op = str ''PUT''" | "opType op = str ''DELETE''"
      | "opType op \<noteq> str ''PUT''" "opType op \<noteq> str ''DELETE''" by blast
    then show ?thesis
    proof cases
      case 1
      obtain s' where "Put P (opKey op) (opValue op) s = (Ok (), s')" "plain_ready P cfg n s'"
        "db_view P s' = op_effect op (db_view P s)"
        by (rule plain.step_put [OF a 1])
      then show ?thesis using 1 by simp
    next
      case 2
      obtain r s' where "Delete P (opKey op) s = (r, s')" "r = Ok () \<or> (\<exists>e. r = Err e)" "plain_ready P cfg n s'"
        "db_view P s' = op_effect op (db_view P s)"
        by (rule plain.step_delete [OF a 2])
      then show ?thesis using 2 by (elim disjE exE) simp_all
    next
      case 3
      then show ?thesis using a(2) by (simp add: plain.op_cost_def op_effect_def)
    qed
  qed
  have "\<exists>s'. replay_ops P ops db = (Ok (), s') \<and> plain_ready P cfg n s' \<and> db_view P s' = fold op_effect ops (db_view P db)"
    by (rule plain.run_effects [OF _ _ step assms]) simp_all
  then show thesis using that by blast
qed

section \<open>Opening an empty directory\<close>

lemma set_glob_data: "set (glob_data fs) = {f. has_suffix f DataSuffix \<and> map_of fs f \<noteq> None}"
  by (auto simp: glob_data_def map_of_eq_None_iff)

lemma data_suffix_not_wal: "\<not> has_suffix WalName DataSuffix"
  by code_simp

lemma empty_db_fields [simp]:
  "wFiles (world (empty_db P cfg w)) = wFiles w" "keyDir (empty_db P cfg w) = NewConcurrentMap 16"
  "smart (empty_db P cfg w) = None" "config (empty_db P cfg w) = cfg" "wal (empty_db P cfg w) = None"
  "ttlManager (empty_db P cfg w) = None"
  "blockCache (empty_db P cfg w) = NewBlockCache (if cacheEnabled (cfgCache cfg) then BlockCacheSize (cfgCache cfg) else 0) 4096"
  "keyCache (empty_db P cfg w) = NewKeyCache (if cacheEnabled (cfgCache cfg) then KeyCacheSize (cfgCache cfg) else 0)"
  by (simp_all add: empty_db_def Let_def split_beta)

lemma empty_db_sound:
  assumes "glob_data (wFiles w) = []"
  shows "let db = openActiveFile (rebuildKeyDir P (empty_db P cfg w)) in
    db_sound P db \<and> db_view P db = Map.empty \<and> smart db = None \<and> config db = cfg \<and> wal db = None \<and>
    ttlManager db = None \<and> activeFileID db = 1 \<and> (\<forall>fid. file_of db fid = (if fid = 1 then Some [] else None)) \<and>
    wFiles (world db) = AList.update (data_name 1) [] (wFiles w) \<and>
    keyDir db = NewConcurrentMap 16 \<and> (\<forall>k. lru_peek (kcCache (keyCache db)) k = None) \<and> contents WalName (wFiles (world db)) = contents WalName (wFiles w) \<and>
    (map_of (wFiles (world db)) WalName = map_of (wFiles w) WalName)"
proof -
  have none: "map_of (wFiles w) (data_name fid) = None" for fid
  proof -
    have "set (glob_data (wFiles w)) = {}" using assms by simp
    then have "\<forall>f \<in> set (map fst (wFiles w)). \<not> has_suffix f DataSuffix" unfolding glob_data_def by auto
    then have "data_name fid \<notin> set (map fst (wFiles w))" using data_name_suffix by blast
    then show ?thesis by (simp add: map_of_eq_None_iff)
  qed
  let ?db = "openActiveFile (rebuildKeyDir P (empty_db P cfg w))"
  have e: "rebuildKeyDir P (empty_db P cfg w) = (empty_db P cfg w)\<lparr>activeFileID := 1\<rparr>"
    using assms by (simp add: rebuildKeyDir_def)
  have f: "file_of ?db fid = (if fid = 1 then Some [] else None)" for fid
    by (simp add: e openActiveFile_def file_of_def create_missing_def update_conv' none Let_def)
  have fld: "keyDir ?db = NewConcurrentMap 16" "activeFileID ?db = 1" "activeFile ?db = Some (data_name 1)"
    "blockSize (blockCache ?db) = 4096" "smart ?db = None" "config ?db = cfg" "wal ?db = None" "ttlManager ?db = None"
    "bcCache (blockCache ?db) = NewLRUCache (if cacheEnabled (cfgCache cfg) then BlockCacheSize (cfgCache cfg) else 0)"
    "kcCache (keyCache ?db) = NewLRUCache (if cacheEnabled (cfgCache cfg) then KeyCacheSize (cfgCache cfg) else 0)"
    by (simp_all add: e openActiveFile_def NewBlockCache_def NewKeyCache_def Let_def)
  have g: "cm_Get (keyDir ?db) k = None" for k unfolding fld by (rule cm.get_new)
  have "db_sound P ?db"
    unfolding db_sound_def
    by (simp add: fld cm.inv_new lru_inv_new db_open_def f live_def g [unfolded fld] lru.coherent_def lru_peek_abs [OF lru_inv_new])
  moreover have "db_view P ?db = Map.empty" by (simp add: db_view_def g fun_eq_iff)
  moreover have "map_of (wFiles (world ?db)) WalName = map_of (wFiles w) WalName"
    by (simp add: e openActiveFile_def create_missing_def update_conv' Let_def)
  moreover have "wFiles (world ?db) = AList.update (data_name 1) [] (wFiles w)"
    by (simp add: e openActiveFile_def create_missing_def none Let_def)
  moreover have "lru_peek (kcCache (keyCache ?db)) k = None" for k
    by (simp add: fld lru_peek_abs [OF lru_inv_new])
  ultimately show ?thesis using f fld by (simp add: Let_def contents_def)
qed


lemma read_log_empty [simp]: "read_log P [] = Ok []"
  using read_log_frames [of "[]" P] by simp

lemma Recover_empty:
  assumes "wal db = Some m" "contents WalName (wFiles (world db)) = []"
  shows "\<exists>m'. Recover P db = (Ok (), db\<lparr>wal := Some m'\<rparr>) \<and> (wal_open m \<longrightarrow> wal_open m')"
proof -
  have v: "visit P t ([] :: (key \<times> WALRecord list) list) = []" for t by (simp add: visit_def)
  have o: "wal_open (wal_stat f m) = wal_open m" for f by (simp add: wal_stat_def wal_open_def)
  have same: "db\<lparr>wal := Some m\<rparr> = db" using assms(1) by simp
  define m' where "m' = wal_stat (\<lambda>s. s\<lparr>RecoveryCount := RecoveryCount s + 1\<rparr>) m"
  have "Recover P db = (Ok (), db\<lparr>wal := Some m'\<rparr>) \<or> Recover P db = (Ok (), db\<lparr>wal := Some m\<rparr>)"
  proof (cases "map_of (wFiles (world db)) WalName")
    case None
    then show ?thesis by (simp add: Recover_def assms(1) same)
  next
    case (Some c)
    then have "c = []" using assms(2) by (simp add: contents_def)
    with Some show ?thesis by (simp add: Recover_def assms(1) same group_records_def v m'_def)
  qed
  moreover have "wal_open m' = wal_open m" unfolding m'_def by (rule o)
  ultimately show ?thesis by blast
qed

lemma attach_smart_frame:
  "db_core (attach_smart P db) = (keyDir db, activeFile db, activeFileID db, blockCache db, keyCache db,
     wFiles (world db), cfgSmart (config db) = None \<and> smart db = None)"
  "config (attach_smart P db) = config db" "wal (attach_smart P db) = wal db"
  by (simp_all add: attach_smart_def db_core_def NewSmartCompressor_def initDictionaries_def split_beta split: option.splits)


lemma Recover_disabled: "wal db = None \<Longrightarrow> Recover P db = (Ok (), db)"
  by (simp add: Recover_def)

lemma fresh_database_lemma:
  assumes "glob_data (wFiles w) = []" "EnableWAL cfg \<longrightarrow> contents WalName (wFiles w) = []"
    and "EnableWAL cfg \<longrightarrow> 0 < WALFlushInterval cfg"
  obtains db where "NewGojiDB P cfg w = (Ok (), db)" "db_sound P db" "wal_ready db" "db_view P db = Map.empty"
    "config db = cfg" "smart db = None \<longleftrightarrow> cfgSmart cfg = None" "\<And>fid. file_of db fid = (if fid = 1 then Some [] else None)"
    "set (glob_data (wFiles (world db))) = {data_name 1}" "activeFileID db = 1" "keyDir db = NewConcurrentMap 16"
    "distinct (map fst (wFiles w)) \<longrightarrow> distinct (map fst (wFiles (world db)))"
    "\<And>k. lru_peek (kcCache (keyCache db)) k = None"
proof -
  define db1 where "db1 = openActiveFile (rebuildKeyDir P (empty_db P cfg w))"
  note e = empty_db_sound [OF assms(1), of P cfg, folded db1_def, unfolded Let_def]
  define db2 where "db2 = (if EnableTTL cfg then db1\<lparr>ttlManager := Some NewTTLManager\<rparr> else db1)"
  have c2: "db_core db2 = db_core db1" "config db2 = cfg" "wal db2 = None" "wFiles (world db2) = wFiles (world db1)"
    "smart db2 = None" using e by (simp_all add: db2_def db_core_def)
  define db3 where "db3 = attach_smart P db2"
  have c3: "config db3 = cfg" "wal db3 = None" "wFiles (world db3) = wFiles (world db1)" "keyDir db3 = keyDir db1"
    "activeFile db3 = activeFile db1" "activeFileID db3 = activeFileID db1" "blockCache db3 = blockCache db1"
    "keyCache db3 = keyCache db1" "smart db3 = None \<longleftrightarrow> cfgSmart cfg = None"
    using attach_smart_frame [of P db2, folded db3_def] c2 by (auto simp: db_core_def)
  have run: "NewGojiDB P cfg w = attach_wal P db3"
    by (simp add: NewGojiDB_def db1_def db2_def db3_def Let_def)
  have "\<exists>db. attach_wal P db3 = (Ok (), db) \<and> wal_ready db \<and> config db = cfg \<and> smart db = smart db3 \<and> keyDir db = keyDir db1 \<and>
      activeFile db = activeFile db1 \<and> activeFileID db = activeFileID db1 \<and> blockCache db = blockCache db1 \<and>
      keyCache db = keyCache db1 \<and> file_of db = file_of db1 \<and>
      wFiles (world db) \<in> {wFiles (world db1), create_missing WalName (wFiles (world db1))}"
  proof (cases "EnableWAL cfg")
    case False
    then show ?thesis using c3 by (simp add: attach_wal_def wal_ready_def file_of_def fun_eq_iff)
  next
    case True
    obtain m w1 where m: "NewWALManager P cfg (world db3) = (Ok m, w1)" "wal_open m"
      "wFiles w1 = create_missing WalName (wFiles (world db3))"
      using assms(3) True by (simp add: NewWALManager_def read_clock_def wal_open_def Let_def)
    let ?db4 = "db3\<lparr>world := w1, wal := Some m\<rparr>"
    have "contents WalName (wFiles (world db1)) = []" using e assms(2) True by (simp add: contents_update)
    then have "contents WalName (wFiles (world ?db4)) = []" using m(3) c3(3) by simp
    then obtain m' where "Recover P ?db4 = (Ok (), ?db4\<lparr>wal := Some m'\<rparr>)" "wal_open m'"
      using Recover_empty [of ?db4 m P] m(2) by auto
    moreover have "file_of (db3\<lparr>world := w1, wal := x\<rparr>) = file_of db1" for x
      using m(3) c3(3) by (simp add: file_of_def fun_eq_iff create_missing_def update_conv')
    ultimately show ?thesis
      using True m(1,3) c3 by (simp add: attach_wal_def db_wrap_def wal_ready_def Let_def)
  qed
  then obtain db where d: "attach_wal P db3 = (Ok (), db)" "wal_ready db" "config db = cfg" "smart db = smart db3"
    "keyDir db = keyDir db1" "activeFile db = activeFile db1" "activeFileID db = activeFileID db1"
    "blockCache db = blockCache db1" "keyCache db = keyCache db1" "file_of db = file_of db1"
    "wFiles (world db) = wFiles (world db1) \<or> wFiles (world db) = create_missing WalName (wFiles (world db1))" by auto
  have g: "cm_Get (keyDir db1) k = None" for k
  proof -
    have "db_view P db1 k = None" using e by simp
    then show ?thesis
      by (simp add: db1_def openActiveFile_def rebuildKeyDir_def assms(1) Let_def cm.get_new)
  qed
  have "db_open db = db_open db1" by (simp add: db_open_def d)
  moreover have "lru.coherent (block_ok P db) (bcCache (blockCache db1))"
    by (rule lru.coherent_mono [OF db_soundD(8)]) (use e g in \<open>auto simp: block_ok_def live_def d\<close>)
  ultimately have "db_sound P db" using e by (simp add: db_sound_def d live_def g cm.inv_new cm.get_new)
  moreover have "db_view P db = Map.empty" by (simp add: db_view_def d g fun_eq_iff)
  moreover have "wFiles (world db1) = AList.update (data_name 1) [] (wFiles w)" using e by blast
  then have up: "wFiles (world db) = AList.update (data_name 1) [] (wFiles w) \<or>
      wFiles (world db) = create_missing WalName (AList.update (data_name 1) [] (wFiles w))" using d(11) by simp
  have "set (glob_data (wFiles w)) = {}" using assms(1) by simp
  then have "\<forall>f. has_suffix f DataSuffix \<longrightarrow> map_of (wFiles w) f = None" by (auto simp: set_glob_data)
  then have "set (glob_data (wFiles (world db))) = {data_name 1}"
    using up data_suffix_not_wal
    by (elim disjE) (auto simp: set_glob_data update_conv' create_missing_def split: if_splits)
  moreover have "distinct (map fst (wFiles w)) \<longrightarrow> distinct (map fst (wFiles (world db)))"
    using up by (auto simp: create_missing_def distinct_update)
  ultimately show thesis using that d e c3(9) run by simp
qed

section \<open>Recovery applies the complete transactions\<close>

definition replayed_ops :: "(key \<times> WALRecord list) list \<Rightarrow> TransactionOp list" where
  "replayed_ops txs = concat (map (\<lambda>(tx, recs). if tx_replayable recs then tx_operations recs else []) txs)"

lemma replayTransactions_effects:
  assumes "\<forall>op \<in> set (replayed_ops txs). plain.admissible P cfg op"
    and "plain_ready P cfg (sum_list (map (plain.op_cost P cfg) (replayed_ops txs)) + n) db"
  shows "\<exists>db'. replayTransactions P txs db = (Ok (), db') \<and> plain_ready P cfg n db' \<and>
    db_view P db' = fold op_effect (replayed_ops txs) (db_view P db)"
  using assms
proof (induction txs arbitrary: db)
  case (Cons t txs)
  obtain tx recs where t: "t = (tx, recs)" by (rule prod.exhaust)
  let ?ops = "if tx_replayable recs then tx_operations recs else []"
  let ?rest = "sum_list (map (plain.op_cost P cfg) (replayed_ops txs)) + n"
  have ops: "replayed_ops (t # txs) = ?ops @ replayed_ops txs" by (simp add: replayed_ops_def t)
  have adm: "\<forall>op \<in> set ?ops. plain.admissible P cfg op" "\<forall>op \<in> set (replayed_ops txs). plain.admissible P cfg op"
    using Cons.prems(1) unfolding ops set_append by blast+
  have r: "plain_ready P cfg (sum_list (map (plain.op_cost P cfg) ?ops) + ?rest) db"
    using Cons.prems(2) unfolding ops map_append sum_list_append by (simp only: add.assoc)
  obtain db1 where d1: "replay_ops P ?ops db = (Ok (), db1)" "plain_ready P cfg ?rest db1"
    "db_view P db1 = fold op_effect ?ops (db_view P db)"
    by (rule replay_ops_effects [OF adm(1) r])
  obtain db' where d2: "replayTransactions P txs db1 = (Ok (), db')" "plain_ready P cfg n db'"
    "db_view P db' = fold op_effect (replayed_ops txs) (db_view P db1)"
    using Cons.IH [OF adm(2) d1(2)] by blast
  have "(if tx_replayable recs then replay_ops P (tx_operations recs) db else (Ok (), db)) = (Ok (), db1)"
    using d1(1) by (cases "tx_replayable recs") simp_all
  then have "replayTransactions P (t # txs) db = (Ok (), db')" using d2(1) by (simp add: t)
  then show ?case using d2(2,3) d1(3) by (simp add: ops)
qed (simp add: replayed_ops_def)

lemma reads_plain_ready: "reads P db db' \<Longrightarrow> plain_ready P cfg n db \<Longrightarrow> plain_ready P cfg n db'"
  by (auto simp: reads_def plain_ready_def wal_ready_def room_def file_of_def)

lemma plain_ready_wal_stat:
  assumes "plain_ready P cfg n db" "wal db = Some m"
  shows "plain_ready P cfg n (db\<lparr>wal := Some (wal_stat f m)\<rparr>)"
    "db_view P (db\<lparr>wal := Some (wal_stat f m)\<rparr>) = db_view P db"
proof -
  let ?db = "db\<lparr>wal := Some (wal_stat f m)\<rparr>"
  have c: "db_core ?db = db_core db" by (simp add: db_core_def)
  note cong = db_core_congs [OF c]
  have "wal_ready ?db" using assms by (simp add: plain_ready_def wal_ready_def)
  then show "plain_ready P cfg n ?db"
    using assms(1) cong(6) by (simp add: plain_ready_def room_def cong(1))
  show "db_view P ?db = db_view P db" by (rule cong(8))
qed

lemma plain_ready_wal:
  "plain_ready P cfg n db \<Longrightarrow> wal_ready db"
  by (simp add: plain_ready_def)

lemma Recover_effects:
  assumes "wal db = Some m" "EnableWAL (walConfig m)" "map_of (wFiles (world db)) WalName = Some c" "read_log P c = Ok recs"
    and "ops = replayed_ops (visit P (wTicks (world db)) (group_records recs))"
    and "\<forall>op \<in> set ops. plain.admissible P cfg op"
    and "plain_ready P cfg (sum_list (map (plain.op_cost P cfg) ops) + n) db"
  shows "\<exists>db'. Recover P db = (Ok (), db') \<and> plain_ready P cfg n db' \<and> db_view P db' = fold op_effect ops (db_view P db)"
proof -
  obtain db1 where d: "replayTransactions P (visit P (wTicks (world db)) (group_records recs)) db = (Ok (), db1)"
    "plain_ready P cfg n db1" "db_view P db1 = fold op_effect ops (db_view P db)"
    using replayTransactions_effects [OF assms(6,7) [unfolded assms(5)]] unfolding assms(5) by blast
  let ?f = "\<lambda>s. s\<lparr>RecoveryCount := RecoveryCount s + 1\<rparr>"
  let ?db' = "db1\<lparr>wal := map_option (wal_stat ?f) (wal db1)\<rparr>"
  have run: "Recover P db = (Ok (), ?db')"
    using assms(2-4) d(1) by (simp add: Recover_def assms(1))
  have "plain_ready P cfg n ?db' \<and> db_view P ?db' = db_view P db1"
  proof (cases "wal db1")
    case None
    then have "?db' = db1" by simp
    then show ?thesis using d(2) by simp
  next
    case (Some m1)
    then show ?thesis using plain_ready_wal_stat [OF d(2) Some, of ?f] by simp
  qed
  then show ?thesis using run d(3) by simp
qed

end
