(* ===== verification/Batch.thy ===== *)
theory Batch
  imports Engine
begin

text \<open>
  \<open>BatchPut\<close> and \<open>BatchGet\<close>. A batch read groups the keys by file and hands the groups to worker
  goroutines. A worker reads every value into one buffer that it keeps; a value that is not
  decompressed is returned as a view of that buffer, so it shows what the worker read last.
  The model keeps such a view apart from bytes of its own and resolves it when the workers are
  done.
\<close>

section \<open>Writing a batch\<close>

definition estimated_size :: "(key \<times> bytes) list \<Rightarrow> nat" where
  "estimated_size kvs =
     sum_list (map (\<lambda>(k, v). if k = [] then 0 else length v + HeaderSize + length k) kvs)"

text \<open>
  The loop, in the order in which the map is visited. It keeps its own position, counts neither
  expiry nor log records, and leaves the caches alone. The pooled entry has an expiry of zero,
  because entries are cleared when they are given back.
\<close>

fun batch_items :: "Platform \<Rightarrow> (key \<times> bytes) list \<Rightarrow> int \<Rightarrow> GojiDB \<Rightarrow> unit result" where
  "batch_items P [] pos db = (Ok (), db)"
| "batch_items P ((k, v) # kvs) pos db =
     (if k = [] then batch_items P kvs pos db
      else db_then (db_wrap ''compress'' (db_compress P v db)) (\<lambda>(z, a) db1.
        let (t, db2) = db_now P db1; e = mk_entry (unix32 t) 0 a k z; data = serializeEntry e
        in db_then (db_append P data db2) (\<lambda>_ db3.
             let kd = \<lparr>FileID = activeFileID db3, ValueSize = eValueSize e, ValuePos = value_pos pos e,
                       Timestamp = eTimestamp e, TTL = 0, Compression = eCompression e, Deleted = False\<rparr>;
                 db4 = db3\<lparr>keyDir := cm_Set k kd (keyDir db3)\<rparr>
             in batch_items P kvs (pos + int (length data))
                  (bump (\<lambda>m. m\<lparr>TotalWrites := TotalWrites m + 1\<rparr>) db4))))"

text \<open>A failing \<open>Seek\<close> is ignored and gives position 0.\<close>

definition BatchPut :: "Platform \<Rightarrow> (key \<times> bytes) list \<Rightarrow> GojiDB \<Rightarrow> unit result" where
  "BatchPut P kvs db =
     (if kvs = [] then (Ok (), db)
      else let n = estimated_size kvs;
               db1 = (if n > 0 then rotate_for n db else db);
               pos = (case active_size db1 of Ok p \<Rightarrow> int p | _ \<Rightarrow> 0)
           in batch_items P kvs pos db1)"

section \<open>Reading a batch\<close>

text \<open>A value of the result: its own bytes, or the first \<open>n\<close> bytes of the worker's buffer.\<close>

datatype slot = Own bytes | View nat

record batchReadRequest =
  rqKey :: key
  rqFileID :: "32 word"
  rqOffset :: int
  rqSize :: nat
  rqCompression :: CompressionType

definition BufferSize :: nat where
  "BufferSize = 256 * 1024"

definition request_of :: "key \<Rightarrow> KeyDir \<Rightarrow> batchReadRequest" where
  "request_of k kd = \<lparr>rqKey = k, rqFileID = FileID kd, rqOffset = sint (ValuePos kd),
     rqSize = unat (ValueSize kd), rqCompression = Compression kd\<rparr>"

text \<open>
  The keys that need a read, and those answered with an empty value at once. The clock is read
  only for keys that are in the index.
\<close>

fun select_requests ::
  "Platform \<Rightarrow> key list \<Rightarrow> GojiDB \<Rightarrow> (key \<times> bytes) list \<times> batchReadRequest list \<times> GojiDB" where
  "select_requests P [] db = ([], [], db)"
| "select_requests P (k # ks) db =
     (let absent = (let (es, rqs, db1) = select_requests P ks db in ((k, []) # es, rqs, db1))
      in if k = [] then absent
         else case cm_Get (keyDir db) k of
                None \<Rightarrow> absent
              | Some kd \<Rightarrow>
                  if Deleted kd then absent
                  else let (t, db1) = db_now P db
                       in if TTL kd > 0 \<and> unix32 t \<ge> TTL kd
                          then let (es, rqs, db2) = select_requests P ks db1 in ((k, []) # es, rqs, db2)
                          else let (es, rqs, db2) = select_requests P ks db1
                               in (es, request_of k kd # rqs, db2))"

text \<open>Reading into the buffer overwrites its first bytes, also when the read is short.\<close>

definition overlay :: "bytes \<Rightarrow> bytes \<Rightarrow> bytes" where
  "overlay new buf = new @ drop (length new) buf"

text \<open>
  Whether \<open>decompress\<close> hands its argument back instead of allocating: the \<open>default\<close> branch of
  the plain codecs, or a value no decoder of the smart compressor recognises.
\<close>

definition returns_argument :: "Platform \<Rightarrow> GojiDB \<Rightarrow> bytes \<Rightarrow> CompressionType \<Rightarrow> bool" where
  "returns_argument P db data ct \<longleftrightarrow>
     (if smart db = None then ct \<notin> {SnappyCompression, ZSTDCompression, GzipCompression}
      else data \<noteq> [] \<and> hd data \<notin> {1, 2, 3} \<and> snappyDecode P data = None \<and> zstdDecode P data = None \<and>
           \<not> (2 \<le> length data \<and> data ! 0 = 0x1f \<and> data ! 1 = 0x8b))"

text \<open>
  One request on the bytes of its file and the worker's buffer: a value larger than the buffer
  has a buffer of its own.
\<close>

definition readAndDecompress ::
  "Platform \<Rightarrow> GojiDB \<Rightarrow> bytes outcome \<Rightarrow> batchReadRequest \<Rightarrow> bytes \<Rightarrow> slot outcome \<times> bytes" where
  "readAndDecompress P db file rq buf =
     (let own = rqSize rq > length buf;
          part = (case file of Ok c \<Rightarrow> read_at_partial c (rqOffset rq) (rqSize rq) | _ \<Rightarrow> []);
          buf1 = (if own then buf else overlay part buf)
      in case bind_outcome file (\<lambda>c. read_at c (rqOffset rq) (rqSize rq)) of
           Ok data \<Rightarrow>
             (case db_decompress P db data (rqCompression rq) of
                Ok v \<Rightarrow>
                  (Ok (if \<not> own \<and> returns_argument P db data (rqCompression rq)
                       then View (rqSize rq) else Own v), buf1)
              | Err _ \<Rightarrow> (Ok (Own []), buf1)
              | Panic \<Rightarrow> (Panic, buf1)
              | Blocked \<Rightarrow> (Blocked, buf1))
         | _ \<Rightarrow> (Ok (Own []), buf1))"

fun read_requests ::
  "Platform \<Rightarrow> GojiDB \<Rightarrow> bytes outcome \<Rightarrow> batchReadRequest list \<Rightarrow> bytes \<Rightarrow>
   (key \<times> slot) list outcome \<times> bytes" where
  "read_requests P db file [] buf = (Ok [], buf)"
| "read_requests P db file (rq # rqs) buf =
     (case readAndDecompress P db file rq buf of
        (Ok s, buf1) \<Rightarrow>
          (case read_requests P db file rqs buf1 of
             (Ok ss, buf2) \<Rightarrow> (Ok ((rqKey rq, s) # ss), buf2)
           | x \<Rightarrow> x)
      | (Err e, buf1) \<Rightarrow> (Err e, buf1)
      | (Panic, buf1) \<Rightarrow> (Panic, buf1)
      | (Blocked, buf1) \<Rightarrow> (Blocked, buf1))"

text \<open>A task: the requests of one file by offset; a file that cannot be opened gives empty values.\<close>

definition processFileTask ::
  "Platform \<Rightarrow> GojiDB \<Rightarrow> 32 word \<Rightarrow> batchReadRequest list \<Rightarrow> bytes \<Rightarrow>
   (key \<times> slot) list outcome \<times> bytes" where
  "processFileTask P db fid rqs buf =
     (let sorted_rqs = sort_slice (\<lambda>a b. rqOffset a < rqOffset b) rqs
      in if fid \<noteq> activeFileID db \<and> map_of (wFiles (world db)) (data_name fid) = None
         then (Ok (map (\<lambda>rq. (rqKey rq, Own [])) sorted_rqs), buf)
         else read_requests P db (entry_file db fid) sorted_rqs buf)"

fun worker_tasks ::
  "Platform \<Rightarrow> GojiDB \<Rightarrow> batchReadRequest list \<Rightarrow> 32 word list \<Rightarrow> bytes \<Rightarrow>
   (key \<times> slot) list outcome \<times> bytes" where
  "worker_tasks P db rqs [] buf = (Ok [], buf)"
| "worker_tasks P db rqs (fid # fids) buf =
     (case processFileTask P db fid (filter (\<lambda>rq. rqFileID rq = fid) rqs) buf of
        (Ok ss, buf1) \<Rightarrow>
          (case worker_tasks P db rqs fids buf1 of
             (Ok ss', buf2) \<Rightarrow> (Ok (ss @ ss'), buf2)
           | x \<Rightarrow> x)
      | x \<Rightarrow> x)"

definition resolve :: "bytes \<Rightarrow> slot \<Rightarrow> bytes" where
  "resolve buf s = (case s of Own v \<Rightarrow> v | View n \<Rightarrow> take n buf)"

text \<open>A worker's results as the caller sees them, after its last read.\<close>

definition fileReadWorker ::
  "Platform \<Rightarrow> GojiDB \<Rightarrow> batchReadRequest list \<Rightarrow> 32 word list \<Rightarrow> (key \<times> bytes) list outcome" where
  "fileReadWorker P db rqs fids =
     (case worker_tasks P db rqs fids (replicate BufferSize 0) of
        (Ok ss, buf) \<Rightarrow> Ok (map (\<lambda>(k, s). (k, resolve buf s)) ss)
      | (Err e, _) \<Rightarrow> Err e
      | (Panic, _) \<Rightarrow> Panic
      | (Blocked, _) \<Rightarrow> Blocked)"

fun all_workers ::
  "Platform \<Rightarrow> GojiDB \<Rightarrow> batchReadRequest list \<Rightarrow> 32 word list list \<Rightarrow> (key \<times> bytes) list outcome" where
  "all_workers P db rqs [] = Ok []"
| "all_workers P db rqs (fids # sched) =
     bind_outcome (fileReadWorker P db rqs fids) (\<lambda>xs.
     bind_outcome (all_workers P db rqs sched) (\<lambda>ys. Ok (xs @ ys)))"

text \<open>
  \<open>sched\<close> lists, for each worker, the files it takes from the channel, in order; a later write to
  the result map wins. The workers write that map without a lock: where two run at once the
  runtime may end the program, which the model does not show.
\<close>

definition merge_results :: "(key \<times> bytes) list \<Rightarrow> (key \<times> bytes) list \<Rightarrow> (key \<times> bytes) list" where
  "merge_results es kvs = fold (\<lambda>(k, v). AList.update k v) kvs (fold (\<lambda>(k, v). AList.update k v) es [])"

definition BatchGet ::
  "Platform \<Rightarrow> 32 word list list \<Rightarrow> key list \<Rightarrow> GojiDB \<Rightarrow> (key \<times> bytes) list result" where
  "BatchGet P sched ks db =
     (if ks = [] then (Ok [], db)
      else let (es, rqs, db1) = select_requests P ks db
      in if rqs = [] then (Ok (merge_results es []), db1)
         else case all_workers P db1 rqs sched of
                Ok kvs \<Rightarrow>
                  let res = merge_results es kvs
                  in (Ok res, bump (\<lambda>m. m\<lparr>TotalReads := TotalReads m + of_nat (length res)\<rparr>) db1)
              | Err e \<Rightarrow> (Err e, db1)
              | Panic \<Rightarrow> (Panic, db1)
              | Blocked \<Rightarrow> (Blocked, db1))"

end
