(* ===== verification/ReadBack.thy ===== *)
theory ReadBack
  imports StoreSpec
begin

text \<open>
  Reading a key right after it was written. The key cache holds the position of the value; where
  that is the start of a block, the second read finds the block itself in the cache.
\<close>

section \<open>The caches on the way through \<open>Get\<close>\<close>

definition key_peek :: "GojiDB \<Rightarrow> key \<Rightarrow> bytes option" where
  "key_peek db k = lru_peek (kcCache (keyCache db)) k"

definition block_peek :: "Platform \<Rightarrow> GojiDB \<Rightarrow> 32 word \<Rightarrow> 64 word \<Rightarrow> bytes option" where
  "block_peek P db fid off = lru_peek (bcCache (blockCache db)) (block_key P fid off)"

lemma peek_frame [simp]:
  "key_peek (bump f db) k = key_peek db k" "block_peek P (bump f db) fid off = block_peek P db fid off"
  "key_peek (snd (db_now P db)) k = key_peek db k" "block_peek P (snd (db_now P db)) fid off = block_peek P db fid off"
  by (simp_all add: key_peek_def block_peek_def db_now_eq)

lemma get_cached_keydir_peek:
  assumes "db_sound P db" "get_cached_keydir P k db = (r, db')"
  shows "r = map_option decode_KeyDir (key_peek db k)" "key_peek db' k' = key_peek db k'"
    "block_peek P db' fid off = block_peek P db fid off"
proof -
  note i = db_soundD(3) [OF assms(1)]
  have eq: "r = map_option decode_KeyDir (key_peek db k)"
    "db' = (snd (db_now P db))\<lparr>keyCache := (keyCache db)\<lparr>kcCache := lru_touch (clock P (wTicks (world db))) k (kcCache (keyCache db))\<rparr>\<rparr>"
    using assms(2) by (auto simp: get_cached_keydir_def GetKeyDir_def db_now_eq lru_Get_peek [OF i] key_peek_def)
  show "r = map_option decode_KeyDir (key_peek db k)" by (rule eq(1))
  show "key_peek db' k' = key_peek db k'" by (simp add: eq(2) key_peek_def lru.peek_touch [OF i])
  show "block_peek P db' fid off = block_peek P db fid off" by (simp add: eq(2) block_peek_def db_now_eq)
qed

lemma get_block_peek:
  assumes "db_sound P db" "get_block P fid off sz db = (r, db')"
  shows "r = block_peek P db fid off" "key_peek db' k = key_peek db k" "block_peek P db' fid' off' = block_peek P db fid' off'"
proof -
  let ?c = "bcCache (blockCache db)" and ?t = "clock P (wTicks (world db))"
  note i = db_soundD(2) [OF assms(1)]
  have eq: "r = block_peek P db fid off"
    "db' = (snd (db_now P db))\<lparr>blockCache := (blockCache db)\<lparr>bcCache := lru_touch ?t (block_key P fid off) ?c\<rparr>\<rparr>"
    using assms(2) by (auto simp: get_block_def GetBlock_def db_now_eq lru_Get_peek [OF i] block_key_def block_peek_def)
  show "r = block_peek P db fid off" by (rule eq(1))
  show "key_peek db' k = key_peek db k" by (simp add: eq(2) key_peek_def db_now_eq)
  show "block_peek P db' fid' off' = block_peek P db fid' off'"
    by (simp add: eq(2) block_peek_def lru.peek_touch [OF i])
qed

lemma cache_put_peek:
  assumes "db_sound P db"
  shows "key_peek (cache_put P k kd db) k = Some (encode_KeyDir kd)"
    "block_peek P (cache_put P k kd db) fid off = block_peek P db fid off"
  using lru_peek_Set [OF db_soundD(3) [OF assms]]
  by (simp_all add: cache_put_def db_now_eq key_peek_def block_peek_def SetKeyDir_def)

text \<open>A block found at the position of the value is the answer, whatever the value is.\<close>

lemma Get_block_hit:
  assumes "db_sound P db" "k \<noteq> []" "smart db = None" "key_peek db k = Some (encode_KeyDir kd)"
    and "block_peek P db (FileID kd) (ValuePos kd) = Some b"
  shows "fst (Get P k db) = Ok b"
proof -
  let ?db0 = "bump (\<lambda>m. m\<lparr>TotalReads := TotalReads m + 1\<rparr>) db"
  let ?kd = "decode_KeyDir (encode_KeyDir kd)"
  have kd: "FileID ?kd = FileID kd" "ValuePos ?kd = ValuePos kd" "TTL ?kd = 0" "Compression ?kd = NoCompression"
    by (simp_all add: decode_encode_KeyDir)
  have r0: "reads P db ?db0" using assms(1) by (rule reads_bump)
  obtain c db1 where g: "get_cached_keydir P k ?db0 = (c, db1)" by (rule prod.exhaust)
  note gc = get_cached_keydir_reads(2) [OF reads_sound [OF r0] g] get_cached_keydir_peek [OF reads_sound [OF r0] g]
  have c: "c = Some ?kd" using gc(2) assms(4) by simp
  have ct: "check_ttl P ?kd db1 = (False, db1)" by (simp add: check_ttl_def kd(3))
  have s1: "db_sound P db1" by (rule reads_sound [OF gc(1)])
  obtain x db2 where b: "get_block P (FileID kd) (ValuePos kd) (ValueSize ?kd) db1 = (x, db2)" by (rule prod.exhaust)
  have x: "x = Some b" using get_block_peek(1) [OF s1 b] gc(4) assms(5) by simp
  have sm: "smart db2 = None"
    using reads_trans [OF reads_trans [OF r0 gc(1)] get_block_reads(2) [OF s1 b]] assms(3) by (simp add: reads_def)
  have "tryCacheRead P ?kd db1 = (Ok (Some b), bump (\<lambda>m. m\<lparr>CacheHits := CacheHits m + 1\<rparr>) db2)"
    using b x sm by (simp add: tryCacheRead_def kd db_decompress_def decompressChunk_def)
  then show ?thesis using g c ct assms(2) by (simp add: Get_def Let_def)
qed

text \<open>A first read of a value puts the block in which the value starts into the cache.\<close>

lemma updateBlockCache_peek:
  assumes "db_sound P db" "file_of db (FileID kd) = Some c"
  shows "block_peek P (updateBlockCache P kd start db) (FileID kd) start = Some (zero_fill 4096 (read_at_partial c (sint start) 4096))"
    "key_peek (updateBlockCache P kd start db) k = key_peek db k"
proof -
  note s = db_soundD [OF assms(1)]
  have "entry_file db (FileID kd) = Ok c" by (simp add: entry_file_open [OF s(5)] assms(2) of_option_def)
  then show "block_peek P (updateBlockCache P kd start db) (FileID kd) start = Some (zero_fill 4096 (read_at_partial c (sint start) 4096))"
    "key_peek (updateBlockCache P kd start db) k = key_peek db k"
    using lru_peek_Set [OF s(2)]
    by (simp_all add: updateBlockCache_def db_now_eq s(4) Let_def block_peek_def key_peek_def SetBlock_def block_key_def)
qed

lemma Get_fills_block:
  assumes "db_sound P db" "sha_separates (sha256 P)" "k \<noteq> []" "live db k kd" "TTL kd = 0" "block_peek P db (FileID kd) (kd_block kd) = None"
    and "key_peek db k = Some (encode_KeyDir kd)" "block_peek P db (FileID kd) (ValuePos kd) = None"
    and "file_of db (FileID kd) = Some c" "Get P k db = (r, db')"
  shows "r = db_value P db kd" "key_peek db' k = Some (encode_KeyDir kd)" "reads P db db'"
    "block_peek P db' (FileID kd) (kd_block kd) = Some (zero_fill 4096 (read_at_partial c (sint (kd_block kd)) 4096))"
proof -
  let ?db0 = "bump (\<lambda>m. m\<lparr>TotalReads := TotalReads m + 1\<rparr>) db"
  let ?kd = "decode_KeyDir (encode_KeyDir kd)"
  have kd: "FileID ?kd = FileID kd" "ValuePos ?kd = ValuePos kd" "TTL ?kd = 0" "Compression ?kd = NoCompression"
    by (simp_all add: decode_encode_KeyDir)
  have r0: "reads P db ?db0" using assms(1) by (rule reads_bump)
  obtain x db1 where g: "get_cached_keydir P k ?db0 = (x, db1)" by (rule prod.exhaust)
  note gc = get_cached_keydir_reads(2) [OF reads_sound [OF r0] g] get_cached_keydir_peek [OF reads_sound [OF r0] g]
  have x: "x = Some ?kd" using gc(2) assms(7) by simp
  have ct: "check_ttl P ?kd db1 = (False, db1)" by (simp add: check_ttl_def kd(3))
  have r1: "reads P db db1" by (rule reads_trans [OF r0 gc(1)])
  obtain y db2 where b: "get_block P (FileID kd) (ValuePos kd) (ValueSize ?kd) db1 = (y, db2)" by (rule prod.exhaust)
  note gb = get_block_peek [OF reads_sound [OF r1] b] get_block_reads(2) [OF reads_sound [OF r1] b]
  have y: "y = None" using gb(1) gc(4) assms(8) by simp
  have tr: "tryCacheRead P ?kd db1 = (Ok None, db2)" using b y by (simp add: tryCacheRead_def kd)
  have r2: "reads P db db2" by (rule reads_trans [OF r1 gb(4)])
  have run: "Get P k db = get_indexed P k db2" using g x ct tr assms(3) by (simp add: Get_def Let_def)
  let ?db3 = "cache_put P k kd db2"
  have r3: "reads P db ?db3" by (rule reads_trans [OF r2 cache_put_reads [OF reads_sound [OF r2]]])
  note cp = cache_put_peek [OF reads_sound [OF r2], where k = k and kd = kd]
  obtain z db4 where b4: "get_block P (FileID kd) (kd_block kd) 4096 ?db3 = (z, db4)" by (rule prod.exhaust)
  note g4 = get_block_peek [OF reads_sound [OF r3] b4] get_block_reads(2) [OF reads_sound [OF r3] b4]
  have z: "z = None" using g4(1) cp(2) gb(3) gc(4) assms(6) by simp
  have r4: "reads P db db4" by (rule reads_trans [OF r3 g4(4)])
  have f4: "file_of db4 (FileID kd) = Some c" using reads_view(3) [OF r4] assms(9) by simp
  have ins: "unat (ValuePos kd) + unat (ValueSize kd) \<le> length c" "length c < 2 ^ 63"
    using live_file [OF assms(1,4)] assms(9) by auto
  have ef: "entry_file db4 (FileID kd) = Ok c"
    by (simp add: entry_file_open [OF db_soundD(5) [OF reads_sound [OF r4]]] f4 of_option_def)
  have rd: "readData P kd ?db3 = (Ok (value_slice c kd), updateBlockCache P kd (kd_block kd) db4)"
    using b4 z ef
    by (simp add: readData_def block_start_sound [OF reads_sound [OF r3]] db_soundD(4) [OF reads_sound [OF r3]]
        readFromFileAndCache_def read_at_slice [OF ins] Let_def)
  note ub = updateBlockCache_peek [OF reads_sound [OF r4] f4, where start = "kd_block kd"]
  let ?db5 = "updateBlockCache P kd (kd_block kd) db4"
  have r5: "reads P db ?db5"
    using reads_trans [OF r4 updateBlockCache_reads [OF reads_sound [OF r4] f4]] by simp
  have lv: "cm_Get (keyDir db2) k = Some kd" "\<not> Deleted kd"
    using assms(4) unfolding reads_view(2) [OF r2, symmetric] by (simp_all add: live_def)
  have dv: "db_decompress P ?db5 (value_slice c kd) (Compression kd) = db_value P db kd"
    using reads_view(4) [OF r5] assms(9) by (simp add: db_value_def)
  have "check_ttl P kd ?db3 = (False, ?db3)" by (simp add: check_ttl_def assms(5))
  then have gi: "get_indexed P k db2 = (case db_value P db kd of Ok v \<Rightarrow> (Ok v, bump (\<lambda>m. m\<lparr>CacheHits := CacheHits m + 1\<rparr>) ?db5)
      | Err e \<Rightarrow> (Err e, miss ?db5) | r \<Rightarrow> (r, ?db5))"
    using lv rd dv by (simp add: get_indexed_def Let_def)
  have out: "r = db_value P db kd \<and> (db' = ?db5 \<or> (\<exists>f. db' = bump f ?db5))"
    using gi assms(10) unfolding run miss_def by (auto split: outcome.splits)
  then show "r = db_value P db kd" by blast
  show "key_peek db' k = Some (encode_KeyDir kd)"
    "block_peek P db' (FileID kd) (kd_block kd) = Some (zero_fill 4096 (read_at_partial c (sint (kd_block kd)) 4096))"
    using out ub g4(2) cp(1) by auto
  show "reads P db db'" using out r5 reads_bumped by auto
qed


section \<open>After a \<open>Put\<close>\<close>

lemma put_position:
  assumes "put_trace P k z a x db db'" "cm_inv (keyDir db)" "entry_sized (mk_entry ts x a k z)"
  obtains kd c where "cm_Get (keyDir db') k = Some kd" "\<not> Deleted kd" "TTL kd = x" "key_peek db' k = Some (encode_KeyDir kd)"
    "\<And>fid off. block_peek P db' fid off = None" "file_of db' (FileID kd) = Some (c @ serializeEntry (mk_entry (Timestamp kd) x a k z))"
    "ValuePos kd = value_pos (int (length c)) (mk_entry (Timestamp kd) x a k z)" "ValueSize kd = of_nat (length z)"
    "\<And>c0. file_of db (activeFileID db) = Some c0 \<Longrightarrow> db_open db \<Longrightarrow>
      int (length c0) + int (HeaderSize + length k + length z) \<le> MaxFileSize (config db) \<Longrightarrow> c = c0"
    "FileID kd = activeFileID db'"
proof -
  obtain db0 t where t: "same_store db db0" "stored k (mk_entry (unix32 (clock P t)) x a k z) db0 db'"
    using assms(1) unfolding put_trace_def by blast
  let ?e = "mk_entry (unix32 (clock P t)) x a k z"
  obtain db1 c where s0: "db1 = rotate_for (length (serializeEntry ?e)) db0" "file_of db1 (activeFileID db1) = Some c"
    and s: "\<forall>fid. file_of db' fid = (if fid = activeFileID db1 then Some (c @ serializeEntry ?e) else file_of db1 fid)"
    "keyDir db' = cm_Set k (stored_at (activeFileID db1) (length c) ?e) (keyDir db0)"
    "lru_peek (kcCache (keyCache db')) k = Some (encode_KeyDir (stored_at (activeFileID db1) (length c) ?e))"
    "\<forall>bk. lru_peek (bcCache (blockCache db')) bk = None" "activeFileID db' = activeFileID db1"
    using t(2) unfolding stored_def by blast
  have k0: "keyDir db0 = keyDir db" "db_core db0 = db_core db" "config db0 = config db"
    using t(1) unfolding same_store_def db_core_def by blast+
  have c: "c = c0" if c0: "file_of db (activeFileID db) = Some c0" "db_open db"
    "int (length c0) + int (HeaderSize + length k + length z) \<le> MaxFileSize (config db)" for c0
  proof -
    have len: "length (serializeEntry ?e) \<le> HeaderSize + length k + length z"
      by (simp add: add_mono unat_of_nat)
    have a: "activeFileID db0 = activeFileID db" "activeFile db0 = activeFile db" "file_of db0 = file_of db"
      using k0(2) db_core_congs(1) [OF k0(2)] unfolding db_core_def by blast+
    then have "active_size db0 = Ok (length c0)"
      using c0(1,2) by (simp add: active_size_def file_size_def contents_def file_of_def db_open_def fun_eq_iff)
    then have "db1 = db0" using c0(3) len by (simp add: s0(1) rotate_for_def k0(3) del: length_serializeEntry)
    then show "c = c0" using s0(2) a c0(1) by simp
  qed
  let ?kd = "stored_at (activeFileID db1) (length c) ?e"
  show thesis
  proof (rule that [of ?kd c])
    show "cm_Get (keyDir db') k = Some ?kd" by (simp add: s(2) k0 cm.get_set [OF assms(2)])
    show "file_of db' (FileID ?kd) = Some (c @ serializeEntry (mk_entry (Timestamp ?kd) x a k z))" using s(1) by simp
    show "c = c0" if "file_of db (activeFileID db) = Some c0" "db_open db"
      "int (length c0) + int (HeaderSize + length k + length z) \<le> MaxFileSize (config db)" for c0 by (rule c [OF that])
  qed (use s(3-5) in \<open>simp_all add: key_peek_def block_peek_def stored_at_def\<close>)
qed

lemma aligned_block: "4096 dvd unat (ValuePos kd) \<Longrightarrow> kd_block kd = ValuePos kd"
  using block_mod(3) [of "ValuePos kd"] by (simp add: kd_block_def word_unat_eq_iff)

text \<open>The value is the last thing in its file, so the block is the value and zeros.\<close>

lemma last_block:
  assumes "entry_sized e" "length c + length (serializeEntry e) < 2 ^ 63" "length (eValue e) \<le> 4096"
  shows "zero_fill 4096 (read_at_partial (c @ serializeEntry e) (sint (value_pos (int (length c)) e)) 4096) =
    eValue e @ replicate (4096 - length (eValue e)) 0"
proof -
  let ?p = "length c + (HeaderSize + length (eKey e))"
  have u: "unat (value_pos (int (length c)) e) = ?p" by (rule value_pos_nat [OF assms(1,2)])
  have len: "length (serializeEntry e) = HeaderSize + length (eKey e) + length (eValue e)"
    using assms(1) by (simp add: entry_sized_def)
  then have "?p < 2 ^ 63" using assms(2) by linarith
  then have si: "sint (value_pos (int (length c)) e) = int ?p" using sint_small [of "value_pos (int (length c)) e"] u by simp
  have "byte_slice ?p 4096 (c @ serializeEntry e) = eValue e"
  proof -
    have "byte_slice ?p (length (eValue e)) (c @ serializeEntry e) = eValue e" by (rule serialized_value [OF assms(1)])
    moreover have "length (drop ?p (c @ serializeEntry e)) = length (eValue e)" using len by simp
    ultimately show ?thesis using assms(3) by (simp only: byte_slice_def) (metis take_all order_refl)
  qed
  moreover have "\<not> int ?p < 0" "nat (int ?p) = ?p" by (simp_all only: nat_int of_nat_less_0_iff simp_thms)
  ultimately show ?thesis by (simp only: read_at_partial_def si if_False zero_fill_def)
qed


lemma put_get:
  assumes "plain_fits P cfg k v" "plain_ready P cfg (put_cost P cfg k v + n) db" "sha_separates (sha256 P)"
    and "Put P k v db = (r0, db1)" "\<forall>kd. cm_Get (keyDir db1) k = Some kd \<longrightarrow> \<not> 4096 dvd unat (ValuePos kd)"
    and "Get P k db1 = (r, db2)"
  shows "r = Ok v"
proof -
  obtain x where p: "plain_ready P cfg n db1" "db_view P db1 = (db_view P db)(k \<mapsto> (Ok v, x))"
    "stamp_ok P (wTicks (world db)) (wTicks (world db1)) 0 x"
    "put_trace P k (fst (pack P cfg v)) (snd (pack P cfg v)) x db db1"
    using plain_PutWithTTL [OF assms(1,2), of 0] assms(4) unfolding Put_def by (metis prod.inject)
  have x: "x = 0" using p(3) by (simp add: stamp_ok_def)
  have f: "k \<noteq> []" "length k < 2 ^ 16" "length (fst (pack P cfg v)) < 2 ^ 32" using assms(1) by (simp_all add: plain_fits_def)
  have i: "cm_inv (keyDir db)" "db_sound P db1" using assms(2) p(1) db_soundD(1) by (auto simp: plain_ready_def)
  obtain kd where "cm_Get (keyDir db1) k = Some kd" "key_peek db1 k = Some (encode_KeyDir kd)"
    by (rule put_position [OF p(4) i(1) mk_entry_sized [OF f(2,3)]])
  then have "unaligned db1 k" using assms(5) by (simp add: unaligned_def key_peek_def decode_encode_KeyDir)
  from Get_answer(1) [OF i(2) assms(3) f(1) this assms(6)]
  show ?thesis by (simp add: p(2) x get_answer_def)
qed

text \<open>At an aligned position the first read is right and the second returns the padded block.\<close>

lemma put_get_aligned:
  assumes "plain_fits P cfg k v" "plain_ready P cfg (put_cost P cfg k v + n) db" "sha_separates (sha256 P)"
    and "Put P k v db = (r0, db1)" "cm_Get (keyDir db1) k = Some kd" "4096 dvd unat (ValuePos kd)"
    and "Get P k db1 = (r1, db2)" "Get P k db2 = (r2, db3)" "length (fst (pack P cfg v)) \<le> 4096"
  shows "r1 = Ok v" "r2 = Ok (fst (pack P cfg v) @ replicate (4096 - length (fst (pack P cfg v))) 0)"
proof -
  let ?z = "fst (pack P cfg v)" and ?a = "snd (pack P cfg v)"
  obtain x where p: "plain_ready P cfg n db1" "db_view P db1 = (db_view P db)(k \<mapsto> (Ok v, x))"
    "stamp_ok P (wTicks (world db)) (wTicks (world db1)) 0 x" "put_trace P k ?z ?a x db db1"
    using plain_PutWithTTL [OF assms(1,2), of 0] assms(4) unfolding Put_def by (metis prod.inject)
  have x: "x = 0" using p(3) by (simp add: stamp_ok_def)
  have f: "k \<noteq> []" "length k < 2 ^ 16" "length ?z < 2 ^ 32" using assms(1) by (simp_all add: plain_fits_def)
  have i: "cm_inv (keyDir db)" "db_sound P db1" "smart db1 = None" using assms(2) p(1) db_soundD(1) by (auto simp: plain_ready_def)
  obtain kd' c where q: "cm_Get (keyDir db1) k = Some kd'" "\<not> Deleted kd'" "TTL kd' = x" "key_peek db1 k = Some (encode_KeyDir kd')"
    "\<And>fid off. block_peek P db1 fid off = None" "file_of db1 (FileID kd') = Some (c @ serializeEntry (mk_entry (Timestamp kd') x ?a k ?z))"
    "ValuePos kd' = value_pos (int (length c)) (mk_entry (Timestamp kd') x ?a k ?z)"
    by (rule put_position [OF p(4) i(1) mk_entry_sized [OF f(2,3)]]) (rule that; assumption)
  have kd: "kd' = kd" using q(1) assms(5) by simp
  let ?e = "mk_entry (Timestamp kd) x ?a k ?z"
  have sz: "entry_sized ?e" by (rule mk_entry_sized [OF f(2,3)])
  have len: "length c + length (serializeEntry ?e) < 2 ^ 63"
    using db_soundD(6) [OF i(2) q(6)] unfolding kd by (simp only: length_append)
  have lv: "live db1 k kd" using q(1,2) by (simp add: live_def kd)
  note g1 = Get_fills_block [OF i(2) assms(3) f(1) lv q(3) [unfolded kd x] q(5) q(4) [unfolded kd] q(5)
      q(6) [unfolded kd] assms(7), unfolded aligned_block [OF assms(6)]]
  have "db_view P db1 k = Some (db_value P db1 kd, TTL kd)" using q(1,2) by (simp add: db_view_def kd)
  then have "db_value P db1 kd = Ok v" by (simp add: p(2))
  then show "r1 = Ok v" using g1(1) by simp
  have "smart db2 = None" using g1(3) i(3) by (simp add: reads_def)
  from Get_block_hit [OF reads_sound [OF g1(3)] f(1) this g1(2,4)] assms(8)
  have "r2 = Ok (zero_fill 4096 (read_at_partial (c @ serializeEntry ?e) (sint (ValuePos kd)) 4096))" by simp
  also have "ValuePos kd = value_pos (int (length c)) ?e" using q(7) by (simp add: kd)
  finally show "r2 = Ok (?z @ replicate (4096 - length ?z) 0)"
    using last_block [OF sz len] assms(9) by simp
qed

end
