(* ===== verification/BatchSpec.thy ===== *)
theory BatchSpec
  imports StoreSpec Batch ReadBack
begin

text \<open>
  What \<open>BatchPut\<close> does to the contents of the database. It leaves the caches as they are, so the
  invariant here is the one without the caches, \<open>index_sound\<close>.
\<close>

lemma index_view_after_set:
  assumes "index_sound db" "grows db db'" "db_decompress P db' = db_decompress P db" "keyDir db' = cm_Set k kd (keyDir db)"
  shows "db_view P db' = (db_view P db)(k := if Deleted kd then None else Some (db_value P db' kd, TTL kd))"
proof
  fix k'
  have i: "cm_inv (keyDir db)" using assms(1) by (simp add: index_sound_def)
  have g: "cm_Get (keyDir db') k' = (if k' = k then Some kd else cm_Get (keyDir db) k')"
    by (simp add: assms(4) cm.get_set [OF i])
  have "db_value P db' kd' = db_value P db kd'" if l: "live db k' kd'" for kd'
  proof -
    have "entry_inside db kd'" using assms(1) l by (auto simp: index_sound_def)
    then show ?thesis using grown_entry(2) [OF assms(2) _ assms(3)] by blast
  qed
  then show "db_view P db' k' = ((db_view P db)(k := if Deleted kd then None else Some (db_value P db' kd, TTL kd))) k'"
    by (auto simp: db_view_def g live_def split: option.splits)
qed

lemma index_after_set:
  assumes "index_sound db" "grows db db'" "db_open db'" "keyDir db' = cm_Set k kd (keyDir db)" "entry_inside db' kd"
    and "\<forall>fid c. file_of db' fid = Some c \<longrightarrow> length c < 2 ^ 63"
  shows "index_sound db'"
proof -
  have i: "cm_inv (keyDir db)" using assms(1) by (simp add: index_sound_def)
  have g: "cm_Get (keyDir db') k' = (if k' = k then Some kd else cm_Get (keyDir db) k')" for k'
    by (simp add: assms(4) cm.get_set [OF i])
  have "entry_inside db' kd'" if "live db' k' kd'" for k' kd'
  proof (cases "k' = k")
    case True
    then show ?thesis using that assms(5) by (simp add: live_def g)
  next
    case False
    then have "live db k' kd'" using that by (simp add: live_def g)
    then have "entry_inside db kd'" using assms(1) unfolding index_sound_def by blast
    then show ?thesis by (rule grown_entry(1) [OF assms(2)])
  qed
  then show ?thesis using assms(3,6) by (simp add: index_sound_def assms(4) cm.inv_set [OF i])
qed

definition batch_ready :: "Platform \<Rightarrow> GojiDBConfig \<Rightarrow> nat \<Rightarrow> GojiDB \<Rightarrow> bool" where
  "batch_ready P cfg n db \<longleftrightarrow> writes_ok P \<and> index_sound db \<and> wal_ready db \<and> room n db \<and> smart db = None \<and> config db = cfg"

lemma plain_ready_batch: "plain_ready P cfg n db \<Longrightarrow> batch_ready P cfg n db"
  by (auto simp: plain_ready_def batch_ready_def db_sound_index)

lemma batch_ready_same_store:
  assumes "same_store db db'" "smart db' = None" "batch_ready P cfg n db"
  shows "batch_ready P cfg n db'"
proof -
  have c: "db_core db' = db_core db" "config db' = config db" "wal db' = wal db" using assms(1) by (simp_all add: same_store_def)
  have "keyDir db' = keyDir db" using c(1) by (simp add: db_core_def)
  then have "index_sound db' = index_sound db"
    by (simp add: index_sound_def db_core_congs [OF c(1)])
  then show ?thesis
    using assms(2,3) same_store_ready(1,2) [OF assms(1)] c(2) by (simp add: batch_ready_def)
qed

text \<open>One item: the record is appended and the index points to it; nothing else changes.\<close>

definition batch_entry :: "Platform \<Rightarrow> GojiDBConfig \<Rightarrow> instant \<Rightarrow> key \<Rightarrow> bytes \<Rightarrow> Entry" where
  "batch_entry P cfg t k v = mk_entry (unix32 t) 0 (snd (pack P cfg v)) k (fst (pack P cfg v))"

lemma batch_entry_sized:
  assumes "plain_fits P cfg k v"
  shows "entry_sized (batch_entry P cfg t k v)" "length (serializeEntry (batch_entry P cfg t k v)) = put_cost P cfg k v"
proof -
  show s: "entry_sized (batch_entry P cfg t k v)"
    using assms by (simp add: batch_entry_def plain_fits_def mk_entry_sized)
  then show "length (serializeEntry (batch_entry P cfg t k v)) = put_cost P cfg k v"
    by (simp add: entry_sized_def batch_entry_def put_cost_def)
qed

lemma batch_item:
  assumes "plain_fits P cfg k v" "batch_ready P cfg (put_cost P cfg k v + n) db"
    and "file_of db (activeFileID db) = Some c"
  obtains db' t where
    "\<And>kvs. batch_items P ((k, v) # kvs) (int (length c)) db = batch_items P kvs (int (length c + put_cost P cfg k v)) db'"
    "batch_ready P cfg n db'" "activeFileID db' = activeFileID db" "blockCache db' = blockCache db" "keyCache db' = keyCache db"
    "\<And>fid. file_of db' fid = (if fid = activeFileID db then Some (c @ serializeEntry (batch_entry P cfg t k v)) else file_of db fid)"
    "keyDir db' = cm_Set k (stored_at (activeFileID db) (length c) (batch_entry P cfg t k v)) (keyDir db)"
    "db_view P db' = (db_view P db)(k \<mapsto> (Ok v, 0))"
proof -
  have r: "index_sound db" "smart db = None" "config db = cfg" "writes_ok P"
    using assms(2) by (simp_all add: batch_ready_def)
  have k: "k \<noteq> []" "codec_ok P" using assms(1) by (simp_all add: plain_fits_def)
  obtain db1 where cp: "db_compress P v db = (Ok (pack P cfg v), db1)" "smart db1 = None"
    using db_compress_plain [OF r(2)] r(3) by metis
  define t where "t = clock P (wTicks (world db1))"
  define db2 where "db2 = snd (db_now P db1)"
  have s2: "same_store db db2" using same_store_trans [OF db_compress_frame [OF cp(1)] same_store_now] by (simp add: db2_def)
  have b2: "batch_ready P cfg (put_cost P cfg k v + n) db2"
    by (rule batch_ready_same_store [OF s2 _ assms(2)]) (simp add: db2_def db_now_eq cp(2))
  define e where "e = batch_entry P cfg t k v"
  note sz = batch_entry_sized [OF assms(1), of t, folded e_def]
  have w2: "wal_ready db2" "db_open db2" "index_sound db2" "room (put_cost P cfg k v + n) db2"
    using b2 by (simp_all add: batch_ready_def index_sound_def)
  have core: "db_core db2 = db_core db" using s2 by (simp add: same_store_def)
  have fld: "activeFileID db2 = activeFileID db" "keyDir db2 = keyDir db" "blockCache db2 = blockCache db" "keyCache db2 = keyCache db"
    using core by (simp_all add: db_core_def)
  have f2: "file_of db2 = file_of db" by (rule db_core_congs(1) [OF core])
  obtain db3 where w: "db_append P (serializeEntry e) db2 = (Ok (), db3)" "wrote P (serializeEntry e) db2 db3"
    using db_append_wrote [OF r(4) w2(2,1)] by metis
  note w' = w(2) [unfolded wrote_def]
  define kd where "kd = stored_at (activeFileID db) (length c) e"
  define db' where "db' = bump (\<lambda>m. m\<lparr>TotalWrites := TotalWrites m + 1\<rparr>) (db3\<lparr>keyDir := cm_Set k kd (keyDir db3)\<rparr>)"
  have run: "batch_items P ((k, v) # kvs) (int (length c)) db = batch_items P kvs (int (length c + put_cost P cfg k v)) db'" for kvs
  proof -
    obtain z a where p: "pack P cfg v = (z, a)" by (rule prod.exhaust)
    have e': "mk_entry (unix32 t) 0 a k z = e" by (simp add: e_def batch_entry_def p)
    have ef: "eValueSize e = of_nat (length z)" "eTimestamp e = unix32 t" "eTTL e = 0" "eCompression e = a"
      by (simp_all flip: e')
    have n: "db_now P db1 = (t, db2)" by (simp add: db2_def t_def db_now_eq)
    have "int (length c) + int (length (serializeEntry e)) = int (length c + put_cost P cfg k v)"
      by (simp only: sz(2) of_nat_add)
    moreover have "activeFileID db3 = activeFileID db" using w' fld by simp
    ultimately show ?thesis
      using k(1) cp(1) w(1) by (simp add: p db_wrap_def n e' db'_def kd_def stored_at_def ef Let_def del: length_serializeEntry)
  qed
  have f: "file_of db' fid = (if fid = activeFileID db then Some (c @ serializeEntry e) else file_of db fid)" for fid
  proof -
    have "file_of db' fid = file_of db3 fid" by (simp add: db'_def file_of_def)
    then show ?thesis using w' f2 fld(1) assms(3) by simp
  qed
  have kd: "keyDir db' = cm_Set k kd (keyDir db2)" using w' by (simp add: db'_def)
  have g: "grows db2 db'" using w' by (simp add: grows_def db'_def file_of_def)
  have l: "length c + (put_cost P cfg k v + n) < 2 ^ 63" using assms(2,3) unfolding batch_ready_def room_def by blast
  then have l': "length c + length (serializeEntry e) < 2 ^ 63" by (simp only: sz(2))
  have "db_open db3" using w(2) unfolding wrote_def by blast
  then have o: "db_open db'" by (simp add: db_open_def db'_def file_of_def)
  have rm: "room n db'"
  proof -
    have "room n db3" by (rule wrote_room [OF w(2)]) (simp only: sz(2) w2(4))
    then show ?thesis by (simp add: room_def db'_def file_of_def)
  qed
  have ins: "entry_inside db' kd"
    unfolding entry_inside_def kd_def using stored_at_slice(2) [OF sz(1) l', of "activeFileID db"] f [of "activeFileID db"] by auto
  have "index_sound db'"
  proof (rule index_after_set [OF w2(3) g o kd ins], intro allI impI)
    fix fid x assume "file_of db' fid = Some x"
    then show "length x < 2 ^ 63" using rm unfolding room_def by fastforce
  qed
  moreover have "wal_ready db'" using w' by (simp add: db'_def wal_ready_def)
  moreover have "smart db' = None" "config db' = cfg" using w' b2 by (simp_all add: db'_def batch_ready_def)
  ultimately have br: "batch_ready P cfg n db'" using rm r(4) by (simp add: batch_ready_def)
  have d: "db_decompress P db' = db_decompress P db2" "db_decompress P db' = db_decompress P db"
    using \<open>smart db' = None\<close> b2 r(2) by (simp_all add: fun_eq_iff db_decompress_def batch_ready_def)
  have "db_value P db' kd = Ok v"
  proof -
    have "db_value P db' kd = db_decompress P db' (eValue e) (eCompression e)"
      using stored_at_slice(1) [OF sz(1) l'] by (simp add: db_value_def kd_def f)
    also have "\<dots> = Ok v" using unpack [OF k(2), of cfg v] \<open>smart db' = None\<close> by (simp add: e_def batch_entry_def db_decompress_def)
    finally show ?thesis .
  qed
  then have "db_view P db' = (db_view P db2)(k \<mapsto> (Ok v, 0))"
    using index_view_after_set [OF w2(3) g d(1) kd] by (simp add: kd_def e_def batch_entry_def)
  then have v: "db_view P db' = (db_view P db)(k \<mapsto> (Ok v, 0))" by (simp add: same_store_view [OF s2])
  have bc: "activeFileID db' = activeFileID db" "blockCache db' = blockCache db" "keyCache db' = keyCache db"
    using w' fld by (simp_all add: db'_def)
  show thesis
    by (rule that [OF run br bc f [unfolded e_def] _ v]) (simp add: kd fld(2), simp add: kd_def e_def)
qed


definition put_all :: "(key \<times> bytes) list \<Rightarrow> view \<Rightarrow> view" where
  "put_all kvs m = fold (\<lambda>(k, v) m. if k = [] then m else m(k \<mapsto> (Ok v, 0))) kvs m"

lemma batch_items_view:
  assumes "\<forall>(k, v) \<in> set kvs. k \<noteq> [] \<longrightarrow> plain_fits P cfg k v"
    and "batch_ready P cfg (sum_list (map (\<lambda>(k, v). put_cost P cfg k v) kvs) + n) db" "file_of db (activeFileID db) = Some c"
  shows "\<exists>db'. batch_items P kvs (int (length c)) db = (Ok (), db') \<and> batch_ready P cfg n db' \<and>
    db_view P db' = put_all kvs (db_view P db)"
  using assms
proof (induction kvs arbitrary: db c)
  case Nil
  then show ?case by (simp add: put_all_def)
next
  case (Cons kv kvs)
  obtain k v where kv: "kv = (k, v)" by (rule prod.exhaust)
  let ?m = "sum_list (map (\<lambda>(k, v). put_cost P cfg k v) kvs) + n"
  have rd: "batch_ready P cfg (put_cost P cfg k v + ?m) db" using Cons.prems(2) by (simp add: kv add.assoc)
  show ?case
  proof (cases "k = []")
    case True
    have "batch_ready P cfg ?m db" using rd room_less by (auto simp: batch_ready_def)
    then show ?thesis using Cons.IH [of db c] Cons.prems by (simp add: kv True put_all_def)
  next
    case False
    then have fit: "plain_fits P cfg k v" using Cons.prems(1) by (simp add: kv)
    obtain db1 t where b: "\<And>kvs. batch_items P ((k, v) # kvs) (int (length c)) db = batch_items P kvs (int (length c + put_cost P cfg k v)) db1"
      "batch_ready P cfg ?m db1" "activeFileID db1 = activeFileID db"
      "\<And>fid. file_of db1 fid = (if fid = activeFileID db then Some (c @ serializeEntry (batch_entry P cfg t k v)) else file_of db fid)"
      "db_view P db1 = (db_view P db)(k \<mapsto> (Ok v, 0))"
      by (rule batch_item [OF fit rd Cons.prems(3)]) (rule that; assumption)
    let ?c = "c @ serializeEntry (batch_entry P cfg t k v)"
    have l: "length ?c = length c + put_cost P cfg k v" by (simp only: length_append batch_entry_sized(2) [OF fit])
    have "file_of db1 (activeFileID db1) = Some ?c" by (simp add: b(3,4))
    from Cons.IH [OF _ b(2) this] obtain db' where "batch_items P kvs (int (length ?c)) db1 = (Ok (), db')"
      "batch_ready P cfg n db'" "db_view P db' = put_all kvs (db_view P db1)"
      using Cons.prems(1) by auto
    moreover have "put_all (kv # kvs) (db_view P db) = put_all kvs (db_view P db1)"
      using False unfolding put_all_def kv b(5) by simp
    ultimately show ?thesis unfolding kv b(1) l by metis
  qed
qed

text \<open>The whole batch, after the rotation that an estimate of its size may have asked for.\<close>

lemma BatchPut_view:
  assumes "\<forall>(k, v) \<in> set kvs. k \<noteq> [] \<longrightarrow> plain_fits P cfg k v"
    and "batch_ready P cfg (sum_list (map (\<lambda>(k, v). put_cost P cfg k v) kvs) + n) db"
  shows "\<exists>db'. BatchPut P kvs db = (Ok (), db') \<and> batch_ready P cfg n db' \<and> db_view P db' = put_all kvs (db_view P db)"
proof (cases "kvs = []")
  case True
  then show ?thesis using assms(2) by (simp add: BatchPut_def put_all_def)
next
  case False
  let ?m = "sum_list (map (\<lambda>(k, v). put_cost P cfg k v) kvs) + n"
  define db1 where "db1 = (if estimated_size kvs > 0 then rotate_for (estimated_size kvs) db else db)"
  have i: "index_sound db" "db_open db" using assms(2) by (simp_all add: batch_ready_def index_sound_def)
  have "rotated db (rotate_for (estimated_size kvs) db)" by (rule rotate_for_rotated [OF i(2)])
  moreover have "rotated db db" using i(2) by (auto simp: rotated_def db_open_def dir_keeps_same)
  ultimately have r: "rotated db db1" by (simp add: db1_def)
  have r': "db_open db1" "grows db db1" "wal_ready db1 = wal_ready db" "keyDir db1 = keyDir db" "smart db1 = smart db" "config db1 = config db"
    using r unfolding rotated_def by blast+
  have f: "file_of db fid = Some x \<or> x = []" if "file_of db1 fid = Some x" for fid x
    using r that unfolding rotated_def by (metis option.inject)
  have rm: "room ?m db" using assms(2) by (simp add: batch_ready_def)
  have "room ?m db1" using rm f unfolding room_def by (metis add_0 list.size(3))
  moreover have "index_sound db1"
  proof -
    have "entry_inside db1 kd" if l: "live db1 k kd" for k kd
    proof -
      have "live db k kd" using l by (simp add: live_def r'(4))
      then have "entry_inside db kd" using i(1) by (auto simp: index_sound_def)
      then show ?thesis by (rule grown_entry(1) [OF r'(2)])
    qed
    moreover have "length x < 2 ^ 63" if "file_of db1 fid = Some x" for fid x
      using f [OF that] i(1) unfolding index_sound_def by (auto simp: that)
    ultimately show ?thesis using i(1) r'(1) by (simp add: index_sound_def r'(4))
  qed
  ultimately have b: "batch_ready P cfg ?m db1" using assms(2) r' by (simp add: batch_ready_def)
  obtain c where c: "activeFile db1 = Some (data_name (activeFileID db1))" "file_of db1 (activeFileID db1) = Some c"
    using r'(1) by (auto simp: db_open_def)
  have sz: "active_size db1 = Ok (length c)"
    using c by (simp add: active_size_def file_size_def contents_def file_of_def)
  have "db_view P db1 = db_view P db"
  proof
    fix k
    have "db_value P db1 kd = db_value P db kd" if l: "live db k kd" for kd
    proof -
      have "entry_inside db kd" using i(1) l by (auto simp: index_sound_def)
      then show ?thesis
        using grown_entry(2) [OF r'(2)] r'(5) by (simp add: db_decompress_def fun_eq_iff)
    qed
    then show "db_view P db1 k = db_view P db k" by (auto simp: db_view_def r'(4) live_def split: option.splits)
  qed
  then show ?thesis
    using batch_items_view [OF assms(1) b c(2)] False by (simp add: BatchPut_def Let_def db1_def [symmetric] sz)
qed

section \<open>A stale block\<close>

text \<open>
  A cached block answers for every value inside it, also for one that was written after it. The key cache
  still has the old position, under which no block is filed; the index has the new one.
\<close>

lemma Get_from_block:
  assumes "lru_inv (bcCache (blockCache db))" "lru_inv (kcCache (keyCache db))" "blockSize (blockCache db) = 4096"
    and "k \<noteq> []" "key_peek db k = Some (encode_KeyDir kd0)" "block_peek P db (FileID kd0) (ValuePos kd0) = None"
    and "cm_Get (keyDir db) k = Some kd" "\<not> Deleted kd" "TTL kd = 0" "smart db = None"
    and "block_peek P db (FileID kd) (kd_block kd) = Some b" "extractDataFromBlock b kd (kd_block kd) = Some d"
  shows "fst (Get P k db) = decompressChunk P d (Compression kd)"
proof -
  let ?db0 = "bump (\<lambda>m. m\<lparr>TotalReads := TotalReads m + 1\<rparr>) db"
  let ?kd = "decode_KeyDir (encode_KeyDir kd0)"
  have kd: "FileID ?kd = FileID kd0" "ValuePos ?kd = ValuePos kd0" "TTL ?kd = 0"
    by (simp_all add: decode_encode_KeyDir)
  obtain db1 where g: "get_cached_keydir P k ?db0 = (Some ?kd, db1)"
    and f1: "keyDir db1 = keyDir db" "blockCache db1 = blockCache db" "smart db1 = None"
    using assms(2,5,10) by (simp add: get_cached_keydir_def GetKeyDir_def db_now_eq lru_Get_peek key_peek_def)
  have ct: "check_ttl P ?kd db1 = (False, db1)" by (simp add: check_ttl_def kd(3))
  obtain db2 where t: "tryCacheRead P ?kd db1 = (Ok None, db2)"
    and f2: "keyDir db2 = keyDir db" "smart db2 = None" "blockSize (blockCache db2) = 4096"
      "lru_inv (bcCache (blockCache db2))" "block_peek P db2 fid off = block_peek P db fid off" for fid off
    using assms(1,3,6) f1
    by (simp add: tryCacheRead_def get_block_def GetBlock_def db_now_eq lru_Get_peek block_peek_def block_key_def kd lru.peek_touch lru.inv_touch)
  let ?db3 = "cache_put P k kd db2"
  have f3: "blockCache ?db3 = blockCache db2" "smart ?db3 = None" using f2(2) by (simp_all add: cache_put_def db_now_eq)
  obtain db4 where b: "get_block P (FileID kd) (kd_block kd) 4096 ?db3 = (Some b, db4)" "smart db4 = None"
    using f2(4,5) assms(11) f3 by (simp add: get_block_def GetBlock_def db_now_eq lru_Get_peek block_peek_def block_key_def)
  have "readData P kd ?db3 = (Ok d, db4)"
    using b assms(12) f2(3) f3 by (simp add: readData_def block_start_def kd_block_def)
  moreover have "check_ttl P kd ?db3 = (False, ?db3)" by (simp add: check_ttl_def assms(9))
  ultimately show ?thesis
    using g f2(1) assms(4,7,8) b(2) ct t
    by (simp add: Get_def get_indexed_def Let_def db_decompress_def split: outcome.split)
qed

lemma extract_zeros:
  assumes "unat (ValuePos kd) < 2 ^ 63" "length c \<le> unat (ValuePos kd)"
    and "unat (ValuePos kd) + unat (ValueSize kd) \<le> unat (kd_block kd) + 4096"
  shows "extractDataFromBlock (zero_fill 4096 (read_at_partial c (sint (kd_block kd)) 4096)) kd (kd_block kd) =
    Some (replicate (unat (ValueSize kd)) 0)"
proof -
  let ?s = "unat (kd_block kd)" and ?p = "unat (ValuePos kd)" and ?n = "unat (ValueSize kd)"
  let ?o = "ValuePos kd - kd_block kd"
  note bm = block_mod [of "ValuePos kd", folded kd_block_def]
  have so: "?s + unat ?o = ?p" using bm(2,3) by simp
  then have "?s < 2 ^ 63" using assms(1) by linarith
  then have "sint (kd_block kd) = int ?s" by (rule sint_small)
  then have r: "read_at_partial c (sint (kd_block kd)) 4096 = byte_slice ?s 4096 c"
    by (simp add: read_at_partial_def)
  let ?r = "byte_slice ?s 4096 c"
  have l: "length ?r \<le> 4096" "length ?r \<le> unat ?o" using assms(2) so by (simp_all add: byte_slice_def)
  have sum: "unat ?o + ?n \<le> 4096" using assms(3) so by linarith
  have u: "unat (ucast (ValueSize kd) :: 64 word) = ?n" by (rule unat_ucast_32_64)
  have "unat ?o + ?n < 2 ^ 64" using sum by (rule le_less_trans) simp
  then have "unat (?o + ucast (ValueSize kd)) = unat ?o + ?n" using u by (simp add: unat_add_lem [THEN iffD1])
  then have "?o + ucast (ValueSize kd) \<le> of_nat (length (zero_fill 4096 ?r))"
    using sum l(1) by (simp add: word_le_nat_alt)
  moreover have "byte_slice (unat ?o) ?n (zero_fill 4096 ?r) = replicate ?n 0"
    using l sum by (simp add: byte_slice_def zero_fill_def min_def)
  ultimately show ?thesis by (simp add: extractDataFromBlock_def Let_def r)
qed

text \<open>An entry that starts a value off a block boundary is not found under its own position.\<close>

lemma unaligned_not_cached:
  assumes "db_sound P db" "sha_separates (sha256 P)" "\<not> 4096 dvd unat off"
  shows "block_peek P db fid off = None"
proof (rule ccontr)
  assume "block_peek P db fid off \<noteq> None"
  then obtain x where "lru_peek (bcCache (blockCache db)) (block_key P fid off) = Some x" by (auto simp: block_peek_def)
  then have "block_ok P db (block_key P fid off) x" using lru.coherentD [OF db_soundD(8) [OF assms(1)]] by blast
  then obtain fid' off' where "generateBlockKey (sha256 P) fid off = generateBlockKey (sha256 P) fid' off'" "4096 dvd unat off'"
    unfolding block_ok_def block_key_def by blast
  then show False using assms(3) generateBlockKey_inj [OF assms(2)] by simp
qed

lemma overwritten_reads_zeros:
  assumes "plain_fits P cfg k v1" "plain_fits P cfg k v2" "sha_separates (sha256 P)"
    and "plain_ready P cfg (put_cost P cfg k v1 + (put_cost P cfg k v2 + n)) db"
    and "file_of db (activeFileID db) = Some c"
    and "int (length c + put_cost P cfg k v1 + (length v2 + HeaderSize + length k)) \<le> MaxFileSize cfg"
    and "p = length c + (HeaderSize + length k)" "\<not> 4096 dvd p" 
    and "p + put_cost P cfg k v1 + length (fst (pack P cfg v2)) < p div 4096 * 4096 + 4096"
    and "Put P k v1 db = (r0, db1)" "Get P k db1 = (r1, db2)" "BatchPut P [(k, v2)] db2 = (r2, db3)" "Get P k db3 = (r3, db4)"
  shows "r1 = Ok v1" "r2 = Ok ()" "db_view P db3 k = Some (Ok v2, 0)"
    "r3 = decompressChunk P (replicate (length (fst (pack P cfg v2))) 0) (snd (pack P cfg v2))"
proof -
  let ?z = "fst (pack P cfg v1)" and ?a = "snd (pack P cfg v1)" and ?z2 = "fst (pack P cfg v2)"
  obtain x where q: "plain_ready P cfg (put_cost P cfg k v2 + n) db1" "db_view P db1 = (db_view P db)(k \<mapsto> (Ok v1, x))"
    "stamp_ok P (wTicks (world db)) (wTicks (world db1)) 0 x" "put_trace P k ?z ?a x db db1"
    using plain_PutWithTTL [OF assms(1,4), of 0] assms(10) unfolding Put_def by (metis prod.inject)
  have x: "x = 0" using q(3) by (simp add: stamp_ok_def)
  have f: "k \<noteq> []" "length k < 2 ^ 16" "length ?z < 2 ^ 32" using assms(1) by (simp_all add: plain_fits_def)
  have i: "cm_inv (keyDir db)" "db_open db" "db_sound P db1" "smart db1 = None" "config db = cfg"
    using assms(4) q(1) db_soundD(1,5) by (auto simp: plain_ready_def)
  have sz: "entry_sized (mk_entry ts x ?a k ?z)" for ts by (rule mk_entry_sized [OF f(2,3)])
  obtain kd c' where w: "cm_Get (keyDir db1) k = Some kd" "\<not> Deleted kd" "TTL kd = x" "key_peek db1 k = Some (encode_KeyDir kd)"
    "\<And>fid off. block_peek P db1 fid off = None" "file_of db1 (FileID kd) = Some (c' @ serializeEntry (mk_entry (Timestamp kd) x ?a k ?z))"
    "ValuePos kd = value_pos (int (length c')) (mk_entry (Timestamp kd) x ?a k ?z)" "FileID kd = activeFileID db1"
    "\<And>c0. file_of db (activeFileID db) = Some c0 \<Longrightarrow> db_open db \<Longrightarrow>
      int (length c0) + int (HeaderSize + length k + length ?z) \<le> MaxFileSize (config db) \<Longrightarrow> c' = c0"
    by (rule put_position [OF q(4) i(1) sz]) (rule that; assumption)
  have pc: "put_cost P cfg k v1 = HeaderSize + length k + length ?z" by (simp add: put_cost_def)
  have c': "c' = c" by (rule w(9) [OF assms(5) i(2)]) (use assms(6) pc i(5) in simp)
  let ?c1 = "c @ serializeEntry (mk_entry (Timestamp kd) x ?a k ?z)"
  have l1: "length ?c1 = length c + put_cost P cfg k v1" using sz [of "Timestamp kd"] pc by (simp add: entry_sized_def)
  have "length ?c1 < 2 ^ 63" using db_soundD(6) [OF i(3) w(6)] unfolding c' .
  then have pos: "unat (ValuePos kd) = p"
    using value_pos_nat [OF sz, of "length c" "Timestamp kd"] by (simp add: w(7) c' assms(7))
  have lv: "live db1 k kd" using w(1,2) by (simp add: live_def)
  note g1 = Get_fills_block [OF i(3) assms(3) f(1) lv w(3) [unfolded x] w(5) w(4) w(5) w(6) assms(11), unfolded c']
  have "db_view P db1 k = Some (db_value P db1 kd, TTL kd)" using w(1,2) by (simp add: db_view_def)
  then have "db_value P db1 kd = Ok v1" by (simp add: q(2))
  then show "r1 = Ok v1" using g1(1) by simp
  have rd: "activeFileID db2 = activeFileID db1" "file_of db2 = file_of db1" "keyDir db2 = keyDir db1"
    using g1(3) reads_view(3) [OF g1(3)] by (simp_all add: reads_def)
  have r2: "plain_ready P cfg (put_cost P cfg k v2 + n) db2" by (rule reads_plain_ready [OF g1(3) q(1)])
  then have b2: "batch_ready P cfg (put_cost P cfg k v2 + n) db2" by (rule plain_ready_batch)
  have d2: "db_sound P db2" "config db2 = cfg" "db_open db2" using r2 db_soundD(5) by (auto simp: plain_ready_def)
  have f2: "file_of db2 (activeFileID db2) = Some ?c1" using w(6,8) by (simp add: rd c')
  have as: "active_size db2 = Ok (length ?c1)"
    using d2(3) f2 by (simp add: active_size_def file_size_def contents_def file_of_def db_open_def)
  then have rot: "rotate_for (estimated_size [(k, v2)]) db2 = db2"
    using assms(6) f(1) unfolding rotate_for_def as outcome.case d2(2) l1 by (simp add: estimated_size_def)
  obtain db' t where b: "\<And>kvs. batch_items P ((k, v2) # kvs) (int (length ?c1)) db2 =
      batch_items P kvs (int (length ?c1 + put_cost P cfg k v2)) db'"
    "batch_ready P cfg n db'" "activeFileID db' = activeFileID db2" "blockCache db' = blockCache db2" "keyCache db' = keyCache db2"
    "\<And>fid. file_of db' fid = (if fid = activeFileID db2 then Some (?c1 @ serializeEntry (batch_entry P cfg t k v2)) else file_of db2 fid)"
    "keyDir db' = cm_Set k (stored_at (activeFileID db2) (length ?c1) (batch_entry P cfg t k v2)) (keyDir db2)"
    "db_view P db' = (db_view P db2)(k \<mapsto> (Ok v2, 0))"
    by (rule batch_item [OF assms(2) b2 f2]) (rule that; assumption)
  have "BatchPut P [(k, v2)] db2 = (Ok (), db')"
    unfolding BatchPut_def Let_def rot if_cancel as outcome.case b(1) batch_items.simps(1) by simp
  then have e: "r2 = Ok ()" "db3 = db'" using assms(12) by simp_all
  then show "r2 = Ok ()" "db_view P db3 k = Some (Ok v2, 0)" by (simp_all add: b(8))
  let ?e2 = "batch_entry P cfg t k v2"
  define kd2 where "kd2 = stored_at (activeFileID db2) (length ?c1) ?e2"
  note sz2 = batch_entry_sized [OF assms(2), of t]
  have "length ?c1 + put_cost P cfg k v2 < 2 ^ 63" using b2 f2 unfolding batch_ready_def room_def by fastforce
  then have n2: "length ?c1 + length (serializeEntry ?e2) < 2 ^ 63" by (simp only: sz2(2))
  have ek: "eKey ?e2 = k" "eValue ?e2 = ?z2" by (simp_all add: batch_entry_def)
  have pos2: "unat (ValuePos kd2) = p + put_cost P cfg k v1"
  proof -
    have "ValuePos kd2 = value_pos (int (length ?c1)) ?e2" by (simp only: kd2_def stored_at_def KeyDir.simps)
    then have "unat (ValuePos kd2) = length ?c1 + (HeaderSize + length k)"
      using value_pos_nat [OF sz2(1) n2] unfolding ek by (rule ssubst)
    then show ?thesis unfolding l1 assms(7) by linarith
  qed
  have vs: "unat (ValueSize kd2) = length ?z2" "Compression kd2 = snd (pack P cfg v2)" "TTL kd2 = 0" "\<not> Deleted kd2" "FileID kd2 = activeFileID db2"
    using sz2(1) by (simp_all add: kd2_def stored_at_def entry_sized_def batch_entry_def)
  have same: "kd_block kd2 = kd_block kd"
  proof -
    have "(p + put_cost P cfg k v1) div 4096 = p div 4096"
      by (rule div_nat_eqI) (use assms(9) in simp, use assms(9) in simp)
    then show ?thesis using block_mod(3) [of "ValuePos kd"] block_mod(3) [of "ValuePos kd2"]
      by (simp add: kd_block_def word_unat_eq_iff pos pos2)
  qed
  let ?b = "zero_fill 4096 (read_at_partial ?c1 (sint (kd_block kd)) 4096)"
  have ins: "p + put_cost P cfg k v1 \<ge> length ?c1" by (simp only: l1 assms(7))
  have "unat (ValuePos kd2) < 2 ^ 63" using n2 sz2(2) pos2 l1 assms(7) pc by (simp add: put_cost_def)
  then have ex: "extractDataFromBlock ?b kd2 (kd_block kd2) = Some (replicate (unat (ValueSize kd2)) 0)"
    unfolding same [symmetric]
  proof (rule extract_zeros)
    show "length ?c1 \<le> unat (ValuePos kd2)" using ins unfolding pos2 .
    show "unat (ValuePos kd2) + unat (ValueSize kd2) \<le> unat (kd_block kd2) + 4096"
      using assms(9) block_mod(3) [of "ValuePos kd"] unfolding same by (simp add: pos2 vs kd_block_def pos)
  qed
  have bp: "block_peek P db3 (FileID kd2) (kd_block kd2) = Some ?b"
    using g1(4) w(8) by (simp add: e(2) block_peek_def b(4) same rd vs)
  have no: "block_peek P db3 (FileID kd) (ValuePos kd) = None"
    using unaligned_not_cached [OF d2(1) assms(3)] assms(8) pos by (simp add: e(2) block_peek_def b(4))
  have kp: "key_peek db3 k = Some (encode_KeyDir kd)" using g1(2) by (simp add: e(2) key_peek_def b(5))
  have cg: "cm_Get (keyDir db3) k = Some kd2" by (simp add: e(2) b(7) kd2_def cm.get_set [OF db_soundD(1) [OF d2(1)]])
  have "smart db3 = None" using b(2) by (simp add: e(2) batch_ready_def)
  from Get_from_block [OF _ _ _ f(1) kp no cg vs(4,3) this bp ex] db_soundD(2-4) [OF d2(1)]
  show "r3 = decompressChunk P (replicate (length ?z2) 0) (snd (pack P cfg v2))"
    using assms(13) by (simp add: e(2) b(4,5) vs)
qed

end
