(* ===== verification/Compaction.thy ===== *)
theory Compaction
  imports Engine
begin

text \<open>
  \<open>Compact\<close>: the live keys are rewritten to a temporary file, the old files are removed, the
  temporary file is renamed to \<open>1.data\<close> and the index is replaced. The caches are left as they
  are.
\<close>

section \<open>Collecting and rewriting\<close>

definition createCompactFile :: "Platform \<Rightarrow> GojiDB \<Rightarrow> bytes \<times> GojiDB" where
  "createCompactFile P db =
     (let (t, db1) = db_now P db; f = str ''compact_'' @ show_int t @ DataSuffix
      in (f, db1\<lparr>world := (world db1)\<lparr>wFiles := AList.update f [] (wFiles (world db1))\<rparr>\<rparr>))"

definition collectActiveKeys :: "Platform \<Rightarrow> GojiDB \<Rightarrow> (key \<times> KeyDir) list \<times> GojiDB" where
  "collectActiveKeys P db =
     (let (t, db1) = db_now P db in (range_keys (unexpired (unix32 t)) db1, db1))"

text \<open>
  For a file that is not the active one the result of \<open>ReadAt\<close> goes to a shadowed variable: a
  short read is reported as success, with the missing bytes zero.
\<close>

definition readKeyData :: "GojiDB \<Rightarrow> KeyDir \<Rightarrow> bytes outcome" where
  "readKeyData db kd =
     (let n = unat (ValueSize kd); off = sint (ValuePos kd)
      in if FileID kd = activeFileID db
         then bind_outcome (entry_file db (FileID kd)) (\<lambda>c. read_at c off n)
         else bind_outcome (entry_file db (FileID kd)) (\<lambda>c. Ok (zero_fill n (read_at_partial c off n))))"

text \<open>Data that does not decode is kept as it is; a failing \<open>compress\<close> stores it raw.\<close>

definition processKeyData :: "Platform \<Rightarrow> bytes \<Rightarrow> KeyDir \<Rightarrow> GojiDB \<Rightarrow> (bytes \<times> CompressionType) result" where
  "processKeyData P data kd db =
     (case db_decompress P db data (Compression kd) of
        Panic \<Rightarrow> (Panic, db)
      | Blocked \<Rightarrow> (Blocked, db)
      | r \<Rightarrow>
          (let val = (case r of Ok v \<Rightarrow> v | _ \<Rightarrow> data); (c, db1) = db_compress P val db
           in case c of
                Err _ \<Rightarrow> (Ok (val, NoCompression), db1)
              | x \<Rightarrow> (x, db1)))"

definition createEntry :: "key \<Rightarrow> bytes \<Rightarrow> KeyDir \<Rightarrow> CompressionType \<Rightarrow> Entry" where
  "createEntry k data kd ct = mk_entry (Timestamp kd) (TTL kd) ct k data"

text \<open>
  The loop over the live keys, with the new index so far and the running offset. A key whose
  data cannot be read or written is left out; a failed write does not move the offset.
\<close>

fun rewriteActiveKeys ::
  "Platform \<Rightarrow> bytes \<Rightarrow> (key \<times> KeyDir) list \<Rightarrow> (key \<times> KeyDir) list \<Rightarrow> int \<Rightarrow> GojiDB \<Rightarrow>
   (key \<times> KeyDir) list result" where
  "rewriteActiveKeys P f [] new off db = (Ok new, db)"
| "rewriteActiveKeys P f ((k, kd) # kvs) new off db =
     (case readKeyData db kd of
        Ok data \<Rightarrow>
          db_then (processKeyData P data kd db) (\<lambda>(z, a) db1.
            let e = createEntry k z kd a; bs = serializeEntry e;
                (r, w) = append_file P (Some f) bs (world db1); db2 = db1\<lparr>world := w\<rparr>
            in case r of
                 Ok _ \<Rightarrow>
                   rewriteActiveKeys P f kvs
                     (AList.update k
                        \<lparr>FileID = 1, ValueSize = eValueSize e, ValuePos = value_pos off e,
                         Timestamp = eTimestamp e, TTL = eTTL e, Compression = eCompression e,
                         Deleted = False\<rparr> new)
                     (off + int (length bs)) db2
               | _ \<Rightarrow> rewriteActiveKeys P f kvs new off db2)
      | _ \<Rightarrow> rewriteActiveKeys P f kvs new off db)"

section \<open>Replacing the files\<close>

definition cleanupOldFiles :: "bytes \<Rightarrow> GojiDB \<Rightarrow> GojiDB" where
  "cleanupOldFiles f db =
     (let fs = wFiles (world db)
      in db\<lparr>activeFile := None, readFiles := [],
            world := (world db)\<lparr>wFiles := fold AList.delete (filter (\<lambda>g. g \<noteq> f) (glob_data fs)) fs\<rparr>\<rparr>)"

definition rename_file :: "bytes \<Rightarrow> bytes \<Rightarrow> files \<Rightarrow> files option" where
  "rename_file f g fs =
     (case map_of fs f of
        None \<Rightarrow> None
      | Some c \<Rightarrow> Some (if f = g then fs else AList.update g c (AList.delete f fs)))"

definition updateDatabaseState :: "Platform \<Rightarrow> (key \<times> KeyDir) list \<Rightarrow> GojiDB \<Rightarrow> GojiDB" where
  "updateDatabaseState P new db =
     openActiveFile (db\<lparr>activeFileID := 1,
       keyDir := fold (\<lambda>(k, kd). cm_Set k kd) (visit P (wTicks (world db)) new)
                  (NewConcurrentMap 16)\<rparr>)"

definition finalizeCompaction :: "Platform \<Rightarrow> bytes \<Rightarrow> (key \<times> KeyDir) list \<Rightarrow> GojiDB \<Rightarrow> unit result" where
  "finalizeCompaction P f new db =
     (let db1 = cleanupOldFiles f db
      in case rename_file f (data_name 1) (wFiles (world db1)) of
           None \<Rightarrow> (Err (Wrapped ''rename compaction file'' NoSuchFile), db1)
         | Some fs \<Rightarrow> (Ok (), updateDatabaseState P new (db1\<lparr>world := (world db1)\<lparr>wFiles := fs\<rparr>\<rparr>)))"

text \<open>The deferred clean-up removes the temporary file, which exists only when the call failed.\<close>

definition remove_file :: "bytes \<Rightarrow> GojiDB \<Rightarrow> GojiDB" where
  "remove_file f db = db\<lparr>world := (world db)\<lparr>wFiles := AList.delete f (wFiles (world db))\<rparr>\<rparr>"

definition Compact :: "Platform \<Rightarrow> GojiDB \<Rightarrow> unit result" where
  "Compact P db0 =
     (let (f, db1) = createCompactFile P (bump (\<lambda>m. m\<lparr>CompactionCount := CompactionCount m + 1\<rparr>) db0);
          (live, db2) = collectActiveKeys P db1;
          (r, db3) = db_then (rewriteActiveKeys P f (visit P (wTicks (world db2)) live) [] 0 db2)
                       (finalizeCompaction P f)
      in (r, remove_file f db3))"

section \<open>Background goroutines\<close>

text \<open>A pending goroutine runs; the result of the compaction is dropped.\<close>

definition run_task :: "Platform \<Rightarrow> Task \<Rightarrow> GojiDB \<Rightarrow> unit result" where
  "run_task P t db =
     (case t of
        ExpireTask k \<Rightarrow> expireKey P k db
      | CompactTask \<Rightarrow> (case Compact P db of (Err _, db1) \<Rightarrow> (Ok (), db1) | x \<Rightarrow> x))"

end
