(* ===== verification/Snapshots.thy ===== *)
theory Snapshots
  imports Startup
begin

text \<open>
  \<open>snapshot.go\<close>: a snapshot copies the data files to a directory of its own with a metadata file;
  restoring replaces the data files by the copies and rebuilds the index. The log and the caches
  are not part of either. The JSON of the metadata is a parameter.
\<close>

record Snapshot =
  snapID :: key
  snapTimestamp :: instant
  snapKeyCount :: nat
  snapDataSize :: nat

definition MetaName :: bytes where
  "MetaName = str ''snapshot.json''"

definition data_files :: "files \<Rightarrow> files" where
  "data_files fs = map (\<lambda>f. (f, contents f fs)) (glob_data fs)"

definition CreateSnapshot :: "Platform \<Rightarrow> (Snapshot \<Rightarrow> bytes) \<Rightarrow> GojiDB \<Rightarrow> Snapshot result" where
  "CreateSnapshot P marshal db =
     (let (t, db1) = db_now P db; sid = str ''snapshot_'' @ show_int t;
          files = data_files (wFiles (world db1));
          dir = (case map_of (wSnaps (world db1)) sid of Some d \<Rightarrow> d | None \<Rightarrow> []);
          dir1 = fold (\<lambda>(f, c). AList.update f c) files dir;
          (t2, db2) = db_now P db1;
          snap = \<lparr>snapID = sid, snapTimestamp = t2,
                  snapKeyCount = length (range_keys (\<lambda>kd. \<not> Deleted kd) db2),
                  snapDataSize = sum_list (map (\<lambda>(f, c). length c) files)\<rparr>;
          dir2 = AList.update MetaName (marshal snap) dir1
      in (Ok snap, db2\<lparr>world := (world db2)\<lparr>wSnaps := AList.update sid dir2 (wSnaps (world db2))\<rparr>\<rparr>))"

definition RestoreFromSnapshot :: "Platform \<Rightarrow> key \<Rightarrow> GojiDB \<Rightarrow> unit result" where
  "RestoreFromSnapshot P sid db =
     (case map_of (wSnaps (world db)) sid of
        None \<Rightarrow> (Err (Message ''snapshot does not exist''), db)
      | Some dir \<Rightarrow>
          let fs = wFiles (world db);
              fs1 = fold AList.delete (glob_data fs) fs;
              fs2 = fold (\<lambda>(f, c). AList.update f c) (data_files dir) fs1;
              db1 = db\<lparr>activeFile := None, readFiles := [], keyDir := NewConcurrentMap 16,
                       world := (world db)\<lparr>wFiles := fs2\<rparr>\<rparr>
          in (Ok (), openActiveFile (rebuildKeyDir P db1)))"

text \<open>The directories in name order, those with readable metadata, latest first.\<close>

definition ListSnapshots :: "(bytes \<Rightarrow> Snapshot option) \<Rightarrow> GojiDB \<Rightarrow> Snapshot list" where
  "ListSnapshots unmarshal db =
     sort_slice (\<lambda>a b. snapTimestamp a > snapTimestamp b)
       (List.map_filter (\<lambda>sid. Option.bind (map_of (wSnaps (world db)) sid)
            (\<lambda>dir. Option.bind (map_of dir MetaName) unmarshal))
          (sort (map fst (wSnaps (world db)))))"

definition DeleteSnapshot :: "key \<Rightarrow> GojiDB \<Rightarrow> GojiDB" where
  "DeleteSnapshot sid db =
     db\<lparr>world := (world db)\<lparr>wSnaps := AList.delete sid (wSnaps (world db))\<rparr>\<rparr>"

end
