(* ===== verification/RecoverySpec.thy ===== *)
theory RecoverySpec
  imports Startup EngineSpec
begin

text \<open>
  What rebuilding the index from the data files yields: one record at a time, corrupted records
  left out.
\<close>

section \<open>One record at a time\<close>

lemma process_entries_record:
  assumes "entry_sized e"
  shows "process_entries P fid (serializeEntry e @ r) off db =
    process_entries P fid r (off + int (length (serializeEntry e))) (apply_entry P fid off e db)"
  by (subst process_entries.simps)
    (simp add: readEntry_serializeEntry [OF assms] of_nat_add)

lemma process_flipped_byte:
  assumes "entry_sized e" "verifyCRC e" "serializeEntry e = pre @ b # post"
    and "HeaderSize \<le> length pre" "b \<noteq> b'"
  shows "process_entries P fid (pre @ b' # post @ r) off db =
    process_entries P fid r (off + int (length (serializeEntry e))) db"
proof -
  obtain e' where e': "serializeEntry e' = pre @ b' # post" "entry_sized e'" "\<not> verifyCRC e'"
    using flipped_byte [OF assms] by metis
  have "process_entries P fid (serializeEntry e' @ r) off db =
      process_entries P fid r (off + int (length (serializeEntry e'))) db"
    by (simp only: process_entries_record [OF e'(2)] apply_entry_def e'(3) not_False_eq_True if_True)
  then show ?thesis by (simp add: e'(1) assms(3))
qed

end
