(* ===== verification/Sample.thy ===== *)
theory Sample
  imports Wal Cache TTL
begin

text \<open>
  One platform that satisfies every law the development assumes of its surroundings: codecs that
  tag the data, a hash that is the identity, a length-prefixed encoding of log records, a clock
  that advances by a second, maps visited in insertion order and writes that succeed. The
  witnesses of the properties are evaluated on it.
\<close>

definition strip :: "bytes \<Rightarrow> bytes \<Rightarrow> bytes option" where
  "strip tag d = (if take (length tag) d = tag then Some (drop (length tag) d) else None)"

definition marshal :: "WALEntry \<Rightarrow> bytes" where
  "marshal e = weType e # put_u64 (weTimestamp e) @ put_u32 (of_nat (length (weKey e))) @
     put_u32 (of_nat (length (weValue e))) @ weKey e @ weValue e @ weTxID e"

definition unmarshal :: "bytes \<Rightarrow> WALEntry option" where
  "unmarshal d =
     (if length d < 17 then None
      else let n = unat (get_u32 (byte_slice 9 4 d)); m = unat (get_u32 (byte_slice 13 4 d))
           in Some \<lparr>weType = hd d, weTimestamp = get_u64 (byte_slice 1 8 d),
                weKey = byte_slice 17 n d, weValue = byte_slice (17 + n) m d, weTxID = drop (17 + n + m) d\<rparr>)"

definition sample :: Platform where
  "sample =
     \<lparr>snappyEncode = (\<lambda>d. 0xf0 # d), snappyDecode = strip [0xf0],
      zstdEncode = (\<lambda>d. 0x28 # d), zstdDecode = strip [0x28],
      gzipEncode = (\<lambda>d. 0x1f # 0x8b # d), gzipDecode = strip [0x1f, 0x8b],
      sha256 = (\<lambda>d. d), jsonMarshal = marshal, jsonUnmarshal = unmarshal,
      clock = (\<lambda>n. 1700000000000000000 + int n * 1000000000), numCPU = 4,
      range_order = (\<lambda>t ks. ks), write_fault = (\<lambda>n. None)\<rparr>"

lemma sample_laws:
  "codec_ok sample" "order_ok sample" "writes_ok sample" "clock_mono sample"
  "formats_distinct sample" "sha_separates (sha256 sample)"
  by (simp_all add: sample_def codec_ok_def order_ok_def writes_ok_def clock_mono_def
      formats_distinct_def sha_separates_def strip_def)

lemma unmarshal_marshal:
  assumes "length (weKey e) < 2 ^ 32" "length (weValue e) < 2 ^ 32"
  shows "unmarshal (marshal e) = Some e"
proof -
  let ?n = "length (weKey e)" and ?m = "length (weValue e)"
  have u: "unat (of_nat ?n :: 32 word) = ?n" "unat (of_nat ?m :: 32 word) = ?m"
    using assms by (simp_all add: unat_of_nat_small)
  have s: "byte_slice 1 8 (marshal e) = put_u64 (weTimestamp e)"
    "byte_slice 9 4 (marshal e) = put_u32 (of_nat ?n)"
    "byte_slice 13 4 (marshal e) = put_u32 (of_nat ?m)"
    "byte_slice 17 ?n (marshal e) = weKey e" "byte_slice (17 + ?n) ?m (marshal e) = weValue e"
    "drop (17 + ?n + ?m) (marshal e) = weTxID e"
    by (simp_all add: marshal_def byte_slice_def drop_Cons')
  have "17 \<le> length (marshal e)" "hd (marshal e) = weType e" by (simp_all add: marshal_def)
  then show ?thesis by (simp add: unmarshal_def Let_def s [simplified] u)
qed

lemma sample_wal_ok:
  assumes "length (wrKey r) < 2 ^ 30" "length (wrValue r) < 2 ^ 30" "length (wrTxID r) < 2 ^ 30" "wrChecksum r = 0"
  shows "wal_ok sample r"
proof -
  have "length (marshal (wal_entry r)) < 2 ^ 32"
    using assms by (simp add: marshal_def wal_entry_def)
  then show ?thesis
    using assms by (simp add: wal_ok_def sample_def unmarshal_marshal wal_entry_def)
qed

definition empty_world :: World where
  "empty_world = \<lparr>wFiles = [], wSnaps = [], wTicks = 0, wWrites = 0\<rparr>"

section \<open>Compressors\<close>

definition small_chunks :: SmartCompressionConfig where
  "small_chunks = (DefaultSmartCompressionConfig sample)\<lparr>ChunkSize := 2, MinSize := 4,
     EnableAdaptive := False, Algorithm := str ''zstd''\<rparr>"

lemma small_chunks_sc: "scConfig (fst (NewSmartCompressor sample small_chunks empty_world)) = small_chunks"
  by (simp add: NewSmartCompressor_def split_beta)

lemma small_chunks_fields:
  "\<not> EnableAdaptive small_chunks" "getDefaultAlgorithm small_chunks = ZSTDCompression" "ChunkSize small_chunks = int 2"
  by (simp_all add: small_chunks_def getDefaultAlgorithm_def str_def)

definition two_workers :: SmartCompressor where
  "two_workers = fst (NewSmartCompressor sample
     (small_chunks\<lparr>ChunkSize := 1, MaxParallelism := 2\<rparr>) empty_world)"

definition any_gain :: SmartCompressor where
  "any_gain = fst (NewSmartCompressor sample (small_chunks\<lparr>ChunkSize := 100, CompressionGain := - 100,
     EnableDictionary := False\<rparr>) empty_world)"

lemma any_gain_config: "scConfig any_gain = small_chunks\<lparr>ChunkSize := 100, CompressionGain := - 100,
     EnableDictionary := False\<rparr>"
  by (simp add: any_gain_def NewSmartCompressor_def)

lemma any_gain_misses: "cc_get (scCache any_gain) d = None"
  by (simp add: any_gain_def NewSmartCompressor_def newCompressionCache_def cc_get_def)

lemma any_gain_compresses:
  "fst (CompressWithSmartChoice sample [97, 97, 97, 97] any_gain empty_world) =
     Ok ([40, 97, 97, 97, 97], ZSTDCompression)"
proof -
  have cfg: "getDefaultAlgorithm (scConfig any_gain) = 2" "\<not> EnableAdaptive (scConfig any_gain)"
    "MinSize (scConfig any_gain) = 4" "MaxSize (scConfig any_gain) = 1048576" "ChunkSize (scConfig any_gain) = 100"
    "CompressionGain (scConfig any_gain) = - 100" "EnableDictionary (scConfig any_gain) = False"
    by (simp_all add: any_gain_config small_chunks_def DefaultSmartCompressionConfig_def getDefaultAlgorithm_def str_def)
  have s: "ShouldCompress sample (scConfig any_gain) [97, 97, 97, 97] = Ok True"
    by (simp add: ShouldCompress_def cfg calculateEntropy_def hasLowRedundancy_def testCompression_def gain_def
        compressWithAlgorithm_def sample_def)
  have g: "gain [97, 97, 97, 97] [40, 97, 97, 97, 97] = - 25" by (simp add: gain_def)
  have z: "compressWithAlgorithm sample [97, 97, 97, 97] 2 = [40, 97, 97, 97, 97]"
    by (simp add: compressWithAlgorithm_def sample_def)
  show ?thesis
    using s
    by (simp add: CompressWithSmartChoice_def any_gain_misses compress_uncached_def Let_def
        compress_single_def split_beta cfg selectBestAlgorithmWithContext_def z g addToDictionaryTraining_def)
qed

definition streaming :: SmartCompressionConfig where
  "streaming = small_chunks\<lparr>CompressionGain := - 100, EnableMixedMode := False, EnableParallel := False,
     EnableCache := False\<rparr>"

lemma streaming_compresses: "ShouldCompress sample streaming [97, 97, 97, 97] = Ok True"
  by (simp add: ShouldCompress_def streaming_def small_chunks_def DefaultSmartCompressionConfig_def
      getDefaultAlgorithm_def str_def calculateEntropy_def hasLowRedundancy_def testCompression_def gain_def
      compressWithAlgorithm_def sample_def)

section \<open>A log\<close>

definition fresh_wal :: "WALManager \<times> World" where
  "fresh_wal = (case NewWALManager sample (GojiDB_section (createDefaultConfig sample)) empty_world of
     (Ok m, w) \<Rightarrow> (m, w) | (_, w) \<Rightarrow> undefined)"

lemma fresh_wal_open:
  "wal_open (fst fresh_wal)" "WALSyncWrites (walConfig (fst fresh_wal))" "wal_image (fst fresh_wal) (snd fresh_wal) = []"
  by (simp_all add: fresh_wal_def NewWALManager_def createDefaultConfig_def wal_open_def wal_image_def
      read_clock_def empty_world_def split_beta contents_def create_missing_def)

definition torn_record :: WALRecord where
  "torn_record = \<lparr>wrType = WALPut, wrTimestamp = 0, wrKey = [107], wrValue = [118], wrTxID = [], wrChecksum = 0\<rparr>"

end
