(* ===== verification/Durability.thy ===== *)
theory Durability
  imports StoreSpec RecoverySpec
begin

text \<open>
  Durability. The data files are a log of records, and the index is what reading the log from
  its beginning yields, up to the entries of deleted keys. \<open>Put\<close> and \<open>Delete\<close> keep this, so opening
  the directory again gives the same view of the database.
\<close>

section \<open>The log in the data files\<close>

type_synonym index = "key \<Rightarrow> KeyDir option"
type_synonym log = "(32 word \<times> Entry list) list"

text \<open>What one record does to the index; the rebuild decodes with the plain codecs.\<close>

definition dead_entry :: "Platform \<Rightarrow> Entry \<Rightarrow> bool" where
  "dead_entry P e \<longleftrightarrow> decompressChunk P (eValue e) (eCompression e) = Ok TombstoneValue"

definition absorb :: "Platform \<Rightarrow> 32 word \<Rightarrow> nat \<Rightarrow> Entry \<Rightarrow> index \<Rightarrow> index" where
  "absorb P fid off e m =
     (if verifyCRC e \<and> (case m (eKey e) of None \<Rightarrow> True | Some old \<Rightarrow> Timestamp old \<le> eTimestamp e)
      then m(eKey e \<mapsto> index_entry fid (int off) (dead_entry P e) e) else m)"

fun absorb_all :: "Platform \<Rightarrow> 32 word \<Rightarrow> nat \<Rightarrow> Entry list \<Rightarrow> index \<Rightarrow> index" where
  "absorb_all P fid off [] m = m"
| "absorb_all P fid off (e # es) m =
     absorb_all P fid (off + length (serializeEntry e)) es (absorb P fid off e m)"

definition file_bytes :: "Entry list \<Rightarrow> bytes" where
  "file_bytes es = concat (map serializeEntry es)"

fun log_index :: "Platform \<Rightarrow> log \<Rightarrow> index \<Rightarrow> index" where
  "log_index P [] m = m"
| "log_index P ((fid, es) # fs) m = log_index P fs (absorb_all P fid 0 es m)"

lemma file_bytes_simps [simp]:
  "file_bytes [] = []" "file_bytes (e # es) = serializeEntry e @ file_bytes es"
  "file_bytes (es @ es') = file_bytes es @ file_bytes es'"
  by (simp_all add: file_bytes_def)

lemma absorb_all_append:
  "absorb_all P fid off (es @ es') m =
   absorb_all P fid (off + length (file_bytes es)) es' (absorb_all P fid off es m)"
  by (induction es arbitrary: off m) (simp_all add: add.assoc del: length_serializeEntry)

lemma log_index_append: "log_index P (a @ b) m = log_index P b (log_index P a m)"
  by (induction P a m rule: log_index.induct) simp_all

text \<open>The entries of the index come from records of the log.\<close>

lemma absorb_from:
  "absorb P fid off e m k = Some kd \<Longrightarrow> m k = Some kd \<or> (k = eKey e \<and> Timestamp kd = eTimestamp e)"
  by (auto simp: absorb_def index_entry_def split: if_splits)

lemma absorb_all_from:
  "absorb_all P fid off es m k = Some kd \<Longrightarrow>
   m k = Some kd \<or> (\<exists>e \<in> set es. k = eKey e \<and> Timestamp kd = eTimestamp e)"
proof (induction es arbitrary: off m)
  case (Cons e es)
  then show ?case using absorb_from [of P fid off e m k kd] by (auto simp del: length_serializeEntry)
qed simp

lemma log_index_from:
  "log_index P fs m k = Some kd \<Longrightarrow>
   m k = Some kd \<or> (\<exists>(fid, es) \<in> set fs. \<exists>e \<in> set es. k = eKey e \<and> Timestamp kd = eTimestamp e)"
proof (induction P fs m rule: log_index.induct)
  case (2 P fid es fs m)
  then show ?case using absorb_all_from [of P fid 0 es m k kd] by fastforce
qed simp

section \<open>Reading the log back\<close>

text \<open>A state under rebuild: only the index changes.\<close>

definition indexes :: "GojiDB \<Rightarrow> index \<Rightarrow> GojiDB \<Rightarrow> bool" where
  "indexes db m db' \<longleftrightarrow> db' = db\<lparr>keyDir := keyDir db'\<rparr> \<and> cm_inv (keyDir db') \<and> cm_Get (keyDir db') = m"

lemma apply_entry_absorbs:
  assumes "indexes db m db'" "smart db = None"
  shows "indexes db (absorb P fid off e m) (apply_entry P fid (int off) e db')"
proof -
  have i: "cm_inv (keyDir db')" "cm_Get (keyDir db') = m" "db' = db\<lparr>keyDir := keyDir db'\<rparr>"
    using assms(1) unfolding indexes_def by blast+
  have s: "smart db' = None" by (subst i(3)) (simp add: assms(2))
  have d: "is_tombstone P db' e = dead_entry P e"
    by (simp add: is_tombstone_def dead_entry_def db_decompress_def s)
  have g: "(\<lambda>k'. cm_Get (cm_Set k v (keyDir db')) k') = m(k \<mapsto> v)" for k v
    using cm.get_set [OF i(1)] i(2) by auto
  show ?thesis
  proof (cases "verifyCRC e \<and> (case m (eKey e) of None \<Rightarrow> True | Some old \<Rightarrow> Timestamp old \<le> eTimestamp e)")
    case True
    then have "apply_entry P fid (int off) e db' =
        db'\<lparr>keyDir := cm_Set (eKey e) (index_entry fid (int off) (dead_entry P e) e) (keyDir db')\<rparr>"
      by (simp add: apply_entry_def i(2) d split: option.splits)
    moreover have "db'\<lparr>keyDir := x\<rparr> = db\<lparr>keyDir := x\<rparr>" for x by (subst i(3)) simp
    ultimately show ?thesis
      using True g by (simp add: indexes_def absorb_def cm.inv_set i(1))
  next
    case False
    then have "apply_entry P fid (int off) e db' = db'" by (auto simp: apply_entry_def i(2) split: option.splits)
    then show ?thesis using False assms(1) by (simp only: absorb_def if_False)
  qed
qed

lemma process_entries_absorbs:
  assumes "\<forall>e \<in> set es. entry_sized e" "indexes db m db'" "smart db = None"
  shows "indexes db (absorb_all P fid off es m) (process_entries P fid (file_bytes es) (int off) db')"
  using assms(1,2)
proof (induction es arbitrary: off m db')
  case Nil
  have "readEntry [] = (Err EOF, [])" by (rule readEntry_nil)
  then show ?case using Nil by (subst file_bytes_simps, subst process_entries.simps) simp
next
  case (Cons e es)
  have "indexes db (absorb P fid off e m) (apply_entry P fid (int off) e db')"
    by (rule apply_entry_absorbs [OF Cons.prems(2) assms(3)])
  then show ?case
    using Cons.prems(1) Cons.IH [of "absorb P fid off e m" "apply_entry P fid (int off) e db'" "off + length (serializeEntry e)"]
    by (simp add: process_entries_record del: length_serializeEntry)
qed


text \<open>The files of a directory hold a log: one file per number, in ascending order.\<close>

definition disk_log :: "World \<Rightarrow> log \<Rightarrow> bool" where
  "disk_log w ls \<longleftrightarrow>
     ls \<noteq> [] \<and> sorted_wrt (<) (map fst ls) \<and> distinct (map fst (wFiles w)) \<and>
     set (glob_data (wFiles w)) = data_name ` fst ` set ls \<and>
     (\<forall>(fid, es) \<in> set ls. map_of (wFiles w) (data_name fid) = Some (file_bytes es) \<and> (\<forall>e \<in> set es. entry_sized e))"

lemma parse_data_name [simp, rt_simps]: "parseFileID (data_name fid) = Ok fid"
  by (simp add: parseFileID_def data_name_def)

definition id_of :: "bytes \<Rightarrow> 32 word" where
  "id_of f = (case parseFileID f of Ok fid \<Rightarrow> fid | _ \<Rightarrow> 0)"

lemma id_of_data_name [simp]: "id_of (data_name fid) = fid"
  by (simp add: id_of_def)

lemma disk_log_distinct: "disk_log w ls \<Longrightarrow> distinct (map fst ls)"
  by (simp add: disk_log_def strict_sorted_iff)

lemma glob_sorted:
  assumes "disk_log w ls"
  shows "sort_slice file_less (glob_data (wFiles w)) = map (data_name \<circ> fst) ls"
proof -
  let ?g = "glob_data (wFiles w)" and ?s = "sort_slice file_less (glob_data (wFiles w))"
  have set: "set ?g = data_name ` fst ` set ls" using assms by (simp add: disk_log_def)
  have dg: "distinct ?g" using assms by (simp add: disk_log_def glob_data_def)
  have fix_name: "data_name (id_of f) = f" if "f \<in> set ?g" for f using that set by auto
  have lt: "file_less a b \<longleftrightarrow> id_of a < id_of b" if "a \<in> set ?g" "b \<in> set ?g" for a b
    using that unfolding set by (auto simp: file_less_def)
  have "sorted (map id_of ?s)" by (rule sort_slice_sorted [OF lt])
  moreover have inj: "inj_on id_of (set ?g)" using fix_name by (intro inj_onI) metis
  then have "distinct (map id_of ?s)" using dg by (simp add: distinct_map)
  moreover have "set (map id_of ?s) = set (map fst ls)" using set by (simp add: image_image)
  moreover have "sorted (map fst ls)" "distinct (map fst ls)"
    using assms by (simp_all add: disk_log_def strict_sorted_iff)
  ultimately have "map id_of ?s = map fst ls" by (metis sorted_distinct_set_unique)
  then have "map data_name (map id_of ?s) = map (data_name \<circ> fst) ls" by simp
  moreover have "map data_name (map id_of ?s) = ?s"
    unfolding map_map by (rule map_idI) (simp add: fix_name)
  ultimately show ?thesis by simp
qed

lemma sorted_last: "sorted xs \<Longrightarrow> x \<in> set xs \<Longrightarrow> x \<le> last xs"
  by (induction xs) (auto split: if_splits)

lemma fold_max:
  "fold (\<lambda>f m. case parseFileID f of Ok fid \<Rightarrow> if fid > m then fid else m | _ \<Rightarrow> m) (map data_name ids) m =
   fold max ids m"
  by (induction ids arbitrary: m) (simp_all add: max_def not_le less_le)

lemma max_file_id_last:
  assumes "disk_log w ls"
  shows "max_file_id (glob_data (wFiles w)) = fst (last ls)"
proof -
  let ?g = "glob_data (wFiles w)"
  have set: "set ?g = data_name ` fst ` set ls" using assms by (simp add: disk_log_def)
  then have g: "?g = map data_name (map id_of ?g)" by (auto intro!: map_idI [symmetric])
  have "max_file_id ?g = fold max (map id_of ?g) 0"
    unfolding max_file_id_def by (subst g) (rule fold_max)
  also have "\<dots> = Max (set (0 # map id_of ?g))" by (rule Max.set_eq_fold [symmetric])
  also have "set (0 # map id_of ?g) = insert 0 (fst ` set ls)" using set by (simp add: image_image)
  also have "Max (insert 0 (fst ` set ls)) = fst (last ls)"
  proof (rule Max_eqI)
    have s: "sorted (map fst ls)" "ls \<noteq> []" using assms by (simp_all add: disk_log_def strict_sorted_iff)
    show "y \<le> fst (last ls)" if "y \<in> insert 0 (fst ` set ls)" for y
    proof (cases "y = 0")
      case False
      then have "y \<in> set (map fst ls)" using that by simp
      then show ?thesis using s sorted_last [of "map fst ls" y] by (simp add: last_map)
    qed simp
    show "fst (last ls) \<in> insert 0 (fst ` set ls)" using s(2) by simp
  qed simp
  finally show ?thesis .
qed

lemma fold_processFile:
  assumes "\<forall>(fid, es) \<in> set fs. map_of (wFiles (world db)) (data_name fid) = Some (file_bytes es) \<and> (\<forall>e \<in> set es. entry_sized e)"
    and "indexes db m db'" "smart db = None"
  shows "indexes db (log_index P fs m) (fold (processFile P) (map (data_name \<circ> fst) fs) db')"
  using assms(1,2)
proof (induction fs arbitrary: m db')
  case (Cons f fs)
  obtain fid es where f: "f = (fid, es)" by (rule prod.exhaust)
  have "world (db\<lparr>keyDir := keyDir db'\<rparr>) = world db" by simp
  then have "world db' = world db" using Cons.prems(2) unfolding indexes_def by metis
  then have "db_file (data_name fid) db' = file_bytes es"
    using Cons.prems(1) f by (simp add: db_file_def contents_def)
  then have p: "processFile P (data_name fid) db' = process_entries P fid (file_bytes es) (int 0) db'"
    by (simp add: processFile_def)
  have "indexes db (absorb_all P fid 0 es m) (processFile P (data_name fid) db')"
    unfolding p by (rule process_entries_absorbs [OF _ Cons.prems(2) assms(3)]) (use Cons.prems(1) f in auto)
  then show ?case using Cons.IH Cons.prems(1) by (simp add: f)
qed simp

lemma rebuild_indexes:
  assumes "disk_log (world db) ls" "keyDir db = NewConcurrentMap 16" "smart db = None"
  shows "indexes (db\<lparr>activeFileID := fst (last ls)\<rparr>) (log_index P ls Map.empty) (rebuildKeyDir P db)"
proof -
  let ?db0 = "db\<lparr>activeFileID := fst (last ls)\<rparr>"
  have ne: "glob_data (wFiles (world db)) \<noteq> []"
  proof
    assume "glob_data (wFiles (world db)) = []"
    then have "data_name ` fst ` set ls = {}" using assms(1) by (simp add: disk_log_def)
    then show False using assms(1) by (simp add: disk_log_def)
  qed
  have r: "rebuildKeyDir P db = fold (processFile P) (map (data_name \<circ> fst) ls) ?db0"
    unfolding rebuildKeyDir_def Let_def if_not_P [OF ne] max_file_id_last [OF assms(1)] glob_sorted [OF assms(1)] ..
  have "indexes ?db0 Map.empty ?db0"
    using assms(2) by (simp add: indexes_def cm.inv_new cm.get_new fun_eq_iff)
  moreover have "\<forall>(fid, es) \<in> set ls. map_of (wFiles (world ?db0)) (data_name fid) = Some (file_bytes es) \<and>
      (\<forall>e \<in> set es. entry_sized e)" using assms(1) unfolding disk_log_def by fastforce
  ultimately show ?thesis unfolding r using assms(3) by (intro fold_processFile) simp_all
qed


section \<open>Appending to the log\<close>

lemma glob_after:
  assumes "dir_keeps db db'" "set (glob_data (wFiles (world db))) = data_name ` ids"
    and "\<And>fid. file_of db' fid \<noteq> None \<longleftrightarrow> fid \<in> ids'" "ids \<subseteq> ids'"
  shows "set (glob_data (wFiles (world db'))) = data_name ` ids'"
proof (intro set_eqI iffI)
  fix f
  assume f: "f \<in> set (glob_data (wFiles (world db')))"
  show "f \<in> data_name ` ids'"
  proof (cases "\<exists>fid. f = data_name fid")
    case True
    then show ?thesis using f assms(3) by (auto simp: set_glob_data file_of_def)
  next
    case False
    moreover have "f \<noteq> WalName"
    proof
      assume "f = WalName"
      then have "has_suffix WalName DataSuffix" using f by (simp add: set_glob_data)
      moreover have "\<not> has_suffix WalName DataSuffix" by code_simp
      ultimately show False by simp
    qed
    ultimately have "f \<in> set (glob_data (wFiles (world db)))"
      using f assms(1) by (simp add: set_glob_data dir_keeps_def)
    then show ?thesis using assms(2,4) by blast
  qed
next
  fix f
  assume "f \<in> data_name ` ids'"
  then show "f \<in> set (glob_data (wFiles (world db')))"
    using assms(3) by (auto simp: set_glob_data file_of_def)
qed

lemma file_of_log:
  assumes "disk_log (world db) ls"
  shows "file_of db fid \<noteq> None \<longleftrightarrow> fid \<in> fst ` set ls" "(fid, es) \<in> set ls \<Longrightarrow> file_of db fid = Some (file_bytes es)"
proof -
  have "set (glob_data (wFiles (world db))) = data_name ` fst ` set ls" using assms unfolding disk_log_def by blast
  then have "data_name fid \<in> set (glob_data (wFiles (world db))) \<longleftrightarrow> fid \<in> fst ` set ls"
    by (simp only: image_iff data_name_inject) blast
  then show "file_of db fid \<noteq> None \<longleftrightarrow> fid \<in> fst ` set ls" by (simp add: set_glob_data file_of_def)
  show "(fid, es) \<in> set ls \<Longrightarrow> file_of db fid = Some (file_bytes es)"
    using assms unfolding disk_log_def file_of_def by blast
qed

definition log_entries :: "log \<Rightarrow> Entry set" where
  "log_entries ls = (\<Union>(fid, es) \<in> set ls. set es)"

text \<open>The state after a record was appended to file \<open>fid\<close>, which held \<open>c\<close>.\<close>

definition appended :: "32 word \<Rightarrow> bytes \<Rightarrow> Entry \<Rightarrow> GojiDB \<Rightarrow> GojiDB \<Rightarrow> bool" where
  "appended fid c e db db' \<longleftrightarrow> dir_keeps db db' \<and> activeFileID db' = fid \<and>
     (file_of db fid = Some c \<and> fid = activeFileID db \<or>
      file_of db fid = None \<and> c = [] \<and> activeFileID db < fid) \<and>
     (\<forall>f. file_of db' f = (if f = fid then Some (c @ serializeEntry e) else file_of db f))"

lemma log_append:
  assumes "disk_log (world db) ls" "fst (last ls) = activeFileID db" "appended fid c e db db'" "entry_sized e"
  obtains ls' where "disk_log (world db') ls'" "fst (last ls') = activeFileID db'"
    "log_index P ls' Map.empty = absorb P fid (length c) e (log_index P ls Map.empty)"
    "log_entries ls' = insert e (log_entries ls)"
proof -
  note d = assms(1) [unfolded disk_log_def]
  note a = assms(3) [unfolded appended_def]
  have ne: "ls \<noteq> []" using d by blast
  define pre es where "pre = butlast ls" and "es = snd (last ls)"
  have ls: "ls = pre @ [(activeFileID db, es)]"
    using ne assms(2) by (metis append_butlast_last_id es_def pre_def prod.collapse)
  have dk: "dir_keeps db db'" using a by blast
  have dist: "distinct (map fst (wFiles (world db')))" using dk d unfolding dir_keeps_def by blast
  have glob: "set (glob_data (wFiles (world db))) = data_name ` fst ` set ls" using d by blast
  have f': "file_of db' f = (if f = fid then Some (c @ serializeEntry e) else file_of db f)" for f using a by blast
  have build: "disk_log (world db') ls'"
    if "ls' \<noteq> []" "sorted_wrt (<) (map fst ls')" "fst ` set ls' = insert fid (fst ` set ls)"
      "\<forall>(i, xs) \<in> set ls'. (if i = fid then file_bytes xs = c @ serializeEntry e else (i, xs) \<in> set ls) \<and> (\<forall>x \<in> set xs. entry_sized x)"
    for ls'
  proof -
    note h = that
    have "set (glob_data (wFiles (world db'))) = data_name ` fst ` set ls'"
      by (rule glob_after [OF dk glob]) (use h(3) f' file_of_log(1) [OF assms(1)] in auto)
    moreover have "map_of (wFiles (world db')) (data_name i) = Some (file_bytes xs)" if i: "(i, xs) \<in> set ls'" for i xs
    proof -
      have "file_of db' i = Some (file_bytes xs)"
        using h(4) i f' [of i] file_of_log(2) [OF assms(1)] by (cases "i = fid") auto
      then show ?thesis by (simp add: file_of_def)
    qed
    ultimately show ?thesis using h(1,2,4) dist unfolding disk_log_def by blast
  qed
  have sorted: "sorted_wrt (<) (map fst ls)" using d by blast
  have sized: "\<forall>(i, xs) \<in> set ls. \<forall>x \<in> set xs. entry_sized x" using d by blast
  have "file_of db fid = Some c \<and> fid = activeFileID db \<or> file_of db fid = None \<and> c = [] \<and> activeFileID db < fid"
    using a by (elim conjE)
  then show thesis
  proof (elim disjE conjE)
    assume same: "file_of db fid = Some c" "fid = activeFileID db"
    have c: "c = file_bytes es" using same file_of_log(2) [OF assms(1), of fid es] ls by simp
    let ?ls' = "pre @ [(fid, es @ [e])]"
    have "i \<noteq> fid" if "(i, xs) \<in> set pre" for i xs
      using sorted that same(2) by (auto simp: ls sorted_wrt_append)
    then have "disk_log (world db') ?ls'"
      by (intro build) (use sorted sized same c assms(4) in \<open>auto simp: ls sorted_wrt_append\<close>)
    moreover have "log_index P ?ls' Map.empty = absorb P fid (length c) e (log_index P ls Map.empty)"
      by (simp add: ls same(2) log_index_append absorb_all_append c)
    ultimately show thesis using a by (intro that [of ?ls']) (auto simp: ls log_entries_def)
  next
    assume new: "file_of db fid = None" "c = []" "activeFileID db < fid"
    let ?ls' = "ls @ [(fid, [e])]"
    have less: "i < fid" if "(i, xs) \<in> set ls" for i xs
      using sorted that new(3) by (auto simp: ls sorted_wrt_append)
    have "disk_log (world db') ?ls'"
    proof (rule build)
      show "sorted_wrt (<) (map fst ?ls')" using sorted less by (auto simp: sorted_wrt_append)
      have "(if i = fid then file_bytes xs = c @ serializeEntry e else (i, xs) \<in> set ls) \<and> (\<forall>x \<in> set xs. entry_sized x)"
        if "(i, xs) \<in> set ?ls'" for i xs
        using that less [of i xs] sized assms(4) new(2) by (cases "(i, xs) \<in> set ls") auto
      then show "\<forall>(i, xs) \<in> set ?ls'. (if i = fid then file_bytes xs = c @ serializeEntry e else (i, xs) \<in> set ls) \<and>
          (\<forall>x \<in> set xs. entry_sized x)" by blast
    qed simp_all
    moreover have "log_index P ?ls' Map.empty = absorb P fid (length c) e (log_index P ls Map.empty)"
      by (simp add: log_index_append new(2))
    ultimately show thesis using a by (intro that [of ?ls']) (auto simp: log_entries_def)
  qed
qed


section \<open>The durability invariant\<close>

definition clock32 :: "Platform \<Rightarrow> bool" where
  "clock32 P \<longleftrightarrow> clock_mono P \<and> (\<forall>n. 0 \<le> unix (clock P n) \<and> unix (clock P n) < 2 ^ 32)"

lemma unix32_mono:
  assumes "clock32 P" "m \<le> n"
  shows "unix32 (clock P m) \<le> unix32 (clock P n)"
proof -
  have "unix (clock P m) \<le> unix (clock P n)"
    using assms unfolding clock32_def clock_mono_def unix_def by (simp add: zdiv_mono1)
  then show ?thesis
    using assms(1) unfolding clock32_def unix32_def word_le_def
    by (simp add: uint_word_of_int take_bit_int_eq_self)
qed

definition same_live :: "index \<Rightarrow> index \<Rightarrow> bool" where
  "same_live m m' \<longleftrightarrow> (\<forall>k kd. m k = Some kd \<and> \<not> Deleted kd \<longleftrightarrow> m' k = Some kd \<and> \<not> Deleted kd)"

definition durable :: "Platform \<Rightarrow> GojiDB \<Rightarrow> bool" where
  "durable P db \<longleftrightarrow> (\<exists>ls. disk_log (world db) ls \<and> fst (last ls) = activeFileID db \<and>
     (\<forall>e \<in> log_entries ls. eTimestamp e \<le> unix32 (clock P (wTicks (world db)))) \<and>
     same_live (log_index P ls Map.empty) (cm_Get (keyDir db)))"

lemma durable_append:
  assumes "durable P db" "appended fid c e db db'" "entry_sized e" "verifyCRC e" "clock32 P"
    and "eTimestamp e = unix32 (clock P t)" "wTicks (world db) \<le> t" "t \<le> wTicks (world db')"
    and "\<And>m. same_live m (cm_Get (keyDir db)) \<Longrightarrow>
      same_live (m(eKey e \<mapsto> index_entry fid (int (length c)) (dead_entry P e) e)) (cm_Get (keyDir db'))"
  shows "durable P db'"
proof -
  obtain ls where d: "disk_log (world db) ls" "fst (last ls) = activeFileID db"
    "\<forall>e \<in> log_entries ls. eTimestamp e \<le> unix32 (clock P (wTicks (world db)))"
    "same_live (log_index P ls Map.empty) (cm_Get (keyDir db))"
    using assms(1) unfolding durable_def by blast
  obtain ls' where l: "disk_log (world db') ls'" "fst (last ls') = activeFileID db'"
    "log_index P ls' Map.empty = absorb P fid (length c) e (log_index P ls Map.empty)"
    "log_entries ls' = insert e (log_entries ls)"
    by (rule log_append [OF d(1,2) assms(2,3)])
  have "Timestamp old \<le> eTimestamp e" if old: "log_index P ls Map.empty (eKey e) = Some old" for old
  proof -
    obtain x where "x \<in> log_entries ls" "Timestamp old = eTimestamp x"
      using log_index_from [OF old] unfolding log_entries_def by force
    then have "Timestamp old \<le> unix32 (clock P (wTicks (world db)))" using d(3) by simp
    also have "\<dots> \<le> eTimestamp e" unfolding assms(6) by (rule unix32_mono [OF assms(5,7)])
    finally show ?thesis .
  qed
  then have "log_index P ls' Map.empty =
      (log_index P ls Map.empty)(eKey e \<mapsto> index_entry fid (int (length c)) (dead_entry P e) e)"
    using assms(4) by (simp add: l(3) absorb_def split: option.splits)
  then have "same_live (log_index P ls' Map.empty) (cm_Get (keyDir db'))" using assms(9) [OF d(4)] by simp
  moreover have "eTimestamp x \<le> unix32 (clock P (wTicks (world db')))" if "x \<in> log_entries ls'" for x
  proof (cases "x = e")
    case True
    then show ?thesis using unix32_mono [OF assms(5,8)] assms(6) by simp
  next
    case False
    then have "eTimestamp x \<le> unix32 (clock P (wTicks (world db)))" using that d(3) l(4) by simp
    also have "\<dots> \<le> unix32 (clock P (wTicks (world db')))"
      by (rule unix32_mono [OF assms(5) order_trans [OF assms(7,8)]])
    finally show ?thesis .
  qed
  ultimately show ?thesis using l(1,2) unfolding durable_def by blast
qed

lemma same_store_durable:
  assumes "same_store a b" "clock32 P" "durable P a"
  shows "durable P b"
proof -
  have c: "wFiles (world b) = wFiles (world a)" "activeFileID b = activeFileID a" "keyDir b = keyDir a"
    "wTicks (world a) \<le> wTicks (world b)"
    using assms(1) unfolding same_store_def db_core_def by blast+
  have "disk_log (world b) ls = disk_log (world a) ls" for ls by (simp add: disk_log_def c)
  moreover have "x \<le> unix32 (clock P (wTicks (world b)))" if "x \<le> unix32 (clock P (wTicks (world a)))" for x
    using order_trans [OF that unix32_mono [OF assms(2) c(4)]] .
  ultimately show ?thesis using assms(3) unfolding durable_def c by blast
qed

lemma durable_no_next:
  assumes "durable P db" "activeFileID db < activeFileID db + 1"
  shows "file_of db (activeFileID db + 1) = None"
proof -
  obtain ls where d: "disk_log (world db) ls" "fst (last ls) = activeFileID db"
    using assms(1) unfolding durable_def by blast
  have s: "sorted (map fst ls)" "ls \<noteq> []" using d(1) by (auto simp: disk_log_def strict_sorted_iff)
  have "i \<le> activeFileID db" if "i \<in> fst ` set ls" for i
    using sorted_last [OF s(1), of i] that s(2) d(2) by (simp add: last_map)
  then have "activeFileID db + 1 \<notin> fst ` set ls" using assms(2) by (meson not_less)
  then show ?thesis using file_of_log(1) [OF d(1)] by blast
qed

lemma stored_appended:
  assumes "stored k e db db'" "durable P db" "activeFileID db < activeFileID db + 1"
  obtains fid c where "appended fid c e db db'" "keyDir db' = cm_Set k (stored_at fid (length c) e) (keyDir db)"
proof -
  obtain db1 c where s: "rotated db db1" "file_of db1 (activeFileID db1) = Some c" "activeFileID db' = activeFileID db1"
    "dir_keeps db db'" "\<forall>fid. file_of db' fid = (if fid = activeFileID db1 then Some (c @ serializeEntry e) else file_of db1 fid)"
    "keyDir db' = cm_Set k (stored_at (activeFileID db1) (length c) e) (keyDir db)"
    using assms(1) unfolding stored_def by blast
  have r: "activeFileID db1 \<in> {activeFileID db, activeFileID db + 1}"
    "\<And>fid. file_of db1 fid = (if fid = activeFileID db1 \<and> file_of db fid = None then Some [] else file_of db fid)"
    "db_open db1"
    using s(1) unfolding rotated_def by blast+
  note next_new = durable_no_next [OF assms(2,3)]
  have "file_of db (activeFileID db1) = Some c \<and> activeFileID db1 = activeFileID db \<or>
      file_of db (activeFileID db1) = None \<and> c = [] \<and> activeFileID db < activeFileID db1"
  proof (cases "activeFileID db1 = activeFileID db")
    case True
    have "file_of db (activeFileID db) \<noteq> None"
    proof -
      obtain ls where d: "disk_log (world db) ls" "fst (last ls) = activeFileID db"
        using assms(2) unfolding durable_def by blast
      then have "last ls \<in> set ls" by (simp add: disk_log_def)
      then have "activeFileID db \<in> fst ` set ls" unfolding d(2) [symmetric] by (rule imageI)
      then show ?thesis using file_of_log(1) [OF d(1)] by blast
    qed
    then show ?thesis using True s(2) r(2) [of "activeFileID db1"] by auto
  next
    case False
    then have "activeFileID db1 = activeFileID db + 1" using r(1) by blast
    then show ?thesis using next_new assms(3) s(2) r(2) [of "activeFileID db1"] by simp
  qed
  moreover have "file_of db' f = (if f = activeFileID db1 then Some (c @ serializeEntry e) else file_of db f)" for f
    using s(5) r(2) [of f] by simp
  ultimately have "appended (activeFileID db1) c e db db'"
    using s(3,4) unfolding appended_def by blast
  then show thesis using s(6) by (rule that)
qed

lemma put_durable:
  assumes "durable P db" "clock32 P" "put_trace P k z a x db db'" "activeFileID db < activeFileID db + 1"
    and "length k < 2 ^ 16" "length z < 2 ^ 32" "decompressChunk P z a \<noteq> Ok TombstoneValue" "cm_inv (keyDir db)"
  shows "durable P db'"
proof -
  obtain db1 t where t: "same_store db db1" "wTicks (world db) \<le> t" "t \<le> wTicks (world db')"
    "stored k (mk_entry (unix32 (clock P t)) x a k z) db1 db'"
    using assms(3) unfolding put_trace_def by blast
  let ?e = "mk_entry (unix32 (clock P t)) x a k z"
  have d1: "durable P db1" by (rule same_store_durable [OF t(1) assms(2,1)])
  have k1: "keyDir db1 = keyDir db" "activeFileID db1 = activeFileID db" "wFiles (world db1) = wFiles (world db)"
    using t(1) unfolding same_store_def db_core_def by blast+
  obtain fid c where c: "appended fid c ?e db1 db'" "keyDir db' = cm_Set k (stored_at fid (length c) ?e) (keyDir db1)"
    using stored_appended [OF t(4) d1] assms(4) k1(2) by metis
  have f: "file_of db1 = file_of db" by (simp add: file_of_def k1(3) fun_eq_iff)
  have app: "appended fid c ?e db db'" using c(1) unfolding appended_def f k1(2) dir_keeps_def k1(3) .
  have live: "same_live (m(k \<mapsto> index_entry fid (int (length c)) (dead_entry P ?e) ?e)) (cm_Get (keyDir db'))"
    if "same_live m (cm_Get (keyDir db))" for m
  proof -
    have "index_entry fid (int (length c)) (dead_entry P ?e) ?e = stored_at fid (length c) ?e"
      using assms(7) by (simp add: index_entry_def stored_at_def dead_entry_def)
    then show ?thesis using that by (auto simp: same_live_def c(2) k1(1) cm.get_set [OF assms(8)])
  qed
  show ?thesis
    by (rule durable_append [OF assms(1) app mk_entry_sized [OF assms(5,6)] mk_entry_verifies assms(2) _ t(2,3)])
      (simp_all only: mk_entry_fields live)
qed

lemma erased_durable:
  assumes "durable P db" "clock32 P" "erased k (mk_entry (unix32 (clock P (wTicks (world db)))) 0 a k z) db db'"
    and "length k < 2 ^ 16" "length z < 2 ^ 32" "decompressChunk P z a = Ok TombstoneValue" "cm_inv (keyDir db)"
    and "db_open db"
  shows "durable P db'"
proof -
  let ?e = "mk_entry (unix32 (clock P (wTicks (world db)))) 0 a k z"
  obtain c where c: "file_of db (activeFileID db) = Some c" using assms(8) by (auto simp: db_open_def)
  have e: "dir_keeps db db'" "activeFileID db' = activeFileID db" "keyDir db' = keyDir (mark_deleted k ?e db)"
    "\<forall>fid. file_of db' fid = (if fid = activeFileID db then map_option (\<lambda>c. c @ serializeEntry ?e) (file_of db fid) else file_of db fid)"
    "wTicks (world db) \<le> wTicks (world db')"
    using assms(3) unfolding erased_def by blast+
  have app: "appended (activeFileID db) c ?e db db'" using c e(1,2,4) unfolding appended_def by simp
  have live: "same_live (m(k \<mapsto> index_entry (activeFileID db) (int (length c)) (dead_entry P ?e) ?e)) (cm_Get (keyDir db'))"
    if "same_live m (cm_Get (keyDir db))" for m
  proof -
    have "Deleted (index_entry (activeFileID db) (int (length c)) (dead_entry P ?e) ?e)"
      using assms(6) by (simp add: index_entry_def dead_entry_def)
    then show ?thesis using that by (auto simp: same_live_def e(3) mark_deleted_get [OF assms(7)])
  qed
  show ?thesis
    by (rule durable_append [OF assms(1) app mk_entry_sized [OF assms(4,5)] mk_entry_verifies assms(2) _ order_refl e(5)])
      (simp_all only: mk_entry_fields live)
qed


section \<open>Opening the directory again\<close>

lemma disk_log_cong: "wFiles w' = wFiles w \<Longrightarrow> disk_log w' ls = disk_log w ls"
  by (simp only: disk_log_def)

text \<open>The state before the log is attached.\<close>

lemma reopened:
  assumes "disk_log w ls" "cfgSmart cfg = None"
  obtains db' where "NewGojiDB P cfg w = attach_wal P db'" "cm_inv (keyDir db')" "cm_Get (keyDir db') = log_index P ls Map.empty"
    "wFiles (world db') = wFiles w" "wTicks w \<le> wTicks (world db')" "activeFileID db' = fst (last ls)" "db_open db'"
    "smart db' = None" "config db' = cfg" "wal db' = None"
    "bcCache (blockCache db') = NewLRUCache (if cacheEnabled (cfgCache cfg) then BlockCacheSize (cfgCache cfg) else 0)"
    "kcCache (keyCache db') = NewLRUCache (if cacheEnabled (cfgCache cfg) then KeyCacheSize (cfgCache cfg) else 0)"
    "blockSize (blockCache db') = 4096"
proof -
  let ?e = "empty_db P cfg w"
  have tk: "wTicks w \<le> wTicks (world ?e)" by (simp add: empty_db_def Let_def split_beta)
  have "disk_log (world ?e) ls" using assms(1) by (simp add: disk_log_cong [of "world ?e" w])
  from rebuild_indexes [OF this, of P]
  have ix: "indexes (?e\<lparr>activeFileID := fst (last ls)\<rparr>) (log_index P ls Map.empty) (rebuildKeyDir P ?e)" by simp
  define kds where "kds = keyDir (rebuildKeyDir P ?e)"
  have r: "rebuildKeyDir P ?e = ?e\<lparr>activeFileID := fst (last ls), keyDir := kds\<rparr>" "cm_inv kds" "cm_Get kds = log_index P ls Map.empty"
    using ix unfolding indexes_def kds_def by simp_all
  have "last ls \<in> set ls" using assms(1) by (simp add: disk_log_def)
  moreover have "\<forall>(fid, es) \<in> set ls. map_of (wFiles w) (data_name fid) = Some (file_bytes es)"
    using assms(1) unfolding disk_log_def by blast
  ultimately have f: "map_of (wFiles w) (data_name (fst (last ls))) = Some (file_bytes (snd (last ls)))"
    by (metis (mono_tags, lifting) case_prod_beta)
  define db1 where "db1 = openActiveFile (rebuildKeyDir P ?e)"
  have d: "db1 = ?e\<lparr>activeFileID := fst (last ls), keyDir := kds, activeFile := Some (data_name (fst (last ls)))\<rparr>"
    by (simp add: db1_def r(1) openActiveFile_def create_missing_def f Let_def)
  define db' where "db' = (if EnableTTL cfg then db1\<lparr>ttlManager := Some NewTTLManager\<rparr> else db1)"
  have "NewGojiDB P cfg w = attach_wal P db'"
    using assms(2) by (simp add: NewGojiDB_def db1_def [symmetric] db'_def attach_smart_def d Let_def)
  then show thesis
    by (rule that) (simp_all add: db'_def d r(2,3) tk db_open_def file_of_def f NewBlockCache_def NewKeyCache_def)
qed

lemma restart_before_log:
  assumes "durable P db" "index_sound db" "smart db = None" "clock32 P" "cfgSmart cfg = None"
  obtains db' where "NewGojiDB P cfg (world db) = attach_wal P db'" "db_sound P db'" "durable P db'" "config db' = cfg"
    "db_view P db' = db_view P db" "smart db' = None" "wal db' = None" "activeFileID db' = activeFileID db"
    "file_of db' = file_of db" "wFiles (world db') = wFiles (world db)"
proof -
  obtain ls where ls: "disk_log (world db) ls" "fst (last ls) = activeFileID db"
    "\<forall>e \<in> log_entries ls. eTimestamp e \<le> unix32 (clock P (wTicks (world db)))"
    "same_live (log_index P ls Map.empty) (cm_Get (keyDir db))"
    using assms(1) unfolding durable_def by blast
  obtain db' where n: "NewGojiDB P cfg (world db) = attach_wal P db'" "cm_inv (keyDir db')"
    "cm_Get (keyDir db') = log_index P ls Map.empty" "wFiles (world db') = wFiles (world db)"
    "wTicks (world db) \<le> wTicks (world db')" "activeFileID db' = fst (last ls)" "db_open db'"
    "smart db' = None" "config db' = cfg" "wal db' = None"
    "bcCache (blockCache db') = NewLRUCache (if cacheEnabled (cfgCache cfg) then BlockCacheSize (cfgCache cfg) else 0)"
    "kcCache (keyCache db') = NewLRUCache (if cacheEnabled (cfgCache cfg) then KeyCacheSize (cfgCache cfg) else 0)"
    "blockSize (blockCache db') = 4096"
    by (rule reopened [OF ls(1) assms(5)])
  note s = assms(2) [unfolded index_sound_def]
  have f: "file_of db' = file_of db" by (simp add: file_of_def n(4) fun_eq_iff)
  have l: "live db' k kd \<longleftrightarrow> live db k kd" for k kd
    using ls(4) unfolding same_live_def live_def n(3) by blast
  have e: "entry_inside db' kd = entry_inside db kd" for kd by (simp add: entry_inside_def f)
  have "db_sound P db'"
    unfolding db_sound_def
    using n(2,7,13) s by (simp add: n(11,12) lru_inv_new lru.coherent_def lru_peek_abs [OF lru_inv_new] f l e)
  moreover have "durable P db'"
    unfolding durable_def
  proof (intro exI [of _ ls] conjI)
    show "disk_log (world db') ls" using ls(1) by (simp only: disk_log_cong [OF n(4)])
    show "\<forall>e \<in> log_entries ls. eTimestamp e \<le> unix32 (clock P (wTicks (world db')))"
      using ls(3) unix32_mono [OF assms(4) n(5)] by (blast intro: order_trans)
    show "same_live (log_index P ls Map.empty) (cm_Get (keyDir db'))" by (simp add: n(3) same_live_def)
  qed (simp add: n(6))
  moreover have "db_view P db' = db_view P db"
  proof
    fix k
    have d: "db_decompress P db' = db_decompress P db" by (simp add: db_decompress_def n(8) assms(3) fun_eq_iff)
    have v: "db_value P db' kd = db_value P db kd" for kd by (simp only: db_value_def f d)
    have some: "db_view P x k = Some (db_value P x kd, TTL kd)" if "live x k kd" for x kd
      using that by (simp add: db_view_def live_def)
    have none: "db_view P x k = None" if "\<And>kd. \<not> live x k kd" for x
      using that by (auto simp: db_view_def live_def split: option.splits)
    show "db_view P db' k = db_view P db k"
    proof (cases "\<exists>kd. live db k kd")
      case True
      then obtain kd where "live db k kd" by blast
      then show ?thesis using some [of db kd] some [of db' kd] by (simp add: l v)
    next
      case False
      then show ?thesis using none [of db] none [of db'] by (simp add: l)
    qed
  qed
  ultimately show thesis using that n(1,4,6,8,9,10) ls(2) f by metis
qed

lemma restart_same_view_lemma:
  assumes "durable P db" "index_sound db" "smart db = None" "clock32 P"
    and "\<not> EnableWAL cfg" "cfgSmart cfg = None"
  obtains db' where "NewGojiDB P cfg (world db) = (Ok (), db')" "db_sound P db'" "durable P db'" "config db' = cfg"
    "db_view P db' = db_view P db" "smart db' = None" "wal db' = None"
proof -
  obtain db' where d: "NewGojiDB P cfg (world db) = attach_wal P db'" "db_sound P db'" "durable P db'" "config db' = cfg"
    "db_view P db' = db_view P db" "smart db' = None" "wal db' = None"
    by (rule restart_before_log [OF assms(1-4,6)]) (rule that; assumption)
  moreover have "attach_wal P db' = (Ok (), db')" using assms(5) d(4) by (simp add: attach_wal_def)
  ultimately show thesis using that by simp
qed

section \<open>The plain engine is durable\<close>

lemma tombstone_nonempty: "TombstoneValue \<noteq> []"
  by (simp add: TombstoneValue_def str_def)

lemma dead_tombstone:
  assumes "codec_ok P"
  shows "decompressChunk P (fst (pack P cfg TombstoneValue)) (cfgCompressionType cfg) = Ok TombstoneValue"
  using assms tombstone_nonempty by (auto simp: pack_def performStandardCompress_def decompressChunk_def codec_ok_def of_option_def)

lemma plain_Put_durable:
  assumes "plain_fits P cfg k v" "plain_ready P cfg (put_cost P cfg k v + n) db" "v \<noteq> TombstoneValue"
    and "durable P db" "clock32 P" "activeFileID db < activeFileID db + 1" "PutWithTTL P k v ttl db = (r, db')"
  shows "durable P db'"
proof -
  obtain x where x: "put_trace P k (fst (pack P cfg v)) (snd (pack P cfg v)) x db db'"
    using plain_PutWithTTL [OF assms(1,2), of ttl] assms(7) by (metis prod.inject)
  have f: "length k < 2 ^ 16" "length (fst (pack P cfg v)) < 2 ^ 32" "codec_ok P"
    using assms(1) by (simp_all add: plain_fits_def)
  show ?thesis
    by (rule put_durable [OF assms(4,5) x assms(6) f(1,2)])
      (use unpack [OF f(3)] assms(2,3) db_soundD(1) in \<open>auto simp: plain_ready_def\<close>)
qed

lemma plain_Delete_durable:
  assumes "k \<noteq> []" "plain_ready P cfg (del_cost P cfg k + n) db" "codec_ok P" "length k < 2 ^ 16"
    and "length (fst (pack P cfg TombstoneValue)) < 2 ^ 32"
    and "durable P db" "clock32 P" "Delete P k db = (r, db')"
  shows "durable P db'"
proof -
  have d: "cm_Get (keyDir db) k = None \<longrightarrow> db' = db"
    "cm_Get (keyDir db) k \<noteq> None \<longrightarrow> erased k (mk_entry (unix32 (clock P (wTicks (world db)))) 0 (cfgCompressionType cfg) k
       (fst (pack P cfg TombstoneValue))) db db'"
    using plain_Delete [OF assms(1,2)] assms(8) by (metis prod.inject)+
  have s: "cm_inv (keyDir db)" "db_open db" using assms(2) db_soundD(1,5) by (auto simp: plain_ready_def)
  show ?thesis
  proof (cases "cm_Get (keyDir db) k = None")
    case True
    then show ?thesis using d(1) assms(6) by simp
  next
    case False
    then have "erased k (mk_entry (unix32 (clock P (wTicks (world db)))) 0 (cfgCompressionType cfg) k
       (fst (pack P cfg TombstoneValue))) db db'" using d(2) by blast
    then show ?thesis
      by (rule erased_durable [OF assms(6,7) _ assms(4,5) dead_tombstone [OF assms(3)] s])
  qed
qed

lemma fresh_durable:
  assumes "glob_data (wFiles w) = []" "EnableWAL cfg \<longrightarrow> contents WalName (wFiles w) = []" "distinct (map fst (wFiles w))"
    and "EnableWAL cfg \<longrightarrow> 0 < WALFlushInterval cfg" "NewGojiDB P cfg w = (r, db)"
  shows "durable P db"
proof -
  obtain db1 where d: "NewGojiDB P cfg w = (Ok (), db1)" "\<And>fid. file_of db1 fid = (if fid = 1 then Some [] else None)"
    "set (glob_data (wFiles (world db1))) = {data_name 1}" "activeFileID db1 = 1" "keyDir db1 = NewConcurrentMap 16"
    "distinct (map fst (wFiles w)) \<longrightarrow> distinct (map fst (wFiles (world db1)))"
    by (rule fresh_database_lemma [OF assms(1,2,4), of P]) blast
  have db: "db = db1" using d(1) assms(5) by simp
  have "map_of (wFiles (world db1)) (data_name 1) = Some []" using d(2) [of 1] by (simp add: file_of_def)
  then have "disk_log (world db1) [(1, [])]"
    unfolding disk_log_def using d(3,6) assms(3) by simp
  moreover have "same_live (log_index P [(1, [])] Map.empty) (cm_Get (keyDir db1))"
    by (simp add: same_live_def d(5) cm.get_new)
  ultimately show ?thesis
    unfolding durable_def db by (intro exI [of _ "[(1, [])]"]) (simp add: d(4) log_entries_def)
qed

end
