(* ===== verification/Session.thy ===== *)
theory Session
  imports Durability
begin

text \<open>
  Sessions: a directory is opened, used through \<open>Put\<close>, \<open>Delete\<close> and \<open>Get\<close>, and opened again any
  number of times. The second argument is the map the user believes to be stored.
\<close>

lemma reads_plain:
  assumes "reads P db db'" "clock32 P"
  shows "durable P db \<Longrightarrow> durable P db'" "plain_ready P cfg n db \<Longrightarrow> plain_ready P cfg n db'"
proof -
  have r: "db_sound P db'" "keyDir db' = keyDir db" "activeFileID db' = activeFileID db" "wFiles (world db') = wFiles (world db)"
    "smart db' = smart db" "config db' = config db" "wal db' = wal db" "wTicks (world db) \<le> wTicks (world db')"
    using assms(1) unfolding reads_def by blast+
  have "x \<le> unix32 (clock P (wTicks (world db')))" if "x \<le> unix32 (clock P (wTicks (world db)))" for x
    using order_trans [OF that unix32_mono [OF assms(2) r(8)]] .
  then show "durable P db \<Longrightarrow> durable P db'"
    unfolding durable_def r(2,3) disk_log_cong [OF r(4)] by blast
  show "plain_ready P cfg n db \<Longrightarrow> plain_ready P cfg n db'" by (rule reads_plain_ready [OF assms(1)])
qed

text \<open>
  What is stored fits into a record and into the file, and is not the text \<open>__DELETED__\<close>, which a start takes for
  a deletion; values that start a block are not looked up, because their second lookup returns the block.
\<close>

inductive session :: "Platform \<Rightarrow> GojiDBConfig \<Rightarrow> GojiDB \<Rightarrow> view \<Rightarrow> bool" for P cfg where
  opened: "glob_data (wFiles w) = [] \<Longrightarrow> distinct (map fst (wFiles w)) \<Longrightarrow>
    NewGojiDB P cfg w = (Ok (), db) \<Longrightarrow> session P cfg db Map.empty"
| stored: "session P cfg db m \<Longrightarrow> plain_fits P cfg k v \<Longrightarrow> v \<noteq> TombstoneValue \<Longrightarrow>
    room (put_cost P cfg k v) db \<Longrightarrow> activeFileID db < activeFileID db + 1 \<Longrightarrow>
    Put P k v db = (r, db') \<Longrightarrow> session P cfg db' (m(k \<mapsto> (Ok v, 0)))"
| deleted: "session P cfg db m \<Longrightarrow> k \<noteq> [] \<Longrightarrow> length k < 2 ^ 16 \<Longrightarrow> room (del_cost P cfg k) db \<Longrightarrow>
    Delete P k db = (r, db') \<Longrightarrow> session P cfg db' (m(k := None))"
| looked_up: "session P cfg db m \<Longrightarrow> k \<noteq> [] \<Longrightarrow> unaligned db k \<Longrightarrow> Get P k db = (r, db') \<Longrightarrow> session P cfg db' m"
| reopened: "session P cfg db m \<Longrightarrow> NewGojiDB P cfg (world db) = (r, db') \<Longrightarrow> session P cfg db' m"

text \<open>The platform and the configuration a session assumes: plain codecs and no log.\<close>

definition session_env :: "Platform \<Rightarrow> GojiDBConfig \<Rightarrow> bool" where
  "session_env P cfg \<longleftrightarrow> writes_ok P \<and> codec_ok P \<and> clock32 P \<and> sha_separates (sha256 P) \<and>
     \<not> EnableWAL cfg \<and> cfgSmart cfg = None \<and> length (fst (pack P cfg TombstoneValue)) < 2 ^ 32"

lemma wal_ready_none: "wal db = None \<Longrightarrow> wal_ready db"
  by (simp add: wal_ready_def)

lemma room_0: "db_sound P db \<Longrightarrow> room 0 db"
  using db_soundD(6) by (auto simp: room_def)

lemma session_invariant:
  assumes "session P cfg db m" "session_env P cfg"
  shows "plain_ready P cfg 0 db \<and> durable P db \<and> db_view P db = m"
  using assms(1)
proof induction
  case (opened w db)
  note e = assms(2) [unfolded session_env_def]
  have nowal: "EnableWAL cfg \<longrightarrow> contents WalName (wFiles w) = []" "EnableWAL cfg \<longrightarrow> 0 < WALFlushInterval cfg"
    using e by simp_all
  obtain db1 where d: "NewGojiDB P cfg w = (Ok (), db1)" "db_sound P db1" "wal_ready db1" "db_view P db1 = Map.empty"
    "config db1 = cfg" "smart db1 = None \<longleftrightarrow> cfgSmart cfg = None"
    by (rule fresh_database_lemma [OF opened(1) nowal, of P]) (rule that; assumption)
  have "durable P db" by (rule fresh_durable [OF opened(1) nowal(1) opened(2) nowal(2) opened(3)])
  moreover have "plain_ready P cfg 0 db"
    using d opened(3) e room_0 [OF d(2)] by (simp add: plain_ready_def)
  ultimately show ?case using d(1,4) opened(3) by simp
next
  case (stored db m k v r db')
  note e = assms(2) [unfolded session_env_def]
  have p: "plain_ready P cfg (put_cost P cfg k v + 0) db" "durable P db" "db_view P db = m"
    using stored.IH stored.hyps(4) by (simp_all add: plain_ready_def)
  obtain db1 x where d: "PutWithTTL P k v 0 db = (Ok (), db1)" "plain_ready P cfg 0 db1"
    "db_view P db1 = m(k \<mapsto> (Ok v, x))" "stamp_ok P (wTicks (world db)) (wTicks (world db1)) 0 x"
    by (rule plain_PutWithTTL [OF stored.hyps(2) p(1)]) (unfold p(3), rule that; assumption)
  moreover have "x = 0" using d(4) by (simp add: stamp_ok_def)
  moreover have "durable P db'"
    by (rule plain_Put_durable [OF stored.hyps(2) p(1) stored.hyps(3) p(2)])
      (use e stored.hyps(5,6) in \<open>auto simp: Put_def\<close>)
  ultimately show ?case using stored.hyps(6) by (simp add: Put_def)
next
  case (deleted db m k r db')
  note e = assms(2) [unfolded session_env_def]
  have p: "plain_ready P cfg (del_cost P cfg k + 0) db" "durable P db" "db_view P db = m"
    using deleted.IH deleted.hyps(4) by (simp_all add: plain_ready_def)
  obtain r1 db1 where d: "Delete P k db = (r1, db1)" "plain_ready P cfg 0 db1" "db_view P db1 = m(k := None)"
    using plain_Delete [OF deleted.hyps(2) p(1)] p(3) by metis
  moreover have "durable P db'"
    by (rule plain_Delete_durable [OF deleted.hyps(2) p(1) _ deleted.hyps(3) _ p(2) _ deleted.hyps(5)]) (use e in blast)+
  ultimately show ?case using deleted.hyps(5) by simp
next
  case (looked_up db m k r db')
  note e = assms(2) [unfolded session_env_def]
  have s: "db_sound P db" using looked_up.IH by (simp add: plain_ready_def)
  have r: "reads P db db'"
    by (rule Get_answer(2) [OF s _ looked_up.hyps(2,3,4)]) (use e in blast)
  then show ?case using reads_plain [OF r] looked_up.IH e reads_view(1) [OF r] by simp
next
  case (reopened db m r db')
  note e = assms(2) [unfolded session_env_def]
  have p: "db_sound P db" "smart db = None" "durable P db" "db_view P db = m"
    using reopened.IH by (simp_all add: plain_ready_def)
  have env: "clock32 P" "\<not> EnableWAL cfg" "cfgSmart cfg = None" using e by simp_all
  obtain db1 where d: "NewGojiDB P cfg (world db) = (Ok (), db1)" "db_sound P db1" "durable P db1" "config db1 = cfg"
    "db_view P db1 = db_view P db" "smart db1 = None" "wal db1 = None"
    by (rule restart_same_view_lemma [OF p(3) db_sound_index [OF p(1)] p(2) env]) (rule that; assumption)
  then have "plain_ready P cfg 0 db1" using e room_0 [OF d(2)] by (simp add: plain_ready_def wal_ready_none)
  then show ?case using d(1,3,5) p(4) reopened.hyps(2) by simp
qed

end
