(* ===== verification/KeysSpec.thy ===== *)
theory KeysSpec
  imports StoreSpec
begin

text \<open>
  The operations that look at keys and their expiry: enumeration, remaining time, and the deletion
  of expired keys by the background goroutines.
\<close>

section \<open>Enumerating keys\<close>

lemma range_keys_filter: "range_keys f db = filter (\<lambda>(k, kd). f kd) (cm_entries (keyDir db))"
proof -
  have "foldl (\<lambda>s (k, v). if f v then s @ [(k, v)] else s) acc xs = acc @ filter (\<lambda>(k, kd). f kd) xs"
    for acc xs :: "(key \<times> KeyDir) list"
    by (induction xs arbitrary: acc) auto
  then show ?thesis by (simp add: range_keys_def cm_Range_all)
qed

lemma range_keys_get:
  assumes "cm_inv (keyDir db)"
  shows "distinct (map fst (range_keys f db))" "(k, kd) \<in> set (range_keys f db) \<longleftrightarrow> cm_Get (keyDir db) k = Some kd \<and> f kd"
proof -
  have "distinct (map fst (cm_entries (keyDir db)))" by (rule cm.entries_distinct [OF assms])
  then show "distinct (map fst (range_keys f db))"
    unfolding range_keys_filter by (simp add: distinct_map_filter)
  show "(k, kd) \<in> set (range_keys f db) \<longleftrightarrow> cm_Get (keyDir db) k = Some kd \<and> f kd"
    by (simp add: range_keys_filter cm.entries_get [OF assms])
qed

lemma key_in_range: "k \<in> set (map fst (range_keys f db)) \<longleftrightarrow> (\<exists>kd. (k, kd) \<in> set (range_keys f db))"
  by (force simp: image_iff)

lemma db_view_live: "db_view P db k = Some (v, x) \<longleftrightarrow> (\<exists>kd. live db k kd \<and> v = db_value P db kd \<and> x = TTL kd)"
  by (auto simp: db_view_def live_def split: option.splits)

text \<open>What the view says of a key at a time: it is there, and not past its stamp.\<close>

definition listed :: "view \<Rightarrow> 32 word \<Rightarrow> key \<Rightarrow> bool" where
  "listed m now k \<longleftrightarrow> (\<exists>v x. m k = Some (v, x) \<and> (x = 0 \<or> now \<le> x))"

lemma ListKeys_view:
  assumes "db_sound P db" "ListKeys P db = (ks, db')"
  shows "sorted ks" "distinct ks" "set ks = {k. listed (db_view P db) (unix32 (clock P (wTicks (world db)))) k}"
    "reads P db db'"
proof -
  let ?now = "unix32 (clock P (wTicks (world db)))"
  let ?kvs = "range_keys (unexpired ?now) (snd (db_now P db))"
  have k: "keyDir (snd (db_now P db)) = keyDir db" by (simp add: db_now_eq)
  have run: "ks = sort (map fst ?kvs)" "db' = snd (db_now P db)"
    using assms(2) by (auto simp: ListKeys_def db_now_eq)
  note g = range_keys_get [of "snd (db_now P db)", unfolded k, OF db_soundD(1) [OF assms(1)]]
  show "sorted ks" "distinct ks" using g(1) by (simp_all add: run(1))
  have "k \<in> set ks \<longleftrightarrow> listed (db_view P db) ?now k" for k
    unfolding run(1) set_sort key_in_range g(2) listed_def db_view_live live_def unexpired_def by blast
  then show "set ks = {k. listed (db_view P db) ?now k}" by blast
  show "reads P db db'" unfolding run(2) by (rule reads_now [OF assms(1)])
qed

section \<open>The remaining time\<close>

definition ttl_answer :: "(bytes outcome \<times> 32 word) option \<Rightarrow> 32 word \<Rightarrow> int outcome" where
  "ttl_answer e now =
     (case e of
        None \<Rightarrow> Err KeyNotFound
      | Some (v, x) \<Rightarrow>
          if x = 0 then Ok (- 1) else if now \<ge> x then Err KeyExpired
          else Ok ((int (unat x) - int (unat now)) * 1000000000))"

lemma GetTTL_view:
  assumes "db_sound P db" "GetTTL P k db = (r, db')"
  shows "r = ttl_answer (db_view P db k) (unix32 (clock P (wTicks (world db))))" "reads P db db'"
proof -
  let ?now = "unix32 (clock P (wTicks (world db)))"
  let ?x = "GetTTL P k db"
  have x: "fst ?x = ttl_answer (db_view P db k) ?now \<and> snd ?x \<in> {db, snd (db_now P db)}"
  proof (cases "cm_Get (keyDir db) k")
    case (Some kd)
    then show ?thesis
      by (cases "Deleted kd"; cases "TTL kd = 0"; cases "TTL kd \<le> ?now")
        (simp_all only: GetTTL_def ttl_answer_def db_view_def db_now_eq option.case prod.case Let_def
          if_True if_False fst_conv snd_conv insert_iff simp_thms)
  qed (simp add: GetTTL_def ttl_answer_def db_view_def)
  show "r = ttl_answer (db_view P db k) ?now" by (rule conjunct1 [OF x, unfolded assms(2) fst_conv])
  have "db' = db \<or> db' = snd (db_now P db)" using conjunct2 [OF x, unfolded assms(2) snd_conv] by (simp only: insert_iff empty_iff simp_thms)
  then show "reads P db db'" by (elim disjE) (simp_all only: reads_refl [OF assms(1)] reads_now [OF assms(1)])
qed

section \<open>Expiry in the background\<close>

lemma plain_deleteInternal:
  assumes "plain_ready P cfg (del_cost P cfg k + n) db" "deleteInternal P k db = (r, db')"
  shows "plain_ready P cfg n db'" "db_view P db' = (db_view P db)(k := None)"
    "r = (if db_view P db k = None then Err KeyNotFound else Ok ())"
proof -
  have rd: "db_sound P db" "wal_ready db" "room (del_cost P cfg k + n) db" "smart db = None" "config db = cfg" "writes_ok P"
    using assms(1) by (simp_all add: plain_ready_def)
  show "plain_ready P cfg n db'" "db_view P db' = (db_view P db)(k := None)"
    "r = (if db_view P db k = None then Err KeyNotFound else Ok ())"
  proof (atomize (full), cases "db_view P db k")
    case None
    then have "(r, db') = (Err KeyNotFound, db)"
      using assms(2) by (auto simp: deleteInternal_def db_view_def split: option.splits if_splits)
    moreover have "plain_ready P cfg n db" using assms(1) by (rule plain.ready_less)
    ultimately show "plain_ready P cfg n db' \<and> db_view P db' = (db_view P db)(k := None) \<and>
        r = (if db_view P db k = None then Err KeyNotFound else Ok ())"
      using None by (simp add: fun_upd_idem)
  next
    case (Some vx)
    then obtain kd where kd: "live db k kd" by (auto simp: db_view_def live_def split: option.splits if_splits)
    obtain e db1 db0 where t: "db_compress P TombstoneValue db = (Ok (pack P cfg TombstoneValue), db0)"
      "smart db0 = None" "tombstone P k db = (Ok e, db1)" "length (serializeEntry e) \<le> del_cost P cfg k"
      using plain_tombstone [OF rd(4), of P k] rd(5) by metis
    have rm: "room (length (serializeEntry e) + n) db" "room (length (serializeEntry e)) db"
      using room_le [OF rd(3)] t(4) by simp_all
    obtain db2 where d: "deleteInternal P k db = (Ok (), db2)" "erased k e db db2" "smart db2 = smart db0"
      "\<And>n. room (length (serializeEntry e) + n) db \<Longrightarrow> room n db2"
      using deleteInternal_erases [OF rd(6,1,2) kd t(1) returns_simps(1) t(3) rm(2)] by metis
    note s = erased_sound [OF rd(1) d(2)]
    have "wal_ready db2" "config db2 = config db" using d(2) unfolding erased_def by blast+
    then have "plain_ready P cfg n db2" using s(1) d(3,4) t(2) rd(5,6) rm(1) by (simp add: plain_ready_def)
    then show "plain_ready P cfg n db' \<and> db_view P db' = (db_view P db)(k := None) \<and>
        r = (if db_view P db k = None then Err KeyNotFound else Ok ())"
      using d(1) s(2) assms(2) Some by simp
  qed
qed

lemma delete_expired_view:
  assumes "plain_ready P cfg (sum_list (map (del_cost P cfg) ks) + n) db"
  shows "\<exists>db'. delete_expired P ks db = (Ok (), db') \<and> plain_ready P cfg n db' \<and>
    db_view P db' = (\<lambda>k. if k \<in> set ks then None else db_view P db k)"
  using assms
proof (induction ks arbitrary: db)
  case (Cons k ks)
  let ?n = "sum_list (map (del_cost P cfg) ks) + n"
  obtain r db1 where d: "deleteInternal P k db = (r, db1)" by (rule prod.exhaust)
  have "plain_ready P cfg (del_cost P cfg k + ?n) db" using Cons.prems by (simp add: add.assoc)
  note p = plain_deleteInternal [OF this d]
  let ?db2 = "bump (\<lambda>m. m\<lparr>ExpiredKeyCount := ExpiredKeyCount m + 1\<rparr>) db1"
  have s: "same_store db1 ?db2" by simp
  have "file_of ?db2 = file_of db1" by (simp add: file_of_def fun_eq_iff)
  then have r2: "plain_ready P cfg ?n ?db2"
    using p(1) same_store_sound [OF s] by (simp add: plain_ready_def wal_ready_def room_def)
  obtain db' where i: "delete_expired P ks ?db2 = (Ok (), db')" "plain_ready P cfg n db'"
    "db_view P db' = (\<lambda>k. if k \<in> set ks then None else db_view P ?db2 k)"
    using Cons.IH [OF r2] by blast
  have "delete_expired P (k # ks) db = (Ok (), db')"
    using d p(3) i(1) by (cases "db_view P db k = None") simp_all
  then show ?case using i(2,3) p(2) same_store_view [OF s] by (auto simp: fun_eq_iff)
qed (auto simp: fun_eq_iff)

text \<open>The clean-up deletes exactly the keys whose stamp has come.\<close>

definition outdated :: "view \<Rightarrow> 32 word \<Rightarrow> key \<Rightarrow> bool" where
  "outdated m now k \<longleftrightarrow> (\<exists>v x. m k = Some (v, x) \<and> x \<noteq> 0 \<and> now \<ge> x)"

lemma cleanupExpiredKeys_view:
  fixes db :: GojiDB and P :: Platform
  defines "now \<equiv> unix32 (clock P (wTicks (world db)))"
  defines "ks \<equiv> map fst (range_keys (\<lambda>kd. \<not> Deleted kd \<and> TTL kd > 0 \<and> now \<ge> TTL kd) db)"
  assumes "plain_ready P cfg (sum_list (map (del_cost P cfg) ks) + n) db"
  shows "\<exists>db'. cleanupExpiredKeys P db = (Ok (), db') \<and> plain_ready P cfg n db' \<and>
    db_view P db' = (\<lambda>k. if outdated (db_view P db) now k then None else db_view P db k)"
proof -
  let ?db1 = "snd (db_now P db)"
  have s: "same_store db ?db1" by simp
  have k: "keyDir ?db1 = keyDir db" "smart ?db1 = smart db" "config ?db1 = config db" "wal ?db1 = wal db"
    "file_of ?db1 = file_of db" by (simp_all add: db_now_eq file_of_def fun_eq_iff)
  have r: "plain_ready P cfg (sum_list (map (del_cost P cfg) ks) + n) ?db1"
    using assms(3) same_store_sound [OF s] by (simp add: plain_ready_def k wal_ready_def room_def)
  have ks: "map fst (range_keys (\<lambda>kd. \<not> Deleted kd \<and> TTL kd > 0 \<and> now \<ge> TTL kd) ?db1) = ks"
    by (simp add: ks_def range_keys_def k(1))
  have run: "cleanupExpiredKeys P db = delete_expired P ks ?db1"
    using ks by (simp add: cleanupExpiredKeys_def db_now_eq now_def)
  have "db_sound P db" using assms(3) by (simp add: plain_ready_def)
  note g = range_keys_get(2) [OF db_soundD(1) [OF this]]
  have "k \<in> set ks \<longleftrightarrow> outdated (db_view P db) now k" for k
  proof -
    have "k \<in> set ks \<longleftrightarrow> (\<exists>kd. live db k kd \<and> TTL kd \<noteq> 0 \<and> now \<ge> TTL kd)"
      unfolding ks_def key_in_range g live_def word_gt_0 by (simp only: conj_assoc eq_commute [of 0])
    also have "\<dots> \<longleftrightarrow> outdated (db_view P db) now k"
      unfolding outdated_def db_view_live by metis
    finally show ?thesis .
  qed
  then show ?thesis
    using delete_expired_view [OF r] by (simp only: run same_store_view [OF s])
qed

end
