(* ===== verification/LogReplay.thy ===== *)
theory LogReplay
  imports Durability
begin

text \<open>
  Which transactions a recovery applies, said of the records of the log as they stand in the file: the
  grouping by transaction and the bookkeeping of the replay do not occur.
\<close>

section \<open>Transactions in a log\<close>

text \<open>A transaction counts when its begin and its commit are in the log and no rollback of it is.\<close>

definition committed :: "WALRecord list \<Rightarrow> key \<Rightarrow> bool" where
  "committed recs t \<longleftrightarrow> t \<noteq> [] \<and>
     (\<exists>x \<in> set recs. wrTxID x = t \<and> wrType x = WALBegin) \<and>
     (\<exists>x \<in> set recs. wrTxID x = t \<and> wrType x = WALCommit) \<and>
     \<not> (\<exists>x \<in> set recs. wrTxID x = t \<and> wrType x = WALRollback)"

definition record_effect :: "WALRecord \<Rightarrow> view \<Rightarrow> view" where
  "record_effect x m =
     (if wrType x = WALPut then m(wrKey x \<mapsto> (Ok (wrValue x), 0))
      else if wrType x = WALDelete then m(wrKey x := None) else m)"

definition logged_effect :: "WALRecord list \<Rightarrow> key \<Rightarrow> view \<Rightarrow> view" where
  "logged_effect recs t = fold record_effect (filter (\<lambda>x. wrTxID x = t) recs)"

definition record_fits :: "Platform \<Rightarrow> GojiDBConfig \<Rightarrow> WALRecord \<Rightarrow> bool" where
  "record_fits P cfg x \<longleftrightarrow> (wrType x = WALPut \<longrightarrow> plain_fits P cfg (wrKey x) (wrValue x)) \<and>
     (wrType x = WALDelete \<longrightarrow> wrKey x \<noteq> [])"

definition record_cost :: "Platform \<Rightarrow> GojiDBConfig \<Rightarrow> WALRecord \<Rightarrow> nat" where
  "record_cost P cfg x =
     (if wrType x = WALPut then put_cost P cfg (wrKey x) (wrValue x)
      else if wrType x = WALDelete then del_cost P cfg (wrKey x) else 0)"

section \<open>The grouping\<close>

lemma group_records_snoc: "group_records (xs @ [x]) = add_record x (group_records xs)"
  by (simp add: group_records_def)

lemma group_records_get:
  "map_of (group_records recs) t =
     (let xs = filter (\<lambda>x. wrTxID x = t) recs in if t = [] \<or> xs = [] then None else Some xs)"
proof (induction recs rule: rev_induct)
  case Nil
  then show ?case by (simp add: group_records_def)
next
  case (snoc x recs)
  then show ?case
    by (auto simp: group_records_snoc add_record_def update_conv' Let_def split: option.splits if_splits)
qed

lemma group_records_distinct: "distinct (map fst (group_records recs))"
proof (induction recs rule: rev_induct)
  case Nil
  then show ?case by (simp add: group_records_def)
next
  case (snoc x recs)
  then show ?case by (simp add: group_records_snoc add_record_def distinct_update)
qed

lemma two_members: "a \<in> set xs \<Longrightarrow> b \<in> set xs \<Longrightarrow> a \<noteq> b \<Longrightarrow> 2 \<le> length xs"
  by (cases xs; cases "tl xs") auto

lemma replayable_committed:
  assumes "t \<noteq> []"
  shows "tx_replayable (filter (\<lambda>x. wrTxID x = t) recs) \<longleftrightarrow> committed recs t"
proof -
  let ?xs = "filter (\<lambda>x. wrTxID x = t) recs"
  have "2 \<le> length ?xs" if "has_type WALBegin ?xs" "has_type WALCommit ?xs"
  proof -
    note h = that
    obtain a b where "a \<in> set ?xs" "wrType a = WALBegin" "b \<in> set ?xs" "wrType b = WALCommit"
      using h unfolding has_type_def list_ex_iff by blast
    then show ?thesis by (intro two_members [of a _ b]) auto
  qed
  then show ?thesis
    using assms by (auto simp: tx_replayable_def has_type_def list_ex_iff committed_def)
qed

lemma operations_effect: "fold op_effect (tx_operations xs) m = fold record_effect xs m"
  by (induction xs arbitrary: m) (auto simp: tx_operations_def op_effect_def record_effect_def)

lemma operations_fit: "\<forall>x \<in> set xs. record_fits P cfg x \<Longrightarrow> \<forall>op \<in> set (tx_operations xs). plain.admissible P cfg op"
  by (auto simp: tx_operations_def record_fits_def plain.admissible_def split: if_splits)

lemma operations_cost: "sum_list (map (plain.op_cost P cfg) (tx_operations xs)) = sum_list (map (record_cost P cfg) xs)"
  by (induction xs) (simp_all add: tx_operations_def record_cost_def plain.op_cost_def)

section \<open>The replayed transactions\<close>

lemma replayed_ops_simps [simp]:
  "replayed_ops [] = []"
  "replayed_ops ((t, xs) # txs) = (if tx_replayable xs then tx_operations xs else []) @ replayed_ops txs"
  by (simp_all add: replayed_ops_def)

lemma replayed_ops_split:
  assumes "\<forall>(t, xs) \<in> set txs. t \<noteq> [] \<and> xs = filter (\<lambda>x. wrTxID x = t) recs"
  defines "ts \<equiv> filter (committed recs) (map fst txs)"
  shows "fold op_effect (replayed_ops txs) m = fold (logged_effect recs) ts m \<and>
    sum_list (map (plain.op_cost P cfg) (replayed_ops txs)) =
       sum_list (map (\<lambda>t. sum_list (map (record_cost P cfg) (filter (\<lambda>x. wrTxID x = t) recs))) ts) \<and>
    ((\<forall>x \<in> set recs. record_fits P cfg x) \<longrightarrow> (\<forall>op \<in> set (replayed_ops txs). plain.admissible P cfg op))"
  using assms(1) unfolding ts_def
proof (induction txs arbitrary: m)
  case (Cons p txs)
  obtain t xs where p: "p = (t, xs)" by (rule prod.exhaust)
  have h: "t \<noteq> []" "xs = filter (\<lambda>x. wrTxID x = t) recs" "\<forall>(t, xs) \<in> set txs. t \<noteq> [] \<and> xs = filter (\<lambda>x. wrTxID x = t) recs"
    using Cons.prems by (auto simp: p)
  have r: "tx_replayable xs = committed recs t" using replayable_committed [OF h(1)] by (simp add: h(2))
  have fit: "\<forall>op \<in> set (tx_operations xs). plain.admissible P cfg op" if "\<forall>x \<in> set recs. record_fits P cfg x"
    using that by (intro operations_fit) (simp add: h(2))
  have e: "fold op_effect (tx_operations xs) m = logged_effect recs t m" for m
    by (simp add: operations_effect h(2) logged_effect_def)
  have c: "sum_list (map (plain.op_cost P cfg) (tx_operations xs)) = sum_list (map (record_cost P cfg) (filter (\<lambda>x. wrTxID x = t) recs))"
    by (simp add: operations_cost h(2))
  show ?case using Cons.IH [OF h(3)] fit by (auto simp: p r e c)
qed simp

lemma one_share: "distinct ts \<Longrightarrow> sum_list (map (\<lambda>t. if a = t then (c :: nat) else 0) ts) \<le> c"
proof (induction ts)
  case (Cons t ts)
  have "a \<notin> set xs \<Longrightarrow> sum_list (map (\<lambda>t. if a = t then c else 0) xs) = 0" for xs by (induction xs) auto
  then show ?case using Cons by auto
qed simp

lemma shares_bounded:
  assumes "distinct ts"
  shows "sum_list (map (\<lambda>t. sum_list (map (f :: WALRecord \<Rightarrow> nat) (filter (\<lambda>x. wrTxID x = t) recs))) ts) \<le> sum_list (map f recs)"
proof (induction recs)
  case (Cons x recs)
  have "sum_list (map (\<lambda>t. sum_list (map f (filter (\<lambda>y. wrTxID y = t) (x # recs)))) ts) =
      sum_list (map (\<lambda>t. (if wrTxID x = t then f x else 0) + sum_list (map f (filter (\<lambda>y. wrTxID y = t) recs))) ts)"
    by (rule arg_cong [of _ _ sum_list], rule map_cong) auto
  also have "\<dots> = sum_list (map (\<lambda>t. if wrTxID x = t then f x else 0) ts) +
      sum_list (map (\<lambda>t. sum_list (map f (filter (\<lambda>y. wrTxID y = t) recs))) ts)" by (rule sum_list_addf)
  also have "\<dots> \<le> f x + sum_list (map f recs)" by (rule add_mono [OF one_share [OF assms] Cons.IH])
  finally show ?case by simp
qed simp

text \<open>Recovery over a log that consists of whole records.\<close>

lemma Recover_committed:
  assumes "wal db = Some m" "EnableWAL (walConfig m)" "order_ok P"
    and "map_of (wFiles (world db)) WalName = Some (concat (map (wal_frame P) recs))" "\<forall>x \<in> set recs. wal_ok P x"
    and "\<forall>x \<in> set recs. record_fits P cfg x" "plain_ready P cfg (sum_list (map (record_cost P cfg) recs) + n) db"
  obtains ts db' where "Recover P db = (Ok (), db')" "plain_ready P cfg n db'" "distinct ts" "set ts = {t. committed recs t}"
    "db_view P db' = fold (logged_effect recs) ts (db_view P db)"
proof -
  define txs where "txs = visit P (wTicks (world db)) (group_records recs)"
  define ts where "ts = filter (committed recs) (map fst txs)"
  note g = group_records_distinct [of recs]
  have m: "map_of txs = map_of (group_records recs)" unfolding txs_def by (rule visit_map_of [OF assms(3) g])
  have d: "distinct (map fst txs)" unfolding txs_def by (rule visit_distinct [OF assms(3) g])
  have e: "\<forall>(t, xs) \<in> set txs. t \<noteq> [] \<and> xs = filter (\<lambda>x. wrTxID x = t) recs"
  proof (clarify)
    fix t xs assume "(t, xs) \<in> set txs"
    then have "map_of (group_records recs) t = Some xs" using d by (simp flip: m)
    then show "t \<noteq> [] \<and> xs = filter (\<lambda>x. wrTxID x = t) recs" by (auto simp: group_records_get Let_def split: if_splits)
  qed
  have dt: "distinct ts" using d by (simp add: ts_def)
  have "t \<in> fst ` set txs" if c: "committed recs t" for t
  proof -
    have "map_of txs t \<noteq> None" using c by (auto simp: m group_records_get committed_def Let_def filter_empty_conv)
    then show ?thesis by (simp add: map_of_eq_None_iff)
  qed
  then have st: "set ts = {t. committed recs t}" by (auto simp: ts_def)
  note s = replayed_ops_split [OF e, folded ts_def, THEN conjunct1]
    and c = replayed_ops_split [OF e, folded ts_def, THEN conjunct2, THEN conjunct1]
    and a = replayed_ops_split [OF e, folded ts_def, THEN conjunct2, THEN conjunct2]
  have "sum_list (map (plain.op_cost P cfg) (replayed_ops txs)) \<le> sum_list (map (record_cost P cfg) recs)"
    unfolding c by (rule shares_bounded [OF dt])
  then have r: "plain_ready P cfg (sum_list (map (plain.op_cost P cfg) (replayed_ops txs)) + n) db"
    using assms(7) room_le unfolding plain_ready_def by (meson add_le_mono1)
  from Recover_effects [OF assms(1,2,4) read_log_frames [OF assms(5)] refl _ r [unfolded txs_def]] obtain db' where
    "Recover P db = (Ok (), db')" "plain_ready P cfg n db'" "db_view P db' = fold op_effect (replayed_ops txs) (db_view P db)"
    using a assms(6) unfolding txs_def by blast
  then show thesis using that [OF _ _ dt st] by (simp add: s)
qed

section \<open>Opening a directory that has a log\<close>

lemma restart_replays_committed:
  assumes "durable P db" "index_sound db" "smart db = None" "clock32 P" "cfgSmart cfg = None"
    and "EnableWAL cfg" "0 < WALFlushInterval cfg" "order_ok P" "writes_ok P"
    and "contents WalName (wFiles (world db)) = concat (map (wal_frame P) recs)" "\<forall>x \<in> set recs. wal_ok P x"
    and "\<forall>x \<in> set recs. record_fits P cfg x" "room (sum_list (map (record_cost P cfg) recs) + n) db"
  obtains ts db' where "NewGojiDB P cfg (world db) = (Ok (), db')" "plain_ready P cfg n db'" "distinct ts"
    "set ts = {t. committed recs t}" "db_view P db' = fold (logged_effect recs) ts (db_view P db)"
proof -
  obtain db0 where b: "NewGojiDB P cfg (world db) = attach_wal P db0" "db_sound P db0" "config db0 = cfg"
    "db_view P db0 = db_view P db" "smart db0 = None" "file_of db0 = file_of db" "wFiles (world db0) = wFiles (world db)"
    by (rule restart_before_log [OF assms(1-5)]) (rule that; assumption)
  obtain m w where m: "NewWALManager P cfg (world db0) = (Ok m, w)" "wal_open m" "EnableWAL (walConfig m)"
    "wFiles w = create_missing WalName (wFiles (world db0))"
    using assms(6,7) by (simp add: NewWALManager_def read_clock_def wal_open_def Let_def)
  define db1 where "db1 = db0\<lparr>world := w, wal := Some m\<rparr>"
  have f: "file_of db1 = file_of db0"
    by (simp add: db1_def file_of_def fun_eq_iff m(4) create_missing_def update_conv')
  have k: "live db1 = live db0" "entry_inside db1 = entry_inside db0" "db_open db1 = db_open db0"
    "db_decompress P db1 = db_decompress P db0"
    by (auto simp: live_def entry_inside_def db_open_def f fun_eq_iff db_decompress_def) (simp_all add: db1_def)
  have bo: "block_ok P db1 = block_ok P db0" by (simp add: block_ok_def f k(1) fun_eq_iff)
  have "db_sound P db1" using b(2) by (simp add: db_sound_def f k bo) (simp add: db1_def)
  moreover have "room (sum_list (map (record_cost P cfg) recs) + n) db1" using assms(13) by (simp add: room_def f b(6))
  ultimately have rd: "plain_ready P cfg (sum_list (map (record_cost P cfg) recs) + n) db1"
    using m(2) b(3,5) assms(9) by (simp add: plain_ready_def wal_ready_def db1_def)
  have log: "map_of (wFiles (world db1)) WalName = Some (concat (map (wal_frame P) recs))"
    using assms(10) by (auto simp: db1_def m(4) b(7) create_missing_def contents_def update_conv' split: option.splits)
  have v: "db_view P db1 = db_view P db0"
  proof -
    have "db_value P db1 = db_value P db0" by (intro ext) (simp only: db_value_def f k(4))
    moreover have "keyDir db1 = keyDir db0" by (simp add: db1_def)
    ultimately show ?thesis by (intro ext) (simp only: db_view_def)
  qed
  obtain ts db' where r: "Recover P db1 = (Ok (), db')" "plain_ready P cfg n db'" "distinct ts" "set ts = {t. committed recs t}"
    "db_view P db' = fold (logged_effect recs) ts (db_view P db1)"
    by (rule Recover_committed [OF _ m(3) assms(8) log assms(11,12) rd]) (simp add: db1_def, rule that)
  have "attach_wal P db0 = (Ok (), db')"
    using assms(6) m(1) r(1) b(3) by (simp add: attach_wal_def db_wrap_def db1_def Let_def)
  then show thesis using that b(1,4) r(2-5) v by simp
qed

end
