(* ===== verification/SampleStates.thy ===== *)
theory SampleStates
  imports Sample RecoverySpec Session KeysSpec ReadBack LogReplay
begin

text \<open>Concrete states of the database, on which the properties are evaluated.\<close>

definition torn_db :: GojiDB where
  "torn_db = (empty_db sample (GojiDB_section (createDefaultConfig sample)) empty_world)
     \<lparr>wal := Some (fst fresh_wal),
      world := empty_world\<lparr>wFiles := [(WalName, take 5 (wal_frame sample torn_record))]\<rparr>\<rparr>"

text \<open>The sample platform with a clock that stops before 2106.\<close>

definition sample32 :: Platform where
  "sample32 = sample\<lparr>clock := (\<lambda>n. 1700000000000000000 + int (min n 1000000) * 1000000000)\<rparr>"

lemma sample32_laws:
  "codec_ok sample32" "order_ok sample32" "writes_ok sample32" "clock32 sample32"
  "formats_distinct sample32" "sha_separates (sha256 sample32)"
proof -
  show "codec_ok sample32" "order_ok sample32" "writes_ok sample32" "formats_distinct sample32"
    "sha_separates (sha256 sample32)"
    using sample_laws by (simp_all add: sample32_def codec_ok_def order_ok_def writes_ok_def formats_distinct_def)
  have c: "unix (clock sample32 n) = 1700000000 + int (min n 1000000)" for n
  proof -
    have "clock sample32 n = (1700000000 + int (min n 1000000)) * 1000000000"
      by (simp add: sample32_def)
    then show ?thesis unfolding unix_def by simp
  qed
  show "clock32 sample32"
    unfolding clock32_def c clock_mono_def by (auto simp: sample32_def min_def)
qed

definition plain_cfg :: GojiDBConfig where
  "plain_cfg = (GojiDB_section (createDefaultConfig sample32))\<lparr>EnableWAL := False, cfgSmart := None\<rparr>"

lemma plain_cfg_fields: "\<not> EnableWAL plain_cfg" "cfgSmart plain_cfg = None" "MaxFileSize plain_cfg = 67108864"
  by (simp_all add: plain_cfg_def createDefaultConfig_def)

lemma sample32_stamp: "unix32 (clock sample32 t + 5000000000) \<noteq> 0"
proof -
  have "clock sample32 t + 5000000000 = (1700000005 + int (min t 1000000)) * 1000000000" by (simp add: sample32_def)
  then have u: "unix (clock sample32 t + 5000000000) = 1700000005 + int (min t 1000000)" unfolding unix_def by simp
  have b: "0 \<le> int (min t 1000000)" "int (min t 1000000) \<le> 1000000" by simp_all
  define i where "i = 1700000005 + int (min t 1000000)"
  have i: "0 < i" "i < 2 ^ 32" using b by (simp_all add: i_def)
  have "uint (unix32 (clock sample32 t + 5000000000)) = i"
    unfolding unix32_def u i_def [symmetric] using i by (simp add: uint_word_of_int take_bit_int_eq_self)
  then show ?thesis using i(1) by force
qed

lemma plain_env: "session_env sample32 plain_cfg"
  using sample32_laws
  by (simp add: session_env_def plain_cfg_def pack_def performStandardCompress_def createDefaultConfig_def
      TombstoneValue_def str_def sample32_def sample_def)

definition fresh_db :: GojiDB where
  "fresh_db = snd (NewGojiDB sample32 plain_cfg empty_world)"

lemma fresh_db_ready:
  "NewGojiDB sample32 plain_cfg empty_world = (Ok (), fresh_db)" "n < 2 ^ 63 \<Longrightarrow> plain_ready sample32 plain_cfg n fresh_db"
  "durable sample32 fresh_db" "db_view sample32 fresh_db = Map.empty" "activeFileID fresh_db = 1"
  "session sample32 plain_cfg fresh_db Map.empty" "unaligned fresh_db k"
  and fresh_file: "file_of fresh_db (activeFileID fresh_db) = Some []"
proof -
  have g: "glob_data (wFiles empty_world) = []" "distinct (map fst (wFiles empty_world))"
    by (simp_all add: empty_world_def glob_data_def)
  have w: "EnableWAL plain_cfg \<longrightarrow> contents WalName (wFiles empty_world) = []" "EnableWAL plain_cfg \<longrightarrow> 0 < WALFlushInterval plain_cfg"
    by (simp_all add: plain_cfg_def)
  obtain db where d: "NewGojiDB sample32 plain_cfg empty_world = (Ok (), db)" "db_sound sample32 db" "wal_ready db"
    "db_view sample32 db = Map.empty" "config db = plain_cfg" "smart db = None \<longleftrightarrow> cfgSmart plain_cfg = None"
    "\<And>fid. file_of db fid = (if fid = 1 then Some [] else None)" "activeFileID db = 1" "\<And>k. lru_peek (kcCache (keyCache db)) k = None"
    by (rule fresh_database_lemma [OF g(1) w, of sample32]) (rule that; assumption)
  have f: "fresh_db = db" by (simp add: fresh_db_def d(1))
  show n: "NewGojiDB sample32 plain_cfg empty_world = (Ok (), fresh_db)" by (simp add: f d(1))
  show "durable sample32 fresh_db" by (rule fresh_durable [OF g(1) w(1) g(2) w(2) n])
  show "plain_ready sample32 plain_cfg n fresh_db" if "n < 2 ^ 63"
    using d that sample32_laws(3) by (simp add: plain_ready_def f room_def plain_cfg_def)
  show "db_view sample32 fresh_db = Map.empty" "activeFileID fresh_db = 1" by (simp_all add: f d)
  show "file_of fresh_db (activeFileID fresh_db) = Some []" by (simp add: f d)
  show "unaligned fresh_db k" by (simp add: unaligned_def f d(9))
  show "session sample32 plain_cfg fresh_db Map.empty" by (rule session.opened [OF g n])
qed

lemma sample_pack: "fst (pack sample32 plain_cfg v) = (if v = [] then v else 0xf0 # v)"
  by (simp add: pack_def plain_cfg_def createDefaultConfig_def performStandardCompress_def sample32_def sample_def)

lemma sample_fits: "length v \<le> 1000 \<Longrightarrow> plain_fits sample32 plain_cfg [107] v"
  and sample_cost: "length v \<le> 1000 \<Longrightarrow> put_cost sample32 plain_cfg [107] v < 2 ^ 62"
  by (simp_all add: plain_fits_def put_cost_def sample_pack sample32_laws HeaderSize_def)

lemma sample_del_cost: "del_cost sample32 plain_cfg [107] < 2 ^ 62"
  by (simp add: del_cost_def sample_pack HeaderSize_def TombstoneValue_def str_def)

text \<open>One key stored in a fresh database.\<close>

definition one_db :: GojiDB where
  "one_db = snd (Put sample32 [107] [118] fresh_db)"

lemma one_db_ready:
  "Put sample32 [107] [118] fresh_db = (Ok (), one_db)" "n < 2 ^ 62 \<Longrightarrow> plain_ready sample32 plain_cfg n one_db"
  "durable sample32 one_db" "db_view sample32 one_db = [[107] \<mapsto> (Ok [118], 0)]"
  "session sample32 plain_cfg one_db [[107] \<mapsto> (Ok [118], 0)]"
proof -
  have fit: "plain_fits sample32 plain_cfg [107] [118]" by (rule sample_fits) simp
  have n: "\<exists>db. PutWithTTL sample32 [107] [118] 0 fresh_db = (Ok (), db) \<and> plain_ready sample32 plain_cfg n db \<and>
      db_view sample32 db = [[107] \<mapsto> (Ok [118], 0)]" if "n < 2 ^ 62" for n
  proof -
    have r: "plain_ready sample32 plain_cfg (put_cost sample32 plain_cfg [107] [118] + n) fresh_db"
      by (rule fresh_db_ready(2)) (use sample_cost [of "[118]"] that in simp)
    obtain db x where "PutWithTTL sample32 [107] [118] 0 fresh_db = (Ok (), db)" "plain_ready sample32 plain_cfg n db"
      "db_view sample32 db = (db_view sample32 fresh_db)([107] \<mapsto> (Ok [118], x))"
      "stamp_ok sample32 (wTicks (world fresh_db)) (wTicks (world db)) 0 x"
      by (rule plain_PutWithTTL [OF fit r]) (rule that; assumption)
    then show ?thesis by (simp add: stamp_ok_def fresh_db_ready(4))
  qed
  show p: "Put sample32 [107] [118] fresh_db = (Ok (), one_db)"
    using n [of 0] by (auto simp: one_db_def Put_def)
  then have one: "PutWithTTL sample32 [107] [118] 0 fresh_db = (Ok (), one_db)" by (simp add: Put_def)
  show "plain_ready sample32 plain_cfg n one_db" if "n < 2 ^ 62" using n [OF that] one by auto
  show "db_view sample32 one_db = [[107] \<mapsto> (Ok [118], 0)]" using n [of 0] one by auto
  show s: "session sample32 plain_cfg one_db [[107] \<mapsto> (Ok [118], 0)]"
  proof (rule session.stored [OF fresh_db_ready(6) fit _ _ _ p])
    show "room (put_cost sample32 plain_cfg [107] [118]) fresh_db"
      using fresh_db_ready(2) [of "put_cost sample32 plain_cfg [107] [118]"] sample_cost [of "[118]"]
      by (simp add: plain_ready_def)
  qed (simp_all add: TombstoneValue_def str_def fresh_db_ready(5))
  show "durable sample32 one_db" using session_invariant [OF s plain_env] by blast
qed

text \<open>A database whose active file ends so that the next value starts a block.\<close>

definition padded_db :: GojiDB where
  "padded_db = fresh_db\<lparr>world := (world fresh_db)\<lparr>wFiles := [(data_name 1, replicate 4076 0)]\<rparr>\<rparr>"

lemma padded_db_ready:
  "n < 2 ^ 62 \<Longrightarrow> plain_ready sample32 plain_cfg n padded_db" "file_of padded_db (activeFileID padded_db) = Some (replicate 4076 0)"
proof -
  have f: "file_of padded_db fid = (if fid = 1 then Some (replicate 4076 0) else None)" for fid
    by (simp add: file_of_def padded_db_def)
  have s: "db_sound sample32 fresh_db" "wal_ready fresh_db" "smart fresh_db = None" "config fresh_db = plain_cfg" "writes_ok sample32"
    using fresh_db_ready(2) [of 0] by (simp_all add: plain_ready_def)
  note d = db_soundD [OF s(1)]
  have fld: "keyDir padded_db = keyDir fresh_db" "blockCache padded_db = blockCache fresh_db" "keyCache padded_db = keyCache fresh_db"
    "activeFile padded_db = activeFile fresh_db" "activeFileID padded_db = activeFileID fresh_db" "wal padded_db = wal fresh_db"
    "smart padded_db = smart fresh_db" "config padded_db = config fresh_db"
    by (simp_all add: padded_db_def)
  have none: "\<not> live fresh_db k kd" for k kd
    using fun_cong [OF fresh_db_ready(4), of k] by (auto simp: live_def db_view_def split: option.splits if_splits)
  then have none': "\<not> live padded_db k kd" for k kd by (simp add: live_def fld)
  have b: "block_ok sample32 padded_db bk x" if "block_ok sample32 fresh_db bk x" for bk x
    using that none' unfolding block_ok_def by blast
  have "lru.coherent (block_ok sample32 padded_db) (bcCache (blockCache fresh_db))"
    by (rule lru.coherent_mono [OF d(8) b])
  moreover have "db_open padded_db"
    using d(5) by (simp add: db_open_def fld f fresh_db_ready(5))
  ultimately have "db_sound sample32 padded_db"
    using d(1-4) none' by (simp add: db_sound_def fld f)
  then show "plain_ready sample32 plain_cfg n padded_db" if "n < 2 ^ 62"
    using that s(2-5) by (simp add: plain_ready_def wal_ready_def fld room_def f)
  show "file_of padded_db (activeFileID padded_db) = Some (replicate 4076 0)" by (simp add: fld fresh_db_ready(5) f)
qed

lemma padded_put:
  assumes "Put sample32 [107] [118] padded_db = (r, db1)"
  shows "\<exists>kd. cm_Get (keyDir db1) [107] = Some kd \<and> 4096 dvd unat (ValuePos kd)"
proof -
  have fit: "plain_fits sample32 plain_cfg [107] [118]" by (rule sample_fits) simp
  have r: "plain_ready sample32 plain_cfg (put_cost sample32 plain_cfg [107] [118] + 0) padded_db"
    by (rule padded_db_ready(1)) (use sample_cost [of "[118]"] in simp)
  let ?z = "[0xf0, 118] :: bytes" and ?a = "snd (pack sample32 plain_cfg [118])"
  obtain x where p: "put_trace sample32 [107] ?z ?a x padded_db db1"
    using plain_PutWithTTL [OF fit r, of 0] assms sample_pack [of "[118]"] unfolding Put_def
    by (metis list.simps(3) prod.inject)
  have s: "cm_inv (keyDir padded_db)" "db_open padded_db" "config padded_db = plain_cfg"
    using r db_soundD(1,5) by (auto simp: plain_ready_def)
  have sz: "entry_sized (mk_entry ts x ?a [107] ?z)" for ts by (rule mk_entry_sized) simp_all
  obtain kd c where kd: "cm_Get (keyDir db1) [107] = Some kd"
    "ValuePos kd = value_pos (int (length c)) (mk_entry (Timestamp kd) x ?a [107] ?z)"
    "\<And>c0. file_of padded_db (activeFileID padded_db) = Some c0 \<Longrightarrow> db_open padded_db \<Longrightarrow>
      int (length c0) + int (HeaderSize + length [107 :: byte] + length ?z) \<le> MaxFileSize (config padded_db) \<Longrightarrow> c = c0"
    by (rule put_position [OF p s(1) sz]) (rule that; assumption)
  have "c = replicate 4076 0"
    by (rule kd(3) [OF padded_db_ready(2) s(2)]) (simp add: s(3) plain_cfg_fields HeaderSize_def)
  then have "unat (ValuePos kd) = 4076 + (HeaderSize + length [107 :: byte])"
    using value_pos_nat [OF sz, of 4076] by (simp add: kd(2) HeaderSize_def)
  then show ?thesis using kd(1) by (simp add: HeaderSize_def)
qed

text \<open>A database whose log holds one complete transaction that was not applied.\<close>

definition tx_record :: "WALOpType \<Rightarrow> key \<Rightarrow> bytes \<Rightarrow> WALRecord" where
  "tx_record ty k v = \<lparr>wrType = ty, wrTimestamp = 0, wrKey = k, wrValue = v, wrTxID = [116], wrChecksum = 0\<rparr>"

definition tx_records :: "WALRecord list" where
  "tx_records = [tx_record WALBegin [] [], tx_record WALPut [107] [118], tx_record WALCommit [] []]"

definition logged_db :: GojiDB where
  "logged_db = fresh_db\<lparr>wal := Some (fst fresh_wal), world := (world fresh_db)\<lparr>wFiles :=
     AList.update WalName (concat (map (wal_frame sample32) tx_records)) (wFiles (world fresh_db))\<rparr>\<rparr>"

lemma logged_db_wal: "wal logged_db = Some (fst fresh_wal)"
  by (simp add: logged_db_def)

lemma logged_db_log:
  "EnableWAL (walConfig (fst fresh_wal))"
  "map_of (wFiles (world logged_db)) WalName = Some (concat (map (wal_frame sample32) tx_records))"
  using fresh_wal_open(1) by (simp_all add: logged_db_def update_conv' wal_open_def)

lemma logged_db_ready:
  "n < 2 ^ 62 \<Longrightarrow> plain_ready sample32 plain_cfg n logged_db" "db_view sample32 logged_db = Map.empty"
proof -
  have f: "file_of logged_db fid = file_of fresh_db fid" for fid
    by (simp add: file_of_def logged_db_def update_conv')
  have s: "db_sound sample32 fresh_db" "smart fresh_db = None" "config fresh_db = plain_cfg" "writes_ok sample32"
    using fresh_db_ready(2) [of 0] by (simp_all add: plain_ready_def)
  have fld: "keyDir logged_db = keyDir fresh_db" "blockCache logged_db = blockCache fresh_db" "keyCache logged_db = keyCache fresh_db"
    "activeFile logged_db = activeFile fresh_db" "activeFileID logged_db = activeFileID fresh_db"
    "smart logged_db = smart fresh_db" "config logged_db = config fresh_db"
    by (simp_all add: logged_db_def)
  have l: "live logged_db = live fresh_db" by (simp add: live_def fld fun_eq_iff)
  have e: "entry_inside logged_db = entry_inside fresh_db" by (simp add: entry_inside_def f fun_eq_iff)
  have b: "block_ok sample32 logged_db = block_ok sample32 fresh_db" by (simp add: block_ok_def f l fun_eq_iff)
  have o: "db_open logged_db = db_open fresh_db" by (simp add: db_open_def fld f)
  have "db_sound sample32 logged_db" using s(1) by (simp add: db_sound_def fld f o l e b)
  moreover have "room n logged_db" if "n < 2 ^ 62" for n
    using fresh_db_ready(2) [of n] that by (simp add: plain_ready_def room_def f)
  ultimately show "n < 2 ^ 62 \<Longrightarrow> plain_ready sample32 plain_cfg n logged_db"
    using s fresh_wal_open(1) by (simp add: plain_ready_def fld wal_ready_def logged_db_wal)
  show "db_view sample32 logged_db = Map.empty"
  proof
    fix k
    have "db_view sample32 fresh_db k = None" by (simp add: fresh_db_ready(4))
    then show "db_view sample32 logged_db k = None"
      by (auto simp: db_view_def fld split: option.splits if_splits)
  qed
qed

text \<open>A database with one key that has expired.\<close>

definition expired_db :: GojiDB where
  "expired_db = snd (PutWithTTL sample32 [107] [118] 1 fresh_db)"

lemma expired_db_ready:
  "n < 2 ^ 62 \<Longrightarrow> plain_ready sample32 plain_cfg n expired_db"
  "\<exists>x. x \<noteq> 0 \<and> x \<le> unix32 (clock sample32 (wTicks (world expired_db))) \<and> db_view sample32 expired_db = [[107] \<mapsto> (Ok [118], x)]"
proof -
  have fit: "plain_fits sample32 plain_cfg [107] [118]" by (rule sample_fits) simp
  have n: "plain_ready sample32 plain_cfg n expired_db \<and> (\<exists>x. db_view sample32 expired_db = [[107] \<mapsto> (Ok [118], x)] \<and>
      stamp_ok sample32 (wTicks (world fresh_db)) (wTicks (world expired_db)) 1 x)" if "n < 2 ^ 62" for n
  proof -
    have r: "plain_ready sample32 plain_cfg (put_cost sample32 plain_cfg [107] [118] + n) fresh_db"
      by (rule fresh_db_ready(2)) (use sample_cost [of "[118]"] that in simp)
    obtain db x where "PutWithTTL sample32 [107] [118] 1 fresh_db = (Ok (), db)" "plain_ready sample32 plain_cfg n db"
      "db_view sample32 db = (db_view sample32 fresh_db)([107] \<mapsto> (Ok [118], x))"
      "stamp_ok sample32 (wTicks (world fresh_db)) (wTicks (world db)) 1 x"
      by (rule plain_PutWithTTL [OF fit r]) (rule that; assumption)
    then show ?thesis by (auto simp: expired_db_def fresh_db_ready(4))
  qed
  then show "n < 2 ^ 62 \<Longrightarrow> plain_ready sample32 plain_cfg n expired_db" by blast
  obtain t x where t: "t < wTicks (world expired_db)" "x = unix32 (clock sample32 t + 1)" "db_view sample32 expired_db = [[107] \<mapsto> (Ok [118], x)]"
    using n [of 0] by (auto simp: stamp_ok_def)
  have "clock sample32 t = (1700000000 + int (min t 1000000)) * 1000000000" by (simp add: sample32_def)
  then have u: "unix (clock sample32 t) = 1700000000 + int (min t 1000000)" "unix (clock sample32 t + 1) = 1700000000 + int (min t 1000000)"
    unfolding unix_def by simp_all
  then have "x = unix32 (clock sample32 t)" by (simp add: t(2) unix32_def)
  then have "x \<le> unix32 (clock sample32 (wTicks (world expired_db)))"
    using unix32_mono [OF sample32_laws(4), of t] t(1) by simp
  moreover have "x \<noteq> 0"
  proof -
    define i where "i = 1700000000 + int (min t 1000000)"
    have b: "0 \<le> int (min t 1000000)" "int (min t 1000000) \<le> 1000000" by simp_all
    have i: "0 < i" "i < 2 ^ 32" using b by (simp_all add: i_def)
    have "uint x = i"
      unfolding t(2) unix32_def u i_def [symmetric] using i by (simp add: uint_word_of_int take_bit_int_eq_self)
    then show ?thesis using i(1) by force
  qed
  ultimately show "\<exists>x. x \<noteq> 0 \<and> x \<le> unix32 (clock sample32 (wTicks (world expired_db))) \<and> db_view sample32 expired_db = [[107] \<mapsto> (Ok [118], x)]"
    using t(3) by blast
qed

lemma tx_records_ok: "\<forall>r \<in> set tx_records. wal_ok sample32 r"
proof
  fix r
  assume "r \<in> set tx_records"
  then have "wal_ok sample r" by (intro sample_wal_ok) (auto simp: tx_records_def tx_record_def)
  then show "wal_ok sample32 r" by (simp add: wal_ok_def sample32_def)
qed

lemma tx_records_fit: "\<forall>r \<in> set tx_records. record_fits sample32 plain_cfg r"
  by (simp add: tx_records_def tx_record_def record_fits_def sample_fits)

lemma tx_records_committed: "{t. committed tx_records t} = {[116]}"
  by (auto simp: committed_def tx_records_def tx_record_def)

lemma tx_records_effect: "logged_effect tx_records [116] m = m([107] \<mapsto> (Ok [118], 0))"
  by (simp add: logged_effect_def tx_records_def tx_record_def record_effect_def)

lemma singleton_list: "distinct ts \<Longrightarrow> set ts = {t} \<Longrightarrow> ts = [t]"
  by (cases ts; cases "tl ts") auto

text \<open>A database with one key, whose log still holds an earlier transaction that deleted the key.\<close>

definition old_records :: "WALRecord list" where
  "old_records = [tx_record WALBegin [] [], tx_record WALDelete [107] [], tx_record WALCommit [] []]"

lemma old_records_facts:
  "\<forall>r \<in> set old_records. wal_ok sample32 r" "\<forall>r \<in> set old_records. record_fits sample32 cfg r"
  "{t. committed old_records t} = {[116]}" "logged_effect old_records [116] m = m([107] := None)"
  "sum_list (map (record_cost sample32 cfg) old_records) = del_cost sample32 cfg [107]"
proof -
  have "wal_ok sample r" if "r \<in> set old_records" for r
    using that by (intro sample_wal_ok) (auto simp: old_records_def tx_record_def)
  then show "\<forall>r \<in> set old_records. wal_ok sample32 r" by (simp add: wal_ok_def sample32_def)
qed (auto simp: old_records_def tx_record_def record_fits_def committed_def logged_effect_def record_effect_def record_cost_def)

definition logging_cfg :: GojiDBConfig where
  "logging_cfg = plain_cfg\<lparr>EnableWAL := True, WALFlushInterval := 1\<rparr>"

definition relogged_db :: GojiDB where
  "relogged_db = one_db\<lparr>world := (world one_db)\<lparr>wFiles :=
     AList.update WalName (concat (map (wal_frame sample32) old_records)) (wFiles (world one_db))\<rparr>\<rparr>"

lemma relogged_files: "file_of relogged_db = file_of one_db"
  by (simp add: relogged_db_def file_of_def fun_eq_iff update_conv')

lemma relogged_db_ready:
  "durable sample32 relogged_db" "index_sound relogged_db" "smart relogged_db = None" "n < 2 ^ 62 \<Longrightarrow> room n relogged_db"
  "contents WalName (wFiles (world relogged_db)) = concat (map (wal_frame sample32) old_records)"
  "db_view sample32 relogged_db = [[107] \<mapsto> (Ok [118], 0)]"
proof -
  have s: "db_sound sample32 one_db" "smart one_db = None" using one_db_ready(2) [of 0] by (simp_all add: plain_ready_def)
  have fld: "keyDir relogged_db = keyDir one_db" "activeFile relogged_db = activeFile one_db" "smart relogged_db = smart one_db"
    "activeFileID relogged_db = activeFileID one_db" "wTicks (world relogged_db) = wTicks (world one_db)"
    by (simp_all add: relogged_db_def)
  have k: "live relogged_db = live one_db" "entry_inside relogged_db = entry_inside one_db" "db_open relogged_db = db_open one_db"
    "db_decompress sample32 relogged_db = db_decompress sample32 one_db"
    by (auto simp: live_def entry_inside_def db_open_def relogged_files fun_eq_iff db_decompress_def fld)
  show "index_sound relogged_db" using db_sound_index [OF s(1)] by (simp add: index_sound_def k relogged_files fld)
  show "smart relogged_db = None" by (simp add: fld s(2))
  show "room n relogged_db" if "n < 2 ^ 62" using one_db_ready(2) [OF that] by (simp add: plain_ready_def room_def relogged_files)
  show "contents WalName (wFiles (world relogged_db)) = concat (map (wal_frame sample32) old_records)"
    by (simp add: relogged_db_def contents_update)
  have v: "db_value sample32 relogged_db = db_value sample32 one_db" by (intro ext) (simp only: db_value_def relogged_files k(4))
  then have "db_view sample32 relogged_db = db_view sample32 one_db" by (intro ext) (simp only: db_view_def fld v)
  then show "db_view sample32 relogged_db = [[107] \<mapsto> (Ok [118], 0)]" by (simp add: one_db_ready(4))
  have g: "set (glob_data (wFiles (world relogged_db))) = set (glob_data (wFiles (world one_db)))"
    using data_suffix_not_wal by (auto simp: set_glob_data relogged_db_def update_conv' split: if_splits)
  have m: "map_of (wFiles (world relogged_db)) (data_name fid) = map_of (wFiles (world one_db)) (data_name fid)" for fid
    by (simp add: relogged_db_def update_conv')
  have "distinct (map fst (wFiles (world one_db))) \<Longrightarrow> distinct (map fst (wFiles (world relogged_db)))"
    by (simp add: relogged_db_def distinct_update)
  then have "disk_log (world relogged_db) ls" if "disk_log (world one_db) ls" for ls
    using that unfolding disk_log_def g m by blast
  then show "durable sample32 relogged_db" using one_db_ready(3) unfolding durable_def fld by blast
qed

end
