(* ===== verification/Locks.thy ===== *)
theory Locks
  imports ShardedMap
begin

text \<open>
  \<open>concurrent.go\<close>, the sharded lock and the counter: \<open>ShardedLock\<close> maps a key to one of its
  \<open>sync.RWMutex\<close> values by the hash that the map uses. A call that has to wait is \<open>Blocked\<close>; to
  release a lock nobody holds ends the program. Goroutines that use one lock each are a step relation,
  in which a reader waits only while a writer holds the lock: Go also makes it wait for writers that came
  before it, which removes steps and adds none.
\<close>

section \<open>\<open>sync.RWMutex\<close>\<close>

record RWMutex =
  rwWriter :: bool
  rwReaders :: nat

definition rw_Lock :: "RWMutex \<Rightarrow> RWMutex outcome" where
  "rw_Lock m = (if rwWriter m \<or> rwReaders m > 0 then Blocked else Ok (m\<lparr>rwWriter := True\<rparr>))"

definition rw_Unlock :: "RWMutex \<Rightarrow> RWMutex outcome" where
  "rw_Unlock m = (if rwWriter m then Ok (m\<lparr>rwWriter := False\<rparr>) else Panic)"

definition rw_RLock :: "RWMutex \<Rightarrow> RWMutex outcome" where
  "rw_RLock m = (if rwWriter m then Blocked else Ok (m\<lparr>rwReaders := rwReaders m + 1\<rparr>))"

definition rw_RUnlock :: "RWMutex \<Rightarrow> RWMutex outcome" where
  "rw_RUnlock m = (if rwReaders m > 0 then Ok (m\<lparr>rwReaders := rwReaders m - 1\<rparr>) else Panic)"

section \<open>\<open>ShardedLock\<close>\<close>

record ShardedLock =
  slShards :: "RWMutex list"
  slCount :: "32 word"

definition NewShardedLock :: "int \<Rightarrow> ShardedLock" where
  "NewShardedLock shardCount =
     (let n = (if shardCount \<le> 0 then 16 else shardCount)
      in \<lparr>slShards = replicate (nat n) \<lparr>rwWriter = False, rwReaders = 0\<rparr>, slCount = word_of_int n\<rparr>)"

definition sl_getShard :: "ShardedLock \<Rightarrow> key \<Rightarrow> nat" where
  "sl_getShard sl k = unat (fnv32a k mod slCount sl)"

definition on_shard :: "(RWMutex \<Rightarrow> RWMutex outcome) \<Rightarrow> key \<Rightarrow> ShardedLock \<Rightarrow> ShardedLock outcome" where
  "on_shard f k sl =
     (let i = sl_getShard sl k
      in bind_outcome (f (slShards sl ! i)) (\<lambda>m. Ok (sl\<lparr>slShards := (slShards sl)[i := m]\<rparr>)))"

definition sl_Lock :: "key \<Rightarrow> ShardedLock \<Rightarrow> ShardedLock outcome" where
  "sl_Lock k sl = on_shard rw_Lock k sl"

definition sl_Unlock :: "key \<Rightarrow> ShardedLock \<Rightarrow> ShardedLock outcome" where
  "sl_Unlock k sl = on_shard rw_Unlock k sl"

definition sl_RLock :: "key \<Rightarrow> ShardedLock \<Rightarrow> ShardedLock outcome" where
  "sl_RLock k sl = on_shard rw_RLock k sl"

definition sl_RUnlock :: "key \<Rightarrow> ShardedLock \<Rightarrow> ShardedLock outcome" where
  "sl_RUnlock k sl = on_shard rw_RUnlock k sl"

section \<open>Goroutines that lock and unlock\<close>

text \<open>A goroutine holds no lock, has called \<open>Lock\<close> (\<open>True\<close>) or \<open>RLock\<close> for a key, or holds that lock.\<close>

datatype goroutine = Outside | Waits bool key | Holds bool key

record lock_system =
  theLock :: ShardedLock
  routines :: "goroutine list"

definition acquire :: "bool \<Rightarrow> key \<Rightarrow> ShardedLock \<Rightarrow> ShardedLock outcome" where
  "acquire w k sl = (if w then sl_Lock k sl else sl_RLock k sl)"

definition release :: "bool \<Rightarrow> key \<Rightarrow> ShardedLock \<Rightarrow> ShardedLock outcome" where
  "release w k sl = (if w then sl_Unlock k sl else sl_RUnlock k sl)"

inductive lock_step :: "lock_system \<Rightarrow> lock_system \<Rightarrow> bool" where
  calls: "i < length (routines s) \<Longrightarrow> routines s ! i = Outside \<Longrightarrow>
     lock_step s (s\<lparr>routines := (routines s)[i := Waits w k]\<rparr>)"
| enters: "i < length (routines s) \<Longrightarrow> routines s ! i = Waits w k \<Longrightarrow> acquire w k (theLock s) = Ok sl \<Longrightarrow>
     lock_step s (s\<lparr>theLock := sl, routines := (routines s)[i := Holds w k]\<rparr>)"
| leaves: "i < length (routines s) \<Longrightarrow> routines s ! i = Holds w k \<Longrightarrow> release w k (theLock s) = Ok sl \<Longrightarrow>
     lock_step s (s\<lparr>theLock := sl, routines := (routines s)[i := Outside]\<rparr>)"

inductive_cases lock_stepE: "lock_step s t"

definition lock_start :: "int \<Rightarrow> nat \<Rightarrow> lock_system" where
  "lock_start shardCount n = \<lparr>theLock = NewShardedLock shardCount, routines = replicate n Outside\<rparr>"

inductive lock_reachable :: "int \<Rightarrow> nat \<Rightarrow> lock_system \<Rightarrow> bool" for c n where
  start: "lock_reachable c n (lock_start c n)"
| step: "lock_reachable c n s \<Longrightarrow> lock_step s t \<Longrightarrow> lock_reachable c n t"

section \<open>The lock agrees with the goroutines\<close>

fun holds_shard :: "ShardedLock \<Rightarrow> bool \<Rightarrow> nat \<Rightarrow> goroutine \<Rightarrow> bool" where
  "holds_shard sl w j (Holds w' k) \<longleftrightarrow> w' = w \<and> sl_getShard sl k = j"
| "holds_shard sl w j _ \<longleftrightarrow> False"

definition holders :: "lock_system \<Rightarrow> bool \<Rightarrow> nat \<Rightarrow> nat" where
  "holders s w j = length (filter (holds_shard (theLock s) w j) (routines s))"

definition shard_agrees :: "lock_system \<Rightarrow> nat \<Rightarrow> bool" where
  "shard_agrees s j \<longleftrightarrow>
     (let m = slShards (theLock s) ! j
      in holders s True j = (if rwWriter m then 1 else 0) \<and> holders s False j = rwReaders m \<and>
         (rwWriter m \<longrightarrow> rwReaders m = 0))"

definition lock_inv :: "lock_system \<Rightarrow> bool" where
  "lock_inv s \<longleftrightarrow>
     0 < slCount (theLock s) \<and> length (slShards (theLock s)) = unat (slCount (theLock s)) \<and>
     (\<forall>j < length (slShards (theLock s)). shard_agrees s j)"

lemma sl_getShard_bound: "lock_inv s \<Longrightarrow> sl_getShard (theLock s) k < length (slShards (theLock s))"
  unfolding lock_inv_def sl_getShard_def
  by (metis unat_mono word_mod_less_divisor)

lemma lock_inv_start: "c < 2 ^ 32 \<Longrightarrow> lock_inv (lock_start c n)"
proof -
  assume c: "c < 2 ^ 32"
  define m where "m = (if c \<le> 0 then 16 else c)"
  have m: "0 < m" "m < 2 ^ 32" using c by (simp_all add: m_def)
  have u: "uint (word_of_int m :: 32 word) = m" using m by (simp add: uint_word_of_int take_bit_int_eq_self)
  have l: "NewShardedLock c = \<lparr>slShards = replicate (nat m) \<lparr>rwWriter = False, rwReaders = 0\<rparr>, slCount = word_of_int m\<rparr>"
    by (simp add: NewShardedLock_def m_def)
  have "0 < (word_of_int m :: 32 word)" using u m(1) by (metis word_gt_0 uint_0_iff less_irrefl)
  moreover have "unat (word_of_int m :: 32 word) = nat m" using u by (simp add: unat_eq_nat_uint)
  ultimately show ?thesis
    by (simp add: lock_inv_def lock_start_def l shard_agrees_def holders_def)
qed

lemma on_shard_frame:
  assumes "on_shard f k sl = Ok sl'"
  shows "slCount sl' = slCount sl" "length (slShards sl') = length (slShards sl)" "sl_getShard sl' = sl_getShard sl"
    "j \<noteq> sl_getShard sl k \<Longrightarrow> slShards sl' ! j = slShards sl ! j"
    "sl_getShard sl k < length (slShards sl) \<Longrightarrow> f (slShards sl ! sl_getShard sl k) = Ok (slShards sl' ! sl_getShard sl k)"
  using assms by (auto simp: on_shard_def Let_def sl_getShard_def fun_eq_iff elim!: bind_outcome.elims)

lemma holds_shard_frame:
  assumes "on_shard f k sl = Ok sl'"
  shows "holds_shard sl' = holds_shard sl"
proof (intro ext)
  fix w j x show "holds_shard sl' w j x = holds_shard sl w j x"
    by (cases x) (simp_all add: on_shard_frame(3) [OF assms])
qed

text \<open>One goroutine changes its place and one shard its state; all others stay as they are.\<close>

lemma lock_inv_update:
  assumes "lock_inv s" "i < length (routines s)" "on_shard f k (theLock s) = Ok sl"
    and "\<And>w j. j \<noteq> sl_getShard (theLock s) k \<Longrightarrow> holds_shard (theLock s) w j g = holds_shard (theLock s) w j (routines s ! i)"
    and "shard_agrees (s\<lparr>theLock := sl, routines := (routines s)[i := g]\<rparr>) (sl_getShard (theLock s) k)"
  shows "lock_inv (s\<lparr>theLock := sl, routines := (routines s)[i := g]\<rparr>)"
proof -
  note f = on_shard_frame [OF assms(3)]
  note h = holds_shard_frame [OF assms(3)]
  have "shard_agrees (s\<lparr>theLock := sl, routines := (routines s)[i := g]\<rparr>) j" if j: "j < length (slShards (theLock s))" for j
  proof (cases "j = sl_getShard (theLock s) k")
    case False
    have "length (filter (holds_shard (theLock s) w j) ((routines s)[i := g])) =
        length (filter (holds_shard (theLock s) w j) (routines s))" for w
      using filter_update [OF assms(2), of "holds_shard (theLock s) w j" g] assms(4) [OF False, of w] by simp
    then show ?thesis
      using assms(1) j False by (auto simp: lock_inv_def shard_agrees_def holders_def h f(4))
  qed (simp add: assms(5))
  then show ?thesis using assms(1) by (simp add: lock_inv_def f)
qed

lemma lock_step_inv:
  assumes "lock_step s t" "lock_inv s"
  shows "lock_inv t"
  using assms(1)
proof cases
  case (calls i w k)
  have "holders t v j = holders s v j" for v j
    using filter_update [OF calls(2), of "holds_shard (theLock s) v j" "Waits w k"] calls(3)
    by (simp add: holders_def calls(1))
  then show ?thesis using assms(2) by (simp add: lock_inv_def shard_agrees_def calls(1))
next
  case (enters i w k sl)
  let ?j = "sl_getShard (theLock s) k"
  obtain f where f: "on_shard f k (theLock s) = Ok sl" "f = (if w then rw_Lock else rw_RLock)"
    using enters(4) by (simp add: acquire_def sl_Lock_def sl_RLock_def split: if_splits)
  note fr = on_shard_frame [OF f(1)]
  have j: "?j < length (slShards (theLock s))" by (rule sl_getShard_bound [OF assms(2)])
  have a: "shard_agrees s ?j" using assms(2) j by (simp add: lock_inv_def)
  note h = holds_shard_frame [OF f(1)]
  have c: "length (filter (holds_shard (theLock s) v ?j) ((routines s)[i := Holds w k])) =
      holders s v ?j + (if v = w then 1 else 0)" for v
    using filter_update [OF enters(2), of "holds_shard (theLock s) v ?j" "Holds w k"] enters(3)
    by (auto simp: holders_def)
  let ?m = "slShards (theLock s) ! ?j"
  have m: "\<not> rwWriter ?m" "w \<longrightarrow> rwReaders ?m = 0"
    "slShards sl ! ?j = (if w then ?m\<lparr>rwWriter := True\<rparr> else ?m\<lparr>rwReaders := rwReaders ?m + 1\<rparr>)"
    using fr(5) [OF j] f(2) by (auto simp: rw_Lock_def rw_RLock_def split: if_splits)
  have n: "holders t v ?j = holders s v ?j + (if v = w then 1 else 0)" for v
    using c [of v] unfolding enters(1) by (simp add: holders_def h)
  have t: "theLock t = sl" by (simp add: enters(1))
  have "shard_agrees t ?j" using a m unfolding shard_agrees_def Let_def n t by (cases w) auto
  then show ?thesis
    unfolding enters(1) by (intro lock_inv_update [OF assms(2) enters(2) f(1)]) (use enters(3) in auto)
next
  case (leaves i w k sl)
  let ?j = "sl_getShard (theLock s) k"
  obtain f where f: "on_shard f k (theLock s) = Ok sl" "f = (if w then rw_Unlock else rw_RUnlock)"
    using leaves(4) by (simp add: release_def sl_Unlock_def sl_RUnlock_def split: if_splits)
  note fr = on_shard_frame [OF f(1)]
  have j: "?j < length (slShards (theLock s))" by (rule sl_getShard_bound [OF assms(2)])
  have a: "shard_agrees s ?j" using assms(2) j by (simp add: lock_inv_def)
  note h = holds_shard_frame [OF f(1)]
  have c: "length (filter (holds_shard (theLock s) v ?j) ((routines s)[i := Outside])) + (if v = w then 1 else 0) =
      holders s v ?j" for v
    using filter_update [OF leaves(2), of "holds_shard (theLock s) v ?j" Outside] leaves(3)
    by (auto simp: holders_def)
  let ?m = "slShards (theLock s) ! ?j"
  have m: "if w then rwWriter ?m else 0 < rwReaders ?m"
    "slShards sl ! ?j = (if w then ?m\<lparr>rwWriter := False\<rparr> else ?m\<lparr>rwReaders := rwReaders ?m - 1\<rparr>)"
    using fr(5) [OF j] f(2) by (auto simp: rw_Unlock_def rw_RUnlock_def split: if_splits)
  have n: "holders t v ?j = holders s v ?j - (if v = w then 1 else 0)" for v
    using c [of v] unfolding leaves(1) by (auto simp: holders_def h)
  have t: "theLock t = sl" by (simp add: leaves(1))
  have "shard_agrees t ?j" using a m unfolding shard_agrees_def Let_def n t by (cases w) auto
  then show ?thesis
    unfolding leaves(1) by (intro lock_inv_update [OF assms(2) leaves(2) f(1)]) (use leaves(3) in auto)
qed

lemma lock_reachable_inv: "lock_reachable c n s \<Longrightarrow> c < 2 ^ 32 \<Longrightarrow> lock_inv s"
  by (induction rule: lock_reachable.induct) (auto intro: lock_inv_start lock_step_inv)

section \<open>Exclusion and progress\<close>

lemma holders_pos:
  assumes "i < length (routines s)" "routines s ! i = Holds w k"
  shows "0 < holders s w (sl_getShard (theLock s) k)"
proof -
  have "routines s ! i \<in> set (filter (holds_shard (theLock s) w (sl_getShard (theLock s) k)) (routines s))"
    using assms nth_mem [OF assms(1)] by simp
  then show ?thesis unfolding holders_def by (rule length_pos_if_in_set)
qed

lemma filter_two:
  assumes "i < j" "j < length xs" "p (xs ! i)" "p (xs ! j)"
  shows "2 \<le> length (filter p xs)"
proof -
  have "xs ! i \<in> set (take j xs)" using assms(1,2) by (auto simp: in_set_conv_nth intro!: exI [of _ i])
  then have "0 < length (filter p (take j xs))" using assms(3) by (metis filter_empty_conv length_greater_0_conv)
  moreover have "length (filter p xs) = length (filter p (take j xs)) + length (filter p (xs ! j # drop (Suc j) xs))"
    using assms(2) by (subst id_take_nth_drop [of j xs]) simp_all
  ultimately show ?thesis using assms(4) by (simp del: length_greater_0_conv)
qed

lemma holders_two:
  assumes "i \<noteq> j" "i < length (routines s)" "j < length (routines s)" "routines s ! i = Holds w k" "routines s ! j = Holds w k"
  shows "2 \<le> holders s w (sl_getShard (theLock s) k)"
  using assms filter_two [of i j "routines s"] filter_two [of j i "routines s"] unfolding holders_def
  by (cases "i < j") auto

lemma writer_alone:
  assumes "lock_inv s" "i < length (routines s)" "j < length (routines s)" "i \<noteq> j" "routines s ! i = Holds True k"
  shows "routines s ! j \<noteq> Holds w k"
proof
  assume r: "routines s ! j = Holds w k"
  let ?n = "sl_getShard (theLock s) k"
  have a: "shard_agrees s ?n" using assms(1) sl_getShard_bound [OF assms(1)] by (simp add: lock_inv_def)
  have i: "0 < holders s True ?n" by (rule holders_pos [OF assms(2,5)])
  have j: "0 < holders s w ?n" by (rule holders_pos [OF assms(3) r])
  have "w \<Longrightarrow> 2 \<le> holders s True ?n" using holders_two [OF assms(4,2,3,5)] r by simp
  then show False using a i j by (cases w) (auto simp: shard_agrees_def Let_def split: if_splits)
qed

text \<open>What is still to be done for the calls that have been made.\<close>

fun work_left :: "goroutine \<Rightarrow> nat" where
  "work_left Outside = 0"
| "work_left (Holds _ _) = 1"
| "work_left (Waits _ _) = 2"

definition pending_work :: "lock_system \<Rightarrow> nat" where
  "pending_work s = sum_list (map work_left (routines s))"

lemma sum_update_less:
  "i < length xs \<Longrightarrow> f x < (f (xs ! i) :: nat) \<Longrightarrow> sum_list (map f (xs[i := x])) < sum_list (map f xs)"
  using sum_update [of i xs f x] by simp

lemma holder_leaves:
  assumes "lock_inv s" "i < length (routines s)" "routines s ! i = Holds w k"
  shows "\<exists>t. lock_step s t \<and> pending_work t < pending_work s"
proof -
  have a: "shard_agrees s (sl_getShard (theLock s) k)"
    using assms(1) sl_getShard_bound [OF assms(1)] by (simp add: lock_inv_def)
  obtain sl where "release w k (theLock s) = Ok sl"
    using a holders_pos [OF assms(2,3)]
    by (cases w) (auto simp: shard_agrees_def release_def sl_Unlock_def sl_RUnlock_def on_shard_def rw_Unlock_def
        rw_RUnlock_def Let_def split: if_splits)
  from lock_step.leaves [OF assms(2,3) this] show ?thesis
    using sum_update_less [OF assms(2), of work_left Outside] assms(3) by (auto simp: pending_work_def)
qed

lemma waiter_enters:
  assumes "lock_inv s" "i < length (routines s)" "routines s ! i = Waits w k" "\<And>v q. Holds v q \<notin> set (routines s)"
  shows "\<exists>t. lock_step s t \<and> pending_work t < pending_work s"
proof -
  let ?n = "sl_getShard (theLock s) k"
  have a: "shard_agrees s ?n"
    using assms(1) sl_getShard_bound [OF assms(1)] by (simp add: lock_inv_def)
  have "\<not> holds_shard (theLock s) v ?n x" if "x \<in> set (routines s)" for v x
    using assms(4) that by (cases x) auto
  then have "holders s v ?n = 0" for v by (simp add: holders_def filter_empty_conv)
  then obtain sl where "acquire w k (theLock s) = Ok sl"
    using a by (cases w) (auto simp: shard_agrees_def acquire_def sl_Lock_def sl_RLock_def on_shard_def rw_Lock_def
        rw_RLock_def Let_def split: if_splits)
  from lock_step.enters [OF assms(2,3) this] show ?thesis
    using sum_update_less [OF assms(2), of work_left "Holds w k"] assms(3) by (auto simp: pending_work_def)
qed

lemma lock_progress:
  assumes "lock_inv s" "\<exists>g \<in> set (routines s). g \<noteq> Outside"
  shows "\<exists>t. lock_step s t \<and> pending_work t < pending_work s"
proof (cases "\<exists>v q. Holds v q \<in> set (routines s)")
  case True
  then show ?thesis using holder_leaves [OF assms(1)] by (auto simp: in_set_conv_nth)
next
  case False
  obtain i where i: "i < length (routines s)" "routines s ! i \<noteq> Outside"
    using assms(2) by (auto simp: in_set_conv_nth)
  then obtain w k where "routines s ! i = Waits w k"
    using False nth_mem [OF i(1)] by (cases "routines s ! i") auto
  from waiter_enters [OF assms(1) i(1) this] False show ?thesis by blast
qed

section \<open>\<open>AtomicCounter\<close>\<close>

text \<open>\<open>sync/atomic\<close> operations are single steps; the sum wraps at 64 bits.\<close>

record AtomicCounter =
  acValue :: "64 word"

definition NewAtomicCounter :: AtomicCounter where
  "NewAtomicCounter = \<lparr>acValue = 0\<rparr>"

definition ac_Increment :: "AtomicCounter \<Rightarrow> 64 word \<times> AtomicCounter" where
  "ac_Increment ac = (let v = acValue ac + 1 in (v, ac\<lparr>acValue := v\<rparr>))"

definition ac_Decrement :: "AtomicCounter \<Rightarrow> 64 word \<times> AtomicCounter" where
  "ac_Decrement ac = (let v = acValue ac - 1 in (v, ac\<lparr>acValue := v\<rparr>))"

definition ac_Get :: "AtomicCounter \<Rightarrow> 64 word" where
  "ac_Get ac = acValue ac"

definition ac_Set :: "64 word \<Rightarrow> AtomicCounter \<Rightarrow> AtomicCounter" where
  "ac_Set v ac = ac\<lparr>acValue := v\<rparr>"

text \<open>Any interleaving of increments (\<open>True\<close>) and decrements leaves their difference.\<close>

definition count_all :: "bool list \<Rightarrow> AtomicCounter \<Rightarrow> AtomicCounter" where
  "count_all ups ac = fold (\<lambda>up ac. snd (if up then ac_Increment ac else ac_Decrement ac)) ups ac"

lemma count_all_difference:
  "ac_Get (count_all ups ac) = ac_Get ac + of_nat (length (filter id ups)) - of_nat (length (filter Not ups))"
  unfolding count_all_def
  by (induction ups arbitrary: ac) (simp_all add: ac_Get_def ac_Increment_def ac_Decrement_def Let_def)

lemma nth_increment: "fst (ac_Increment (count_all (replicate n True) NewAtomicCounter)) = of_nat (Suc n)"
proof -
  have "ac_Get (count_all (replicate n True) NewAtomicCounter) = of_nat n"
    unfolding count_all_difference by (simp add: ac_Get_def NewAtomicCounter_def)
  then show ?thesis by (simp add: ac_Increment_def ac_Get_def Let_def)
qed

end
