(* ===== verification/WorkQueues.thy ===== *)
theory WorkQueues
  imports Prelude "HOL-Library.Multiset"
begin

text \<open>
  \<open>concurrent.go\<close>, the work queue: callers submit functions to a buffered channel, a fixed number of
  workers run them, and \<open>Close\<close> closes the channel and waits for the workers. Every access to the flag
  and every channel operation is one step of a step relation; a task is a number, or \<open>None\<close> for a nil
  function. A send on the closed channel panics, which ends the program.
\<close>

section \<open>The queue\<close>

type_synonym task = "nat option"

record WorkQueue =
  workChan :: "task list"
  chanClosed :: bool
  chanCap :: nat
  wqWorkers :: nat
  wg :: nat
  wqClosed :: bool

definition NewWorkQueue :: "int \<Rightarrow> WorkQueue" where
  "NewWorkQueue workers =
     (let n = nat (if workers \<le> 0 then 4 else workers)
      in \<lparr>workChan = [], chanClosed = False, chanCap = n * 2, wqWorkers = n, wg = n, wqClosed = False\<rparr>)"

text \<open>The \<open>select\<close> of \<open>Submit\<close>: a full buffer takes the default branch.\<close>

definition try_send :: "task \<Rightarrow> WorkQueue \<Rightarrow> bool outcome \<times> WorkQueue" where
  "try_send t q =
     (if chanClosed q then (Panic, q)
      else if length (workChan q) < chanCap q then (Ok True, q\<lparr>workChan := workChan q @ [t]\<rparr>)
      else (Ok False, q))"

text \<open>\<open>Submit\<close> without interference: the two accesses one after the other.\<close>

definition Submit :: "task \<Rightarrow> WorkQueue \<Rightarrow> bool outcome \<times> WorkQueue" where
  "Submit t q = (if wqClosed q then (Ok False, q) else try_send t q)"

section \<open>Goroutines\<close>

text \<open>
  The lists \<open>accepted\<close>, \<open>started\<close> and \<open>finished\<close> record what happened to the tasks.
  A caller of \<open>Submit\<close> has not looked at the flag yet, found it clear, or is done with the answer. A
  caller of \<open>Close\<close> has not yet tried the flag, has set it, has closed the channel and waits, or is done.
  A worker waits for a task, runs one, or has left its loop.
\<close>

datatype caller = Submits task | Checked task | Submitted bool
datatype closer = Closes | FlagSet | WaitsAll | Closed
datatype worker = Receives | Runs task | Exited

record wq_system =
  queue :: WorkQueue
  callers :: "caller list"
  closers :: "closer list"
  workers :: "worker list"
  accepted :: "task list"
  started :: "task list"
  finished :: "task list"
  crashed :: bool

definition wq_start :: "int \<Rightarrow> task list \<Rightarrow> nat \<Rightarrow> wq_system" where
  "wq_start n ts c =
     \<lparr>queue = NewWorkQueue n, callers = map Submits ts, closers = replicate c Closes,
      workers = replicate (wqWorkers (NewWorkQueue n)) Receives, accepted = [], started = [], finished = [], crashed = False\<rparr>"

text \<open>A caller's step.\<close>

fun caller_step :: "caller \<Rightarrow> wq_system \<Rightarrow> (caller \<times> wq_system) option" where
  "caller_step (Submits t) s = Some (if wqClosed (queue s) then Submitted False else Checked t, s)"
| "caller_step (Checked t) s =
     (case try_send t (queue s) of
        (Ok True, q) \<Rightarrow> Some (Submitted True, s\<lparr>queue := q, accepted := accepted s @ [t]\<rparr>)
      | (Ok False, q) \<Rightarrow> Some (Submitted False, s\<lparr>queue := q\<rparr>)
      | (_, q) \<Rightarrow> Some (Submitted False, s\<lparr>queue := q, crashed := True\<rparr>))"
| "caller_step (Submitted b) s = None"

fun closer_step :: "closer \<Rightarrow> wq_system \<Rightarrow> (closer \<times> wq_system) option" where
  "closer_step Closes s =
     Some (if wqClosed (queue s) then (Closed, s) else (FlagSet, s\<lparr>queue := (queue s)\<lparr>wqClosed := True\<rparr>\<rparr>))"
| "closer_step FlagSet s =
     Some (WaitsAll, if chanClosed (queue s) then s\<lparr>crashed := True\<rparr> else s\<lparr>queue := (queue s)\<lparr>chanClosed := True\<rparr>\<rparr>)"
| "closer_step WaitsAll s = (if wg (queue s) = 0 then Some (Closed, s) else None)"
| "closer_step Closed s = None"

text \<open>A worker's step: a nil function is received and dropped.\<close>

fun worker_step :: "worker \<Rightarrow> wq_system \<Rightarrow> (worker \<times> wq_system) option" where
  "worker_step Receives s =
     (case workChan (queue s) of
        t # ts \<Rightarrow> Some (Runs t, s\<lparr>queue := (queue s)\<lparr>workChan := ts\<rparr>, started := started s @ [t]\<rparr>)
      | [] \<Rightarrow> if chanClosed (queue s) then Some (Exited, s\<lparr>queue := (queue s)\<lparr>wg := wg (queue s) - 1\<rparr>\<rparr>) else None)"
| "worker_step (Runs t) s = Some (Receives, s\<lparr>finished := finished s @ [t]\<rparr>)"
| "worker_step Exited s = None"

inductive wq_step :: "wq_system \<Rightarrow> wq_system \<Rightarrow> bool" where
  caller: "\<not> crashed s \<Longrightarrow> i < length (callers s) \<Longrightarrow> caller_step (callers s ! i) s = Some (p, t) \<Longrightarrow>
     wq_step s (t\<lparr>callers := (callers t)[i := p]\<rparr>)"
| closer: "\<not> crashed s \<Longrightarrow> i < length (closers s) \<Longrightarrow> closer_step (closers s ! i) s = Some (p, t) \<Longrightarrow>
     wq_step s (t\<lparr>closers := (closers t)[i := p]\<rparr>)"
| worker: "\<not> crashed s \<Longrightarrow> i < length (workers s) \<Longrightarrow> worker_step (workers s ! i) s = Some (p, t) \<Longrightarrow>
     wq_step s (t\<lparr>workers := (workers t)[i := p]\<rparr>)"

inductive wq_reachable :: "int \<Rightarrow> task list \<Rightarrow> nat \<Rightarrow> wq_system \<Rightarrow> bool" for n ts c where
  start: "wq_reachable n ts c (wq_start n ts c)"
| step: "wq_reachable n ts c s \<Longrightarrow> wq_step s t \<Longrightarrow> wq_reachable n ts c t"

definition quiet :: "wq_system \<Rightarrow> bool" where
  "quiet s \<longleftrightarrow> \<not> (\<exists>t. wq_step s t)"

section \<open>Every run ends\<close>

fun caller_left :: "caller \<Rightarrow> nat" where
  "caller_left (Submits t) = 5"
| "caller_left (Checked t) = 4"
| "caller_left (Submitted b) = 0"

fun closer_left :: "closer \<Rightarrow> nat" where
  "closer_left Closes = 3"
| "closer_left FlagSet = 2"
| "closer_left WaitsAll = 1"
| "closer_left Closed = 0"

fun worker_left :: "worker \<Rightarrow> nat" where
  "worker_left Receives = 1"
| "worker_left (Runs t) = 2"
| "worker_left Exited = 0"

definition wq_left :: "wq_system \<Rightarrow> nat" where
  "wq_left s = sum_list (map caller_left (callers s)) + sum_list (map closer_left (closers s)) +
     sum_list (map worker_left (workers s)) + 2 * length (workChan (queue s)) + (if crashed s then 0 else 1)"

lemma wq_step_left:
  assumes "wq_step s t"
  shows "wq_left t < wq_left s"
  using assms
proof cases
  case (caller i p u)
  then show ?thesis
    using sum_update [OF caller(3), of caller_left p]
    by (cases "callers s ! i") (auto simp: wq_left_def try_send_def split: if_splits)
next
  case (closer i p u)
  then show ?thesis
    using sum_update [OF closer(3), of closer_left p]
    by (cases "closers s ! i") (auto simp: wq_left_def split: if_splits)
next
  case (worker i p u)
  then show ?thesis
    using sum_update [OF worker(3), of worker_left p]
    by (cases "workers s ! i") (auto simp: wq_left_def split: if_splits list.splits)
qed


section \<open>Nothing is lost\<close>

fun held :: "worker \<Rightarrow> task list" where
  "held (Runs t) = [t]"
| "held Receives = []"
| "held Exited = []"

definition running :: "wq_system \<Rightarrow> task list" where
  "running s = concat (map held (workers s))"

definition wq_inv :: "wq_system \<Rightarrow> bool" where
  "wq_inv s \<longleftrightarrow>
     accepted s = started s @ workChan (queue s) \<and>
     mset (started s) = mset (finished s) + mset (running s) \<and>
     length (accepted s) = length (filter (\<lambda>c. c = Submitted True) (callers s)) \<and>
     length (workChan (queue s)) \<le> chanCap (queue s) \<and>
     workers s \<noteq> [] \<and> wg (queue s) = length (filter (\<lambda>w. w \<noteq> Exited) (workers s)) \<and>
     (Exited \<in> set (workers s) \<longrightarrow> chanClosed (queue s) \<and> workChan (queue s) = []) \<and>
     length (filter (\<lambda>c. c = FlagSet) (closers s)) = (if wqClosed (queue s) \<and> \<not> chanClosed (queue s) then 1 else 0) \<and>
     (chanClosed (queue s) \<longrightarrow> wqClosed (queue s)) \<and>
     (WaitsAll \<in> set (closers s) \<longrightarrow> chanClosed (queue s)) \<and>
     (Closed \<in> set (closers s) \<longrightarrow> wqClosed (queue s))"

lemma wq_start_inv: "wq_inv (wq_start n ts c)"
proof -
  have "filter (\<lambda>c. c = Submitted True) (map Submits ts) = []" by (simp add: filter_empty_conv)
  moreover have "concat (map held (replicate k Receives)) = []" for k by (simp add: map_replicate_const)
  ultimately show ?thesis by (simp add: wq_inv_def wq_start_def NewWorkQueue_def running_def Let_def)
qed

lemma mset_held_update:
  assumes "i < length xs"
  shows "mset (concat (map held (xs[i := x]))) + mset (held (xs ! i)) = mset (concat (map held xs)) + mset (held x)"
proof -
  have "xs = take i xs @ xs ! i # drop (Suc i) xs" using assms by (simp add: id_take_nth_drop)
  then have "mset (concat (map held xs)) = mset (concat (map held (take i xs @ xs ! i # drop (Suc i) xs)))" by simp
  moreover have "mset (concat (map held (xs[i := x]))) = mset (concat (map held (take i xs @ x # drop (Suc i) xs)))"
    using assms by (simp add: upd_conv_take_nth_drop)
  ultimately show ?thesis by simp
qed

lemma caller_keeps:
  assumes "wq_inv s" "i < length (callers s)" "caller_step (callers s ! i) s = Some (p, t)"
  shows "wq_inv (t\<lparr>callers := (callers t)[i := p]\<rparr>)"
proof -
  note c = filter_update [OF assms(2), of "\<lambda>c. c = Submitted True" p]
  show ?thesis
  proof (cases "callers s ! i")
    case (Submits a)
    then have "t = s" "p \<noteq> Submitted True" using assms(3) by (auto split: if_splits)
    then show ?thesis using assms(1) c Submits by (auto simp: wq_inv_def running_def)
  next
    case (Checked a)
    then consider "t = s\<lparr>queue := queue s, crashed := True\<rparr>" "p = Submitted False"
      | "t = s\<lparr>queue := queue s\<rparr>" "p = Submitted False"
      | "\<not> chanClosed (queue s)" "length (workChan (queue s)) < chanCap (queue s)" "p = Submitted True"
        "t = s\<lparr>queue := (queue s)\<lparr>workChan := workChan (queue s) @ [a]\<rparr>, accepted := accepted s @ [a]\<rparr>"
      using assms(3) by (auto simp: try_send_def split: if_splits)
    then show ?thesis using assms(1) c Checked by cases (auto simp: wq_inv_def running_def)
  next
    case (Submitted b)
    then show ?thesis using assms(3) by simp
  qed
qed

lemma closer_keeps:
  assumes "wq_inv s" "i < length (closers s)" "closer_step (closers s ! i) s = Some (p, t)"
  shows "wq_inv (t\<lparr>closers := (closers t)[i := p]\<rparr>) \<and> crashed t = crashed s"
proof -
  note c = filter_update [OF assms(2), of "\<lambda>c. c = FlagSet" p]
  have x: "y = p \<or> y \<in> set (closers s)" if "y \<in> set ((closers s)[i := p])" for y using set_update [OF that] .
  have m: "closers s ! i \<in> set (closers s)" by (rule nth_mem [OF assms(2)])
  have cl: "chanClosed (queue s) \<Longrightarrow> wqClosed (queue s)" using assms(1) by (simp add: wq_inv_def)
  show ?thesis
  proof (cases "closers s ! i")
    case Closes
    then consider "wqClosed (queue s)" "p = Closed" "t = s"
      | "\<not> wqClosed (queue s)" "p = FlagSet" "t = s\<lparr>queue := (queue s)\<lparr>wqClosed := True\<rparr>\<rparr>"
      using assms(3) by (auto split: if_splits)
    then show ?thesis using assms(1) c x Closes cl by cases (auto simp: wq_inv_def running_def)
  next
    case FlagSet
    then have "wqClosed (queue s) \<and> \<not> chanClosed (queue s)"
      using assms(1) m by (auto simp: wq_inv_def filter_empty_conv split: if_splits)
    moreover from this have "p = WaitsAll" "t = s\<lparr>queue := (queue s)\<lparr>chanClosed := True\<rparr>\<rparr>"
      using assms(3) FlagSet by auto
    ultimately show ?thesis using assms(1) c x FlagSet by (auto simp: wq_inv_def running_def)
  next
    case WaitsAll
    then have "chanClosed (queue s)" using assms(1) m by (simp add: wq_inv_def)
    moreover have "p = Closed" "t = s" using assms(3) WaitsAll by (auto split: if_splits)
    ultimately show ?thesis using assms(1) c x WaitsAll cl by (auto simp: wq_inv_def running_def)
  next
    case Closed
    then show ?thesis using assms(3) by simp
  qed
qed

lemma worker_keeps:
  assumes "wq_inv s" "i < length (workers s)" "worker_step (workers s ! i) s = Some (p, t)"
  shows "wq_inv (t\<lparr>workers := (workers t)[i := p]\<rparr>)"
proof -
  note c = filter_update [OF assms(2), of "\<lambda>w. w \<noteq> Exited" p] mset_held_update [OF assms(2), of p]
  have x: "Exited \<in> set ((workers s)[i := p]) \<Longrightarrow> p = Exited \<or> Exited \<in> set (workers s)" by (auto dest: set_update)
  show ?thesis
  proof (cases "workers s ! i")
    case Receives
    show ?thesis
    proof (cases "workChan (queue s)")
      case Nil
      then have "p = Exited" "t = s\<lparr>queue := (queue s)\<lparr>wg := wg (queue s) - 1\<rparr>\<rparr>" "chanClosed (queue s)"
        using assms(3) Receives by (auto split: if_splits)
      then show ?thesis using assms(1) c Receives Nil by (auto simp: wq_inv_def running_def)
    next
      case (Cons a ts)
      then have "p = Runs a" "t = s\<lparr>queue := (queue s)\<lparr>workChan := ts\<rparr>, started := started s @ [a]\<rparr>"
        using assms(3) Receives by auto
      then show ?thesis using assms(1) c x Receives Cons by (auto simp: wq_inv_def running_def)
    qed
  next
    case (Runs a)
    then have "p = Receives" "t = s\<lparr>finished := finished s @ [a]\<rparr>" using assms(3) by auto
    then show ?thesis using assms(1) c x Runs by (auto simp: wq_inv_def running_def)
  next
    case Exited
    then show ?thesis using assms(3) by simp
  qed
qed

lemma wq_step_inv: "wq_step s t \<Longrightarrow> wq_inv s \<Longrightarrow> wq_inv t"
  by (induction rule: wq_step.induct) (blast intro: caller_keeps worker_keeps dest: closer_keeps)+

lemma wq_reachable_inv: "wq_reachable n ts c s \<Longrightarrow> wq_inv s"
  by (induction rule: wq_reachable.induct) (auto intro: wq_start_inv wq_step_inv)


section \<open>What is left when nothing moves\<close>

lemma quietD:
  assumes "quiet s" "\<not> crashed s"
  shows "i < length (callers s) \<Longrightarrow> caller_step (callers s ! i) s = None"
    "i < length (closers s) \<Longrightarrow> closer_step (closers s ! i) s = None"
    "i < length (workers s) \<Longrightarrow> worker_step (workers s ! i) s = None"
  using assms wq_step.intros unfolding quiet_def by (metis not_None_eq prod.exhaust)+

lemma quiet_callers:
  assumes "quiet s" "\<not> crashed s" "c \<in> set (callers s)"
  shows "\<exists>b. c = Submitted b"
proof -
  obtain i where i: "i < length (callers s)" "c = callers s ! i" using assms(3) by (auto simp: in_set_conv_nth)
  then have "caller_step c s = None" using quietD(1) [OF assms(1,2) i(1)] by simp
  then show ?thesis by (cases c) (auto simp: try_send_def split: if_splits)
qed

lemma quiet_workers:
  assumes "quiet s" "\<not> crashed s" "w \<in> set (workers s)"
  shows "w = Exited \<or> w = Receives \<and> workChan (queue s) = [] \<and> \<not> chanClosed (queue s)"
proof -
  obtain i where i: "i < length (workers s)" "w = workers s ! i" using assms(3) by (auto simp: in_set_conv_nth)
  then have "worker_step w s = None" using quietD(3) [OF assms(1,2) i(1)] by simp
  then show ?thesis by (cases w) (auto split: if_splits list.splits)
qed

lemma quiet_finished:
  assumes "wq_inv s" "quiet s" "\<not> crashed s"
  shows "mset (finished s) = mset (accepted s) \<and> workChan (queue s) = []"
proof -
  have "held w = []" if "w \<in> set (workers s)" for w
    using quiet_workers [OF assms(2,3) that] by auto
  then have "running s = []" by (simp add: running_def)
  moreover have "workChan (queue s) = []"
    using assms(1) quiet_workers [OF assms(2,3)] unfolding wq_inv_def by (metis list.set_sel(1))
  ultimately show ?thesis using assms(1) by (simp add: wq_inv_def)
qed

lemma quiet_closers:
  assumes "wq_inv s" "quiet s" "\<not> crashed s" "closers s \<noteq> []" "c \<in> set (closers s)"
  shows "c = Closed \<and> set (workers s) = {Exited}"
proof -
  have cl: "c = Closed \<or> c = WaitsAll \<and> wg (queue s) \<noteq> 0" if "c \<in> set (closers s)" for c
  proof -
    note h = that
    obtain i where i: "i < length (closers s)" "c = closers s ! i" using h by (auto simp: in_set_conv_nth)
    then have "closer_step c s = None" using quietD(2) [OF assms(2,3) i(1)] by simp
    then show ?thesis by (cases c) (auto split: if_splits)
  qed
  have "wqClosed (queue s)" using assms(1) cl [OF assms(5)] assms(5) by (auto simp: wq_inv_def)
  moreover have "filter (\<lambda>c. c = FlagSet) (closers s) = []" using cl by (auto simp: filter_empty_conv)
  ultimately have "chanClosed (queue s)" using assms(1) by (auto simp: wq_inv_def filter_empty_conv split: if_splits)
  then have w: "w = Exited" if "w \<in> set (workers s)" for w using quiet_workers [OF assms(2,3) that] by blast
  have "workers s \<noteq> []" using assms(1) by (simp add: wq_inv_def)
  then have "set (workers s) = {Exited}" using w by (metis list.set_sel(1) subset_singletonD subsetI singletonI set_empty2)
  moreover have "wg (queue s) = 0" using assms(1) w by (simp add: wq_inv_def filter_empty_conv)
  ultimately show ?thesis using cl [OF assms(5)] by blast
qed

text \<open>The relation between states and their successors is well-founded: no schedule goes on for ever.\<close>

lemma wq_wf: "wf {(t, s). wq_step s t}"
  by (rule wf_subset [OF wf_measure [of wq_left]]) (auto dest: wq_step_left)

end
