(* ===== verification/Pools.thy ===== *)
theory Pools
  imports EntryFormat
begin

unbundle bit_operations_syntax

text \<open>
  \<open>pool.go\<close>: the object pools and the alignment helper. A \<open>sync.Pool\<close> is the list of the objects that
  were given back; \<open>Get\<close> hands out any of them or a new one, so the choice is an argument. An object that
  its user keeps after giving it back is not modelled.
\<close>

section \<open>\<open>sync.Pool\<close>\<close>

type_synonym 'a sync_pool = "'a list"

definition sp_Get :: "nat option \<Rightarrow> 'a \<Rightarrow> 'a sync_pool \<Rightarrow> 'a \<times> 'a sync_pool" where
  "sp_Get pick new p =
     (case pick of
        None \<Rightarrow> (new, p)
      | Some i \<Rightarrow> if i < length p then (p ! i, take i p @ drop (Suc i) p) else (new, p))"

definition sp_Put :: "'a \<Rightarrow> 'a sync_pool \<Rightarrow> 'a sync_pool" where
  "sp_Put x p = x # p"

text \<open>
  What a pool with a filter or a reset promises: the objects in it satisfy what a new one satisfies, so
  every object handed out does.
\<close>

locale clean_pool =
  fixes new :: 'a
    and put :: "'a \<Rightarrow> 'a sync_pool \<Rightarrow> 'a sync_pool"
    and clean :: "'a \<Rightarrow> bool"
  assumes new_clean: "clean new"
    and put_clean: "list_all clean p \<Longrightarrow> list_all clean (put x p)"
begin

definition used :: "('a + nat option) list \<Rightarrow> 'a sync_pool \<Rightarrow> 'a sync_pool" where
  "used = fold (\<lambda>op p. case op of Inl x \<Rightarrow> put x p | Inr pick \<Rightarrow> snd (sp_Get pick new p))"

lemma get_clean:
  assumes "list_all clean p"
  shows "clean (fst (sp_Get pick new p)) \<and> list_all clean (snd (sp_Get pick new p))"
  using assms new_clean
  by (auto simp: sp_Get_def list_all_iff dest: in_set_takeD in_set_dropD split: option.split)

lemma used_clean: "list_all clean p \<Longrightarrow> list_all clean (used ops p)"
  unfolding used_def by (induction ops arbitrary: p) (auto simp: get_clean put_clean split: sum.split)

lemma always_clean: "clean (fst (sp_Get pick new (used ops [])))"
  by (simp add: get_clean used_clean)

end

section \<open>Buffers of one size\<close>

record BufferPool =
  bpPool :: "bytes sync_pool"
  bpSize :: nat

definition NewBufferPool :: "nat \<Rightarrow> BufferPool" where
  "NewBufferPool sz = \<lparr>bpPool = [], bpSize = sz\<rparr>"

definition bp_Get :: "nat option \<Rightarrow> BufferPool \<Rightarrow> bytes \<times> BufferPool" where
  "bp_Get pick bp = (let (b, p) = sp_Get pick (replicate (bpSize bp) 0) (bpPool bp) in (b, bp\<lparr>bpPool := p\<rparr>))"

definition put_sized :: "nat \<Rightarrow> bytes \<Rightarrow> bytes sync_pool \<Rightarrow> bytes sync_pool" where
  "put_sized n buf p = (if length buf = n then sp_Put buf p else p)"

definition bp_Put :: "bytes \<Rightarrow> BufferPool \<Rightarrow> BufferPool" where
  "bp_Put buf bp = bp\<lparr>bpPool := put_sized (bpSize bp) buf (bpPool bp)\<rparr>"

interpretation sized: clean_pool "replicate n 0" "put_sized n" "\<lambda>b. length b = n" for n
  by unfold_locales (simp_all add: put_sized_def sp_Put_def)

section \<open>Size classes\<close>

record AdaptiveBufferPool =
  abPools :: "BufferPool list"
  abSizes :: "nat list"

definition NewAdaptiveBufferPool :: AdaptiveBufferPool where
  "NewAdaptiveBufferPool =
     (let sizes = [1024, 4096, 16384, 65536, 262144, 1048576]
      in \<lparr>abPools = map NewBufferPool sizes, abSizes = sizes\<rparr>)"

text \<open>The loop over the sizes: the index of the first class that is large enough.\<close>

fun first_class :: "int \<Rightarrow> nat list \<Rightarrow> nat option" where
  "first_class n [] = None"
| "first_class n (s # ss) = (if n \<le> int s then Some 0 else map_option Suc (first_class n ss))"

definition GetBuffer :: "nat option \<Rightarrow> int \<Rightarrow> AdaptiveBufferPool \<Rightarrow> bytes \<times> AdaptiveBufferPool" where
  "GetBuffer pick n ap =
     (case first_class n (abSizes ap) of
        Some i \<Rightarrow> let (b, bp) = bp_Get pick (abPools ap ! i) in (b, ap\<lparr>abPools := (abPools ap)[i := bp]\<rparr>)
      | None \<Rightarrow> (replicate (nat n) 0, ap))"

definition PutBuffer :: "bytes \<Rightarrow> AdaptiveBufferPool \<Rightarrow> AdaptiveBufferPool" where
  "PutBuffer buf ap =
     (case first_class (int (length buf)) (abSizes ap) of
        Some i \<Rightarrow> ap\<lparr>abPools := (abPools ap)[i := bp_Put buf (abPools ap ! i)]\<rparr>
      | None \<Rightarrow> ap)"

definition pools_agree :: "AdaptiveBufferPool \<Rightarrow> bool" where
  "pools_agree ap \<longleftrightarrow> map bpSize (abPools ap) = abSizes ap \<and>
     (\<forall>bp \<in> set (abPools ap). list_all (\<lambda>b. length b = bpSize bp) (bpPool bp))"

definition adaptive_inv :: "AdaptiveBufferPool \<Rightarrow> bool" where
  "adaptive_inv ap \<longleftrightarrow> abSizes ap = [1024, 4096, 16384, 65536, 262144, 1048576] \<and> pools_agree ap"

text \<open>Any use of the pool: requests and buffers of any length given back.\<close>

definition pool_used :: "(bytes + nat option \<times> int) list \<Rightarrow> AdaptiveBufferPool \<Rightarrow> AdaptiveBufferPool" where
  "pool_used = fold (\<lambda>op ap. case op of Inl buf \<Rightarrow> PutBuffer buf ap | Inr (pick, n) \<Rightarrow> snd (GetBuffer pick n ap))"

lemma adaptive_new: "adaptive_inv NewAdaptiveBufferPool"
  by (simp add: adaptive_inv_def pools_agree_def NewAdaptiveBufferPool_def NewBufferPool_def)

lemma first_class_bound:
  "first_class n ss = Some i \<Longrightarrow> i < length ss \<and> n \<le> int (ss ! i) \<and> (\<forall>j < i. int (ss ! j) < n)"
proof (induction ss arbitrary: i)
  case (Cons s ss)
  then show ?case by (cases i) (auto split: if_splits simp: less_Suc_eq_0_disj)
qed simp

lemma first_class_none: "first_class n ss = None \<Longrightarrow> s \<in> set ss \<Longrightarrow> int s < n"
  by (induction ss) (auto split: if_splits)

lemma adaptive_pool:
  assumes "pools_agree ap" "i < length (abSizes ap)"
  shows "i < length (abPools ap)" "bpSize (abPools ap ! i) = abSizes ap ! i"
    "list_all (\<lambda>b. length b = abSizes ap ! i) (bpPool (abPools ap ! i))"
proof -
  have m: "map bpSize (abPools ap) = abSizes ap" using assms(1) by (simp add: pools_agree_def)
  then show i: "i < length (abPools ap)" using assms(2) by (metis length_map)
  then show s: "bpSize (abPools ap ! i) = abSizes ap ! i" by (simp flip: m)
  show "list_all (\<lambda>b. length b = abSizes ap ! i) (bpPool (abPools ap ! i))"
    using assms(1) nth_mem [OF i] unfolding pools_agree_def s [symmetric] by blast
qed

lemma adaptive_update:
  assumes "pools_agree ap" "i < length (abSizes ap)" "bpSize bp = abSizes ap ! i"
    "list_all (\<lambda>b. length b = abSizes ap ! i) (bpPool bp)"
  shows "pools_agree (ap\<lparr>abPools := (abPools ap)[i := bp]\<rparr>)"
proof -
  have "map bpSize ((abPools ap)[i := bp]) = abSizes ap"
    using assms(1,3) by (simp add: map_update pools_agree_def)
  moreover have "list_all (\<lambda>b. length b = bpSize q) (bpPool q)" if "q \<in> set ((abPools ap)[i := bp])" for q
    using assms that set_update_subset_insert [of "abPools ap" i bp] by (auto simp: pools_agree_def)
  ultimately show ?thesis by (simp add: pools_agree_def)
qed

lemma GetBuffer_keeps:
  assumes "pools_agree ap" "GetBuffer pick n ap = (b, ap')"
  shows "pools_agree ap' \<and>
    (case first_class n (abSizes ap) of Some i \<Rightarrow> length b = abSizes ap ! i | None \<Rightarrow> length b = nat n)"
proof (cases "first_class n (abSizes ap)")
  case (Some i)
  then have i: "i < length (abSizes ap)" using first_class_bound by blast
  note p = adaptive_pool [OF assms(1) i]
  obtain c q where g: "sp_Get pick (replicate (abSizes ap ! i) 0) (bpPool (abPools ap ! i)) = (c, q)" by (rule prod.exhaust)
  then have c: "length c = abSizes ap ! i" "list_all (\<lambda>b. length b = abSizes ap ! i) q"
    using sized.get_clean [OF p(3), of pick] by simp_all
  have "b = c" "ap' = ap\<lparr>abPools := (abPools ap)[i := (abPools ap ! i)\<lparr>bpPool := q\<rparr>]\<rparr>"
    using assms(2) Some p(2) g by (auto simp: GetBuffer_def bp_Get_def)
  then show ?thesis
    using adaptive_update [OF assms(1) i, of "(abPools ap ! i)\<lparr>bpPool := q\<rparr>"] c p(2) Some by simp
qed (use assms in \<open>auto simp: GetBuffer_def\<close>)

lemma PutBuffer_keeps: "pools_agree ap \<Longrightarrow> pools_agree (PutBuffer buf ap)"
proof (cases "first_class (int (length buf)) (abSizes ap)")
  case (Some i)
  assume a: "pools_agree ap"
  have i: "i < length (abSizes ap)" using Some first_class_bound by blast
  note p = adaptive_pool [OF a i]
  show ?thesis
    using adaptive_update [OF a i, of "bp_Put buf (abPools ap ! i)"] p sized.put_clean [OF p(3), of buf] Some
    by (simp add: PutBuffer_def bp_Put_def)
qed (simp add: PutBuffer_def)

lemma pool_used_agrees: "pools_agree ap \<Longrightarrow> pools_agree (pool_used ops ap)"
  unfolding pool_used_def
proof (induction ops arbitrary: ap)
  case (Cons op ops)
  have "pools_agree (case op of Inl buf \<Rightarrow> PutBuffer buf ap | Inr (pick, n) \<Rightarrow> snd (GetBuffer pick n ap))"
    using PutBuffer_keeps [OF Cons.prems] GetBuffer_keeps [OF Cons.prems]
    by (auto split: sum.split prod.split) (metis prod.collapse)
  then show ?case by (simp add: Cons.IH)
qed simp

text \<open>The classes grow by four, so a pooled buffer is less than four times what was asked for.\<close>

lemma GetBuffer_size:
  assumes "adaptive_inv ap" "GetBuffer pick n ap = (b, ap')"
  shows "n \<le> int (length b) \<and> (1024 < n \<longrightarrow> int (length b) < 4 * n) \<and> (n \<le> 1024 \<longrightarrow> length b = 1024) \<and>
    (1048576 < n \<longrightarrow> int (length b) = n)"
proof -
  have s: "abSizes ap = [1024, 4096, 16384, 65536, 262144, 1048576]" "pools_agree ap" using assms(1) by (simp_all add: adaptive_inv_def)
  show ?thesis
    using GetBuffer_keeps [OF s(2) assms(2)] unfolding s(1) by (auto split: if_splits)
qed


lemma pool_used_inv: "adaptive_inv (pool_used ops NewAdaptiveBufferPool)"
proof -
  have "abSizes (pool_used ops ap) = abSizes ap" for ap
    unfolding pool_used_def
    by (induction ops arbitrary: ap)
      (simp_all add: PutBuffer_def GetBuffer_def Let_def split: sum.split prod.split option.split)
  then show ?thesis
    using adaptive_new pool_used_agrees [of NewAdaptiveBufferPool ops] by (simp add: adaptive_inv_def)
qed

section \<open>Pools of structs\<close>

text \<open>The fields are cleared when the struct is given back; the checksum calculator has no state.\<close>

definition zero_entry :: Entry where
  "zero_entry = \<lparr>eCRC = 0, eTimestamp = 0, eTTL = 0, eKeySize = 0, eValueSize = 0, eCompression = 0, eKey = [], eValue = []\<rparr>"

definition zero_keydir :: KeyDir where
  "zero_keydir = \<lparr>FileID = 0, ValueSize = 0, ValuePos = 0, Timestamp = 0, TTL = 0, Compression = 0, Deleted = False\<rparr>"

definition PutEntry :: "Entry \<Rightarrow> Entry sync_pool \<Rightarrow> Entry sync_pool" where
  "PutEntry e p = sp_Put (e\<lparr>eKey := [], eValue := [], eTimestamp := 0, eTTL := 0, eKeySize := 0, eValueSize := 0,
     eCompression := 0, eCRC := 0\<rparr>) p"

definition GetEntry :: "nat option \<Rightarrow> Entry sync_pool \<Rightarrow> Entry \<times> Entry sync_pool" where
  "GetEntry pick p = sp_Get pick zero_entry p"

definition PutKeyDir :: "KeyDir \<Rightarrow> KeyDir sync_pool \<Rightarrow> KeyDir sync_pool" where
  "PutKeyDir kd p = sp_Put (kd\<lparr>FileID := 0, ValueSize := 0, ValuePos := 0, Timestamp := 0, TTL := 0,
     Compression := 0, Deleted := False\<rparr>) p"

definition GetPooledKeyDir :: "nat option \<Rightarrow> KeyDir sync_pool \<Rightarrow> KeyDir \<times> KeyDir sync_pool" where
  "GetPooledKeyDir pick p = sp_Get pick zero_keydir p"

definition PutString :: "bytes \<Rightarrow> bytes sync_pool \<Rightarrow> bytes sync_pool" where
  "PutString s p = sp_Put [] p"

definition GetString :: "nat option \<Rightarrow> bytes sync_pool \<Rightarrow> bytes \<times> bytes sync_pool" where
  "GetString pick p = sp_Get pick [] p"

text \<open>A serialisation buffer is cut to length zero and keeps its memory, which the length hides.\<close>

definition PutSerBuffer :: "bytes \<Rightarrow> bytes sync_pool \<Rightarrow> bytes sync_pool" where
  "PutSerBuffer buf p = sp_Put (take 0 buf) p"

definition GetSerBuffer :: "nat option \<Rightarrow> bytes sync_pool \<Rightarrow> bytes \<times> bytes sync_pool" where
  "GetSerBuffer pick p = sp_Get pick [] p"

interpretation entries: clean_pool zero_entry PutEntry "\<lambda>e. e = zero_entry"
  by unfold_locales (simp_all add: PutEntry_def sp_Put_def zero_entry_def)

interpretation keydirs: clean_pool zero_keydir PutKeyDir "\<lambda>kd. kd = zero_keydir"
  by unfold_locales (simp_all add: PutKeyDir_def sp_Put_def zero_keydir_def)

interpretation strings: clean_pool "[]" PutString "\<lambda>s. s = []"
  by unfold_locales (simp_all add: PutString_def sp_Put_def)

interpretation serbufs: clean_pool "[]" PutSerBuffer "\<lambda>s. s = []"
  by unfold_locales (simp_all add: PutSerBuffer_def sp_Put_def)

text \<open>An entry taken from the pool is always the zero entry, whatever was put into it before.\<close>

lemma pooled_entry_zero: "fst (GetEntry pick (entries.used ops [])) = zero_entry"
  unfolding GetEntry_def by (rule entries.always_clean)

section \<open>Alignment\<close>

definition MemoryAlign :: "64 word \<Rightarrow> 64 word" where
  "MemoryAlign sz = (sz + 64 - 1) AND NOT (64 - 1)"

text \<open>\<open>make\<close> panics on a negative length.\<close>

definition AlignedBuffer :: "64 word \<Rightarrow> bytes outcome" where
  "AlignedBuffer sz = (let n = sint (MemoryAlign sz) in if n < 0 then Panic else Ok (replicate (nat n) 0))"

lemma align_nat: "unat ((x :: 64 word) AND NOT 63) = unat x div 64 * 64"
proof -
  have m: "(63 :: 64 word) = mask 6" by (simp add: mask_eq_exp_minus_1)
  have "(x AND NOT 63) + (x AND 63) = (x AND NOT 63) OR (x AND 63)"
    by (rule disjunctive_add_eq_or) (simp only: m, rule bit_word_eqI, auto simp: bit_simps)
  also have "\<dots> = x" unfolding m by (rule bit_word_eqI) (auto simp: bit_simps)
  finally have "x AND NOT 63 = x - (x AND 63)" by (simp add: eq_diff_eq)
  moreover have "unat (x AND 63) = unat x mod 64"
    unfolding m by (simp only: take_bit_eq_mask [symmetric] unsigned_take_bit_eq) (simp add: take_bit_eq_mod)
  moreover have "x AND 63 \<le> x" by (rule word_and_le2)
  ultimately show ?thesis by (simp add: unat_sub minus_mod_eq_div_mult)
qed

lemma MemoryAlign_value:
  assumes "unat sz + 63 < 2 ^ 64"
  shows "unat (MemoryAlign sz) = (unat sz + 63) div 64 * 64"
proof -
  have "unat (sz + 63) = unat sz + 63" using assms by (simp add: unat_word_ariths)
  moreover have "MemoryAlign sz = (sz + 63) AND NOT 63"
  proof -
    have "sz + 64 - 1 = sz + 63" "(64 - 1 :: 64 word) = 63" by simp_all
    then show ?thesis by (simp only: MemoryAlign_def)
  qed
  ultimately show ?thesis using align_nat [of "sz + 63"] by simp
qed

lemma AlignedBuffer_size:
  assumes "unat sz < 2 ^ 63"
  shows "if unat sz \<le> 2 ^ 63 - 64
    then \<exists>b. AlignedBuffer sz = Ok b \<and> 64 dvd length b \<and> unat sz \<le> length b \<and> length b < unat sz + 64
    else AlignedBuffer sz = Panic"
proof -
  let ?m = "MemoryAlign sz"
  have u: "unat ?m = (unat sz + 63) div 64 * 64" by (rule MemoryAlign_value) (use assms in simp)
  show ?thesis
  proof (cases "unat sz \<le> 2 ^ 63 - 64")
    case True
    then have m: "unat ?m < 2 ^ 63" unfolding u by simp
    then have s: "sint ?m = int (unat ?m)" by (rule sint_small)
    have "unat sz \<le> unat ?m" "unat ?m < unat sz + 64" "64 dvd unat ?m" unfolding u by (linarith, linarith, simp)
    then show ?thesis using True s by (simp add: AlignedBuffer_def Let_def)
  next
    case False
    then have "unat ?m = 2 ^ 63" using assms unfolding u by simp
    then have "?m = 2 ^ 63" by (simp add: word_unat_eq_iff)
    then show ?thesis using False by (simp add: AlignedBuffer_def)
  qed
qed

end
