(* ===== verification/Texts.thy ===== *)
theory Texts
  imports Engine
begin

unbundle bit_operations_syntax

text \<open>
  The formatting helpers of \<open>utils.go\<close> and \<open>db.go\<close>: sizes, numbers and durations with a unit, the
  display width of a text with escape sequences, and the layout of boxes and tables. A number that Go
  prints with one decimal is kept as the exact fraction. Texts outside ASCII are given by code points.
\<close>

section \<open>UTF-8\<close>

text \<open>\<open>unicode/utf8\<close>: encoding a code point, and the first code point of a string with its length; for
  bytes that are no UTF-8 the replacement character and length 1.\<close>

definition encode_rune :: "nat \<Rightarrow> bytes" where
  "encode_rune r =
     (if r < 0x80 then [of_nat r]
      else if r < 0x800 then [of_nat (0xC0 + r div 64), of_nat (0x80 + r mod 64)]
      else if r < 0x10000 then
        [of_nat (0xE0 + r div 4096), of_nat (0x80 + r div 64 mod 64), of_nat (0x80 + r mod 64)]
      else [of_nat (0xF0 + r div 262144), of_nat (0x80 + r div 4096 mod 64),
            of_nat (0x80 + r div 64 mod 64), of_nat (0x80 + r mod 64)])"

definition go_text :: "nat list \<Rightarrow> bytes" where
  "go_text rs = concat (map encode_rune rs)"

definition RuneError :: nat where
  "RuneError = 0xFFFD"

definition byte_in :: "byte \<Rightarrow> nat \<Rightarrow> nat \<Rightarrow> bool" where
  "byte_in b lo hi \<longleftrightarrow> lo \<le> unat b \<and> unat b \<le> hi"

definition cont :: "byte \<Rightarrow> nat" where
  "cont b = unat b mod 64"

fun DecodeRune :: "bytes \<Rightarrow> nat \<times> nat" where
  "DecodeRune [] = (RuneError, 0)"
| "DecodeRune (b # bs) =
     (let n = unat b in
      if n < 0x80 then (n, 1)
      else case bs of
        [] \<Rightarrow> (RuneError, 1)
      | b1 # bs1 \<Rightarrow>
          if 0xC2 \<le> n \<and> n \<le> 0xDF then
            (if byte_in b1 0x80 0xBF then (n mod 32 * 64 + cont b1, 2) else (RuneError, 1))
          else if 0xE0 \<le> n \<and> n \<le> 0xEF then
            (case bs1 of
               b2 # _ \<Rightarrow>
                 if byte_in b1 (if n = 0xE0 then 0xA0 else 0x80) (if n = 0xED then 0x9F else 0xBF) \<and> byte_in b2 0x80 0xBF
                 then ((n mod 16 * 64 + cont b1) * 64 + cont b2, 3) else (RuneError, 1)
             | [] \<Rightarrow> (RuneError, 1))
          else if 0xF0 \<le> n \<and> n \<le> 0xF4 then
            (case bs1 of
               b2 # b3 # _ \<Rightarrow>
                 if byte_in b1 (if n = 0xF0 then 0x90 else 0x80) (if n = 0xF4 then 0x8F else 0xBF) \<and>
                    byte_in b2 0x80 0xBF \<and> byte_in b3 0x80 0xBF
                 then (((n mod 8 * 64 + cont b1) * 64 + cont b2) * 64 + cont b3, 4) else (RuneError, 1)
             | _ \<Rightarrow> (RuneError, 1))
          else (RuneError, 1))"

lemma DecodeRune_length: "s \<noteq> [] \<Longrightarrow> 1 \<le> snd (DecodeRune s)"
  by (cases s rule: DecodeRune.cases) (simp_all add: Let_def split: list.split)

section \<open>Display width\<close>

definition isEmoji :: "nat \<Rightarrow> bool" where
  "isEmoji r \<longleftrightarrow> 0x1F600 \<le> r \<and> r \<le> 0x1F64F \<or> 0x1F300 \<le> r \<and> r \<le> 0x1F5FF \<or>
     0x1F680 \<le> r \<and> r \<le> 0x1F6FF \<or> 0x1F1E6 \<le> r \<and> r \<le> 0x1F1FF"

definition isWideChar :: "nat \<Rightarrow> bool" where
  "isWideChar r \<longleftrightarrow> 0x4E00 \<le> r \<and> r \<le> 0x9FFF \<or> 0x3400 \<le> r \<and> r \<le> 0x4DBF \<or>
     0x3000 \<le> r \<and> r \<le> 0x303F \<or> 0xFF00 \<le> r \<and> r \<le> 0xFFEF"

definition getRuneWidth :: "nat \<Rightarrow> nat" where
  "getRuneWidth r = (if r < 0x80 then 1 else if isEmoji r then 2 else if isWideChar r then 2 else 1)"

text \<open>The loop of \<open>calculateRealLength\<close>, with the flag for being inside an escape sequence.\<close>

function real_length :: "bool \<Rightarrow> bytes \<Rightarrow> nat" where
  "real_length esc s =
     (if s = [] then 0
      else if 2 \<le> length s \<and> s ! 0 = 0x1b \<and> s ! 1 = 0x5b then real_length True (drop 2 s)
      else if esc then real_length (hd s \<noteq> 0x6d) (tl s)
      else let (r, n) = DecodeRune s
           in if r = RuneError then real_length False (tl s)
              else getRuneWidth r + real_length False (drop n s))"
  by pat_completeness auto
termination
proof (relation "measure (\<lambda>(esc, s). length s)", goal_cases)
  case (5 esc s x r n)
  then have "1 \<le> n" using DecodeRune_length [of s] by (metis snd_conv)
  then show ?case using 5(1) by (simp add: diff_less)
qed auto

declare real_length.simps [simp del]

definition calculateRealLength :: "bytes \<Rightarrow> nat" where
  "calculateRealLength s = real_length False s"


text \<open>A colour code takes no width; printable ASCII takes one column a character.\<close>

lemma real_length_colour:
  assumes "\<forall>b \<in> set ds. b \<noteq> 0x6d \<and> b \<noteq> 0x1b"
  shows "real_length esc ([0x1b, 0x5b] @ ds @ 0x6d # s) = real_length False s"
proof -
  have "real_length True (ds @ 0x6d # s) = real_length False s" using assms
    by (induction ds) (subst real_length.simps; simp)+
  then show ?thesis by (subst real_length.simps) simp
qed

lemma real_length_ascii:
  "\<forall>b \<in> set s. 0x20 \<le> b \<and> b < 0x7f \<Longrightarrow> real_length False s = length s"
proof (induction s)
  case (Cons b s)
  then have b: "0x20 \<le> unat b" "unat b < 0x7f" by (auto simp: word_le_nat_alt word_less_nat_alt)
  then have "b \<noteq> 0x1b" by auto
  moreover have "DecodeRune (b # s) = (unat b, 1)" using b by simp
  moreover have "getRuneWidth (unat b) = 1" "unat b \<noteq> RuneError" using b by (simp_all add: getRuneWidth_def RuneError_def)
  ultimately show ?case using Cons by (subst real_length.simps) simp
qed (simp add: real_length.simps)

section \<open>Sizes, numbers, durations\<close>

datatype amount = Plain int | Scaled int int string

function scale_size :: "int \<Rightarrow> int \<Rightarrow> nat \<Rightarrow> int \<times> nat" where
  "scale_size n dv e = (if n \<ge> 1024 then scale_size (n div 1024) (dv * 1024) (e + 1) else (dv, e))"
  by pat_completeness auto
termination
  by (relation "measure (\<lambda>(n, dv, e). nat n)") auto

declare scale_size.simps [simp del]

definition formatSize :: "int \<Rightarrow> amount outcome" where
  "formatSize n =
     (if n < 1024 then Ok (Plain n)
      else let (dv, e) = scale_size (n div 1024) 1024 0
           in if e < length ''KMGTPE'' then Ok (Scaled n dv [''KMGTPE'' ! e, CHR ''B'']) else Panic)"

lemma scale_size_div:
  assumes "0 < n" "0 < dv"
  shows "\<exists>j. scale_size n dv e = (dv * 1024 ^ j, e + j) \<and> 1024 ^ j \<le> n \<and> n < 1024 ^ (j + 1)"
  using assms
proof (induction n dv e rule: scale_size.induct)
  case (1 n dv e)
  show ?case
  proof (cases "n \<ge> 1024")
    case True
    then obtain j where j: "scale_size (n div 1024) (dv * 1024) (e + 1) = (dv * 1024 * 1024 ^ j, e + 1 + j)"
      "1024 ^ j \<le> n div 1024" "n div 1024 < 1024 ^ (j + 1)"
      using 1 by force
    have "1024 ^ Suc j \<le> n \<and> n < 1024 ^ (Suc j + 1)" using j(2,3) by simp linarith
    then show ?thesis using j(1) True
      by (intro exI [of _ "Suc j"]) (simp add: scale_size.simps [of n])
  qed (use 1 in \<open>auto simp: scale_size.simps intro!: exI [of _ 0]\<close>)
qed

text \<open>For every 64-bit size the letter exists and the number before it lies between 1 and 1024.\<close>

lemma formatSize_scaled:
  assumes "1024 \<le> n" "n < 2 ^ 63"
  shows "\<exists>e < 6. formatSize n = Ok (Scaled n (1024 ^ (e + 1)) [''KMGTPE'' ! e, CHR ''B'']) \<and>
    1024 ^ (e + 1) \<le> n \<and> n < 1024 * 1024 ^ (e + 1)"
proof -
  have p: "0 < n div 1024" using assms(1) by linarith
  obtain j where j: "scale_size (n div 1024) 1024 0 = (1024 * 1024 ^ j, j)" "1024 ^ j \<le> n div 1024"
    "n div 1024 < 1024 ^ (j + 1)"
    using scale_size_div [OF p, of 1024 0] by auto
  have "(1024 :: int) ^ j < 1024 ^ 6"
    using j(2) assms by simp
  then have "j < 6" by (rule power_less_imp_less_exp [rotated]) simp
  moreover have "1024 * 1024 ^ j \<le> n" "n < 1024 * (1024 * 1024 ^ j)" using j(2,3) by simp_all
  ultimately show ?thesis using assms(1) j(1)
    by (intro exI [of _ j]) (simp add: formatSize_def)
qed

definition formatNumber :: "int \<Rightarrow> amount" where
  "formatNumber n =
     (if n < 1000 then Plain n
      else if n < 1000000 then Scaled n 1000 ''K''
      else if n < 1000000000 then Scaled n 1000000 ''M''
      else Scaled n 1000000000 ''B'')"

text \<open>Nanoseconds; the units are the words for second, minute, hour and day.\<close>

definition formatDuration :: "int \<Rightarrow> int \<times> bytes" where
  "formatDuration d =
     (if d < 60 * 1000000000 then (1000000000, go_text [0x79D2])
      else if d < 3600 * 1000000000 then (60 * 1000000000, go_text [0x5206, 0x949F])
      else if d < 24 * 3600 * 1000000000 then (3600 * 1000000000, go_text [0x5C0F, 0x65F6])
      else (24 * 3600 * 1000000000, go_text [0x5929]))"

definition getBoolString :: "bool \<Rightarrow> bytes" where
  "getBoolString b =
     (if b then go_text [0x2705, 0x20, 0x542F, 0x7528] else go_text [0x274C, 0x20, 0x7981, 0x7528])"

definition getCompressionName :: "CompressionType \<Rightarrow> bytes" where
  "getCompressionName ct =
     (if ct = NoCompression then go_text [0x65E0, 0x538B, 0x7F29]
      else if ct = SnappyCompression then str ''Snappy''
      else if ct = ZSTDCompression then str ''ZSTD''
      else if ct = GzipCompression then str ''Gzip''
      else go_text [0x672A, 0x77E5])"

definition getOSName :: "string \<Rightarrow> string" where
  "getOSName goos =
     (if goos = ''windows'' then ''Windows'' else if goos = ''darwin'' then ''macOS''
      else if goos = ''linux'' then ''Linux'' else goos)"

definition getArchName :: "string \<Rightarrow> string" where
  "getArchName goarch =
     (if goarch = ''amd64'' then ''x64'' else if goarch = ''arm64'' then ''ARM64'' else goarch)"

section \<open>Boxes\<close>

text \<open>A printed line: a horizontal rule, or a text between two paddings inside the vertical borders.\<close>

datatype box_line = Rule nat | Row nat bytes nat

fun line_width :: "box_line \<Rightarrow> nat" where
  "line_width (Rule n) = n + 2"
| "line_width (Row l t r) = l + calculateRealLength t + r + 2"

text \<open>Loops that print blanks do nothing for a negative count. Go's division rounds towards zero.\<close>

definition printFancyBox :: "bytes \<Rightarrow> bytes list \<Rightarrow> int \<Rightarrow> box_line list" where
  "printFancyBox title content width0 =
     (let width = (if width0 < 50 then 50 else width0);
          pad = width - int (calculateRealLength title) - 2;
          left = (if pad < 0 then - (- pad div 2) else pad div 2);
          right = pad - left
      in [Rule (nat (width - 2)), Row (nat left) title (nat right), Rule (nat (width - 2))] @
         map (\<lambda>line. Row 1 line (nat (width - 2 - 1 - int (calculateRealLength line)))) content @
         [Rule (nat (width - 2))])"

text \<open>Every line of a box has its width when the texts fit between the borders.\<close>

lemma printFancyBox_width:
  assumes "50 \<le> w" "int (calculateRealLength title) \<le> w - 2" "\<forall>l \<in> set content. int (calculateRealLength l) \<le> w - 3"
    and "x \<in> set (printFancyBox title content w)"
  shows "int (line_width x) = w"
  using assms by (auto simp: printFancyBox_def Let_def)

section \<open>Tables\<close>

definition colour_codes :: "bytes list" where
  "colour_codes = map (\<lambda>c. [0x1b, 0x5b] @ str c @ [0x6d])
     [''0'', ''31'', ''32'', ''33'', ''34'', ''35'', ''36'', ''37'', ''1'', ''2'']"

function ReplaceAll :: "bytes \<Rightarrow> bytes \<Rightarrow> bytes" where
  "ReplaceAll code s =
     (if s = [] \<or> code = [] then s
      else if take (length code) s = code then ReplaceAll code (drop (length code) s)
      else hd s # ReplaceAll code (tl s))"
  by pat_completeness auto
termination
  by (relation "measure (\<lambda>(code, s). length s)") (auto simp: diff_less)

declare ReplaceAll.simps [simp del]

definition removeColorCodes :: "bytes \<Rightarrow> bytes" where
  "removeColorCodes s = fold ReplaceAll colour_codes s"

definition widen :: "bytes list \<Rightarrow> nat list \<Rightarrow> nat list" where
  "widen row ws = map (\<lambda>(i, w). if i < length row then max w (length (removeColorCodes (row ! i)) + 2) else w) (enumerate 0 ws)"

definition column_widths :: "bytes list \<Rightarrow> bytes list list \<Rightarrow> nat list" where
  "column_widths headers rows = fold widen rows (map (\<lambda>h. length h + 2) headers)"

text \<open>\<open>%-*s\<close> fills up to a number of code points, escape sequences included.\<close>

function rune_count :: "bytes \<Rightarrow> nat" where
  "rune_count s = (if s = [] then 0 else 1 + rune_count (drop (snd (DecodeRune s)) s))"
  by pat_completeness auto
termination
proof (relation "measure length", goal_cases)
  case (2 s)
  then show ?case using DecodeRune_length [of s] by (cases s) (simp_all add: diff_less)
qed simp

declare rune_count.simps [simp del]

definition pad_cell :: "nat \<Rightarrow> bytes \<Rightarrow> bytes" where
  "pad_cell w cell = cell @ replicate (w - rune_count cell) 0x20"

text \<open>The cells of the header line and of each row; the borders follow from the widths.\<close>

definition printAdvancedTable :: "bytes list \<Rightarrow> bytes list list \<Rightarrow> (nat list \<times> bytes list list) option" where
  "printAdvancedTable headers rows =
     (if headers = [] \<or> rows = [] then None
      else let ws = column_widths headers rows
           in Some (ws, map (\<lambda>row. map (\<lambda>(w, cell). pad_cell (w - 2) cell) (zip ws row)) (headers # rows)))"

end
