(* ===== verification/Display.thy ===== *)
theory Display
  imports Texts KeysSpec Startup
begin

text \<open>
  What \<open>db.go\<close> prints about a database: the overview, the distribution of keys and sizes, the data files
  and the metrics. A printed panel is the record of the values it shows, in the order in which the code
  reads them; the wording and the colours are left out.
\<close>

section \<open>The overview\<close>

definition getCompressionNameFromString :: "GojiDB \<Rightarrow> bytes \<Rightarrow> bytes" where
  "getCompressionNameFromString db algorithm =
     (if algorithm = str ''auto'' then go_text [0x667A, 0x80FD, 0x538B, 0x7F29]
      else if algorithm = str ''snappy'' then str ''Snappy''
      else if algorithm = str ''zstd'' then str ''ZSTD''
      else if algorithm = str ''gzip'' then str ''Gzip''
      else if algorithm = [] then getCompressionName (cfgCompressionType (config db))
      else algorithm)"

definition getCurrentCompressionType :: "GojiDB \<Rightarrow> bytes" where
  "getCurrentCompressionType db =
     (case smart db of
        Some sc \<Rightarrow> getCompressionNameFromString db (Algorithm (scConfig sc))
      | None \<Rightarrow> getCompressionName (cfgCompressionType (config db)))"

record Overview =
  ovPath :: bytes
  ovActive :: "32 word"
  ovKeys :: nat
  ovStored :: nat
  ovDeleted :: nat
  ovExpired :: nat
  ovSize :: "amount outcome"
  ovCompression :: bytes
  ovMetrics :: bytes
  ovUptime :: "int \<times> int \<times> bytes"

definition data_size :: "GojiDB \<Rightarrow> nat" where
  "data_size db = sum_list (map (\<lambda>f. length (db_file f db)) (glob_data (wFiles (world db))))"

definition overdue :: "32 word \<Rightarrow> KeyDir \<Rightarrow> bool" where
  "overdue now kd \<longleftrightarrow> \<not> Deleted kd \<and> TTL kd > 0 \<and> now > TTL kd"

definition PrintDatabaseOverview :: "Platform \<Rightarrow> GojiDB \<Rightarrow> Overview \<times> GojiDB" where
  "PrintDatabaseOverview P db =
     (let (ks, db1) = ListKeys P db; (t, db2) = db_now P db1;
          deleted = length (range_keys Deleted db2);
          expired = length (range_keys (overdue (unix32 t)) db2);
          stored = cm_Size (keyDir db2); sz = data_size db2; (t3, db3) = db_now P db2;
          uptime = t3 - StartTime (metrics db3)
      in (\<lparr>ovPath = DataPath (config db), ovActive = activeFileID db3, ovKeys = length ks, ovStored = stored,
           ovDeleted = deleted, ovExpired = expired, ovSize = formatSize (int sz),
           ovCompression = getCurrentCompressionType db3, ovMetrics = getBoolString (EnableMetrics (config db3)),
           ovUptime = (uptime, formatDuration uptime)\<rparr>, db3))"

text \<open>Listed, deleted and expired keys are all the stored ones, when both readings fall in one second.\<close>

lemma range_keys_split:
  "length (range_keys (unexpired now) db) + length (range_keys Deleted db) + length (range_keys (overdue now) db) =
   cm_Size (keyDir db)"
proof -
  have "length (filter (\<lambda>(k, kd). unexpired now kd) xs) + length (filter (\<lambda>(k, kd). Deleted kd) xs) +
      length (filter (\<lambda>(k, kd). overdue now kd) xs) = length xs" for xs :: "(key \<times> KeyDir) list"
    by (induction xs) (auto simp: unexpired_def overdue_def word_gt_0 not_le)
  then show ?thesis by (simp add: range_keys_filter cm_Size_entries)
qed

lemma overview_adds_up:
  assumes "PrintDatabaseOverview P db = (ov, db')"
    and "unix32 (clock P (wTicks (world db))) = unix32 (clock P (Suc (wTicks (world db))))"
  shows "ovKeys ov + ovDeleted ov + ovExpired ov = ovStored ov"
proof -
  let ?now = "unix32 (clock P (wTicks (world db)))"
  have "range_keys f (snd (db_now P db)) = range_keys f db" for f by (simp add: range_keys_def db_now_eq)
  moreover have "range_keys f (snd (db_now P (snd (db_now P db)))) = range_keys f db" for f
    by (simp add: range_keys_def db_now_eq)
  ultimately show ?thesis
    using assms range_keys_split [of ?now db]
    by (auto simp: PrintDatabaseOverview_def ListKeys_def Let_def db_now_eq range_keys_def)
qed

section \<open>Distribution of keys and sizes\<close>

definition key_type :: "key \<Rightarrow> bytes" where
  "key_type k = (if 0x3a \<in> set k then takeWhile (\<lambda>b. b \<noteq> 0x3a) k else go_text [0x5176, 0x4ED6])"

text \<open>Number of keys and bytes of each type, in one pass over the listed keys.\<close>

definition count_key :: "GojiDB \<Rightarrow> key \<Rightarrow> (bytes \<times> int \<times> int) list \<Rightarrow> (bytes \<times> int \<times> int) list" where
  "count_key db k acc =
     (case cm_Get (keyDir db) k of
        None \<Rightarrow> acc
      | Some kd \<Rightarrow>
          if Deleted kd then acc
          else let ty = key_type k; (c, s) = (case map_of acc ty of None \<Rightarrow> (0, 0) | Some x \<Rightarrow> x)
               in AList.update ty (c + 1, s + uint (ValueSize kd)) acc)"

definition key_types :: "GojiDB \<Rightarrow> key list \<Rightarrow> (bytes \<times> int \<times> int) list" where
  "key_types db ks = fold (count_key db) ks []"

text \<open>\<open>strings.Repeat\<close> panics on a negative count.\<close>

definition bar_length :: "int \<Rightarrow> int \<Rightarrow> int" where
  "bar_length v mx = (let b = v * 40 div mx in if b = 0 \<and> v > 0 then 1 else b)"

definition draw_bar :: "int \<Rightarrow> int \<Rightarrow> (int \<times> int) outcome" where
  "draw_bar v mx = (let b = bar_length v mx in if b < 0 \<or> 40 - b < 0 then Panic else Ok (b, 40 - b))"

fun draw_bars :: "int \<Rightarrow> (bytes \<times> int) list \<Rightarrow> (bytes \<times> int \<times> int \<times> int) list outcome" where
  "draw_bars mx [] = Ok []"
| "draw_bars mx ((ty, v) # xs) =
     bind_outcome (draw_bar v mx) (\<lambda>b. bind_outcome (draw_bars mx xs) (\<lambda>bs. Ok ((ty, v, b) # bs)))"

definition max_value :: "(bytes \<times> int) list \<Rightarrow> int" where
  "max_value xs = fold (\<lambda>(ty, v) m. if v > m then v else m) xs 0"

text \<open>The two charts; \<open>None\<close> stands for the line that says there is nothing to show.\<close>

definition PrintDataVisualization ::
  "Platform \<Rightarrow> GojiDB \<Rightarrow> ((bytes \<times> int \<times> int \<times> int) list \<times> (bytes \<times> int \<times> int \<times> int) list option) option outcome \<times> GojiDB" where
  "PrintDataVisualization P db =
     (let (ks, db1) = ListKeys P db
      in if ks = [] then (Ok None, db1)
         else let types = visit P (wTicks (world db1)) (key_types db1 ks);
                  counts = map (\<lambda>(ty, c, s). (ty, c)) types; sizes = map (\<lambda>(ty, c, s). (ty, s)) types;
                  mc = max_value counts; ms = max_value sizes
              in if mc = 0 then (Ok None, db1)
                 else (bind_outcome (draw_bars mc counts) (\<lambda>bc.
                         if ms = 0 then Ok (Some (bc, None))
                         else bind_outcome (draw_bars ms sizes) (\<lambda>bs. Ok (Some (bc, Some bs)))), db1))"

text \<open>A bar has between 0 and 40 cells, and at least one for a positive value: drawing never panics.\<close>

lemma bar_length_bounds:
  assumes "0 \<le> v" "v \<le> mx" "0 < mx"
  shows "0 \<le> bar_length v mx \<and> bar_length v mx \<le> 40 \<and> (0 < v \<longrightarrow> 1 \<le> bar_length v mx)"
proof -
  have "0 \<le> v * 40 div mx" using assms by (simp add: pos_imp_zdiv_nonneg_iff)
  moreover have "v * 40 div mx \<le> mx * 40 div mx" using assms by (intro zdiv_mono1) simp_all
  then have "v * 40 div mx \<le> 40" using assms(3) by simp
  ultimately show ?thesis by (auto simp: bar_length_def Let_def)
qed

lemma draw_bars_ok:
  assumes "0 < mx" "\<forall>(ty, v) \<in> set xs. 0 \<le> v \<and> v \<le> mx"
  shows "\<exists>bs. draw_bars mx xs = Ok bs \<and> map fst bs = map fst xs"
  using assms(2)
proof (induction xs)
  case (Cons x xs)
  obtain ty v where x: "x = (ty, v)" by (rule prod.exhaust)
  have "0 \<le> v" "v \<le> mx" using Cons.prems by (auto simp: x)
  from bar_length_bounds [OF this assms(1)] Cons show ?case by (auto simp: x draw_bar_def Let_def)
qed simp

lemma max_value_bounds: "0 \<le> max_value xs \<and> (\<forall>(ty, v) \<in> set xs. v \<le> max_value xs)"
proof -
  have "m \<le> fold (\<lambda>(ty, v) m. if v > m then v else m) xs m \<and>
      (\<forall>(ty, v) \<in> set xs. v \<le> fold (\<lambda>(ty, v) m. if v > m then v else m) xs m)" for m :: int
  proof (induction xs arbitrary: m)
    case (Cons x xs)
    obtain ty v where x: "x = (ty, v)" by (rule prod.exhaust)
    show ?case using Cons [of "if v > m then v else m"] by (auto simp: x split: if_splits)
  qed simp
  then show ?thesis unfolding max_value_def by blast
qed

lemma update_subset: "set (AList.update k v xs) \<subseteq> insert (k, v) (set xs)"
  by (induction xs) auto

lemma key_types_nonneg: "\<forall>(ty, c, s) \<in> set (key_types db ks). 0 \<le> c \<and> 0 \<le> s"
proof -
  have "\<forall>(ty, c, s) \<in> set (fold (count_key db) ks acc). 0 \<le> c \<and> 0 \<le> s"
    if "\<forall>(ty, c, s) \<in> set acc. 0 \<le> c \<and> 0 \<le> s" for acc
    using that
  proof (induction ks arbitrary: acc)
    case (Cons k ks)
    have "\<forall>(ty, c, s) \<in> set (count_key db k acc). 0 \<le> c \<and> 0 \<le> s"
    proof (cases "cm_Get (keyDir db) k")
      case (Some kd)
      obtain c s where cs: "(case map_of acc (key_type k) of None \<Rightarrow> (0, 0) | Some x \<Rightarrow> x) = (c, s)" by (rule prod.exhaust)
      have "0 \<le> c \<and> 0 \<le> s" using cs Cons.prems by (auto split: option.splits dest: map_of_SomeD)
      then show ?thesis
        using Cons.prems update_subset [of "key_type k" "(c + 1, s + uint (ValueSize kd))" acc]
        by (auto simp: count_key_def Some cs)
    qed (simp add: count_key_def Cons.prems)
    then show ?case using Cons.IH by simp
  qed simp
  from this [of "[]"] show ?thesis by (simp add: key_types_def)
qed

lemma PrintDataVisualization_returns: "\<exists>x. fst (PrintDataVisualization P db) = Ok x"
proof -
  obtain ks db1 where l: "ListKeys P db = (ks, db1)" by (rule prod.exhaust)
  let ?types = "visit P (wTicks (world db1)) (key_types db1 ks)"
  let ?cs = "map (\<lambda>(ty, c, s). (ty, c)) ?types" and ?ss = "map (\<lambda>(ty, c, s). (ty, s)) ?types"
  have "set ?types \<subseteq> set (key_types db1 ks)"
    by (auto simp: visit_def split: option.splits dest: map_of_SomeD [OF sym])
  then have n: "\<forall>(ty, v) \<in> set ?cs. 0 \<le> v" "\<forall>(ty, v) \<in> set ?ss. 0 \<le> v" using key_types_nonneg [of db1 ks] by fastforce+
  have "\<exists>bs. draw_bars (max_value xs) xs = Ok bs" if "\<forall>(ty, v) \<in> set xs. 0 \<le> v" "max_value xs \<noteq> 0" for xs
    using draw_bars_ok [of "max_value xs" xs] max_value_bounds [of xs] that by fastforce
  note d = this [OF n(1)] this [OF n(2)]
  define cs ss where "cs = ?cs" and "ss = ?ss"
  have "PrintDataVisualization P db =
      (if ks = [] then (Ok None, db1)
       else if max_value cs = 0 then (Ok None, db1)
       else (bind_outcome (draw_bars (max_value cs) cs) (\<lambda>bc.
               if max_value ss = 0 then Ok (Some (bc, None))
               else bind_outcome (draw_bars (max_value ss) ss) (\<lambda>bs. Ok (Some (bc, Some bs)))), db1))"
    unfolding PrintDataVisualization_def l Let_def prod.case cs_def ss_def by (rule refl)
  moreover obtain bc where "max_value cs \<noteq> 0 \<Longrightarrow> draw_bars (max_value cs) cs = Ok bc" using d(1) unfolding cs_def by blast
  moreover obtain bs where "max_value ss \<noteq> 0 \<Longrightarrow> draw_bars (max_value ss) ss = Ok bs" using d(2) unfolding ss_def by blast
  ultimately show ?thesis by simp
qed


section \<open>Metrics and files\<close>

record MetricsPanel =
  mpReads :: amount
  mpWrites :: amount
  mpDeletes :: amount
  mpHits :: amount
  mpMisses :: amount
  mpCompactions :: amount
  mpExpired :: amount
  mpRatio :: real
  mpUptime :: "int \<times> int \<times> bytes"
  mpHitRate :: "real option"
  mpQPS :: "real option"

definition seconds :: "int \<Rightarrow> real" where
  "seconds d = real_of_int d / 1000000000"

definition hit_rate :: "Metrics \<Rightarrow> real option" where
  "hit_rate m =
     (let n = CacheHits m + CacheMisses m
      in if sint n > 0 then Some (real_of_int (sint (CacheHits m)) / real_of_int (sint n) * 100) else None)"

definition total_ops :: "Metrics \<Rightarrow> 64 word" where
  "total_ops m = TotalReads m + TotalWrites m + TotalDeletes m"

text \<open>\<open>GetMetrics\<close> returns nil when metrics are off; reading a field of it panics.\<close>

definition PrintMetrics :: "Platform \<Rightarrow> GojiDB \<Rightarrow> MetricsPanel result" where
  "PrintMetrics P db =
     (case GetMetrics db of
        None \<Rightarrow> (Panic, db)
      | Some m \<Rightarrow>
          let (t, db1) = db_now P db; uptime = t - StartTime m; num = (\<lambda>x. formatNumber (sint x))
          in (Ok \<lparr>mpReads = num (TotalReads m), mpWrites = num (TotalWrites m), mpDeletes = num (TotalDeletes m),
                mpHits = num (CacheHits m), mpMisses = num (CacheMisses m), mpCompactions = num (CompactionCount m),
                mpExpired = num (ExpiredKeyCount m), mpRatio = real_of_int (sint (CompressionRatio m)) / 100,
                mpUptime = (uptime, formatDuration uptime), mpHitRate = hit_rate m,
                mpQPS = (if seconds uptime > 0 then Some (real_of_int (sint (total_ops m)) / seconds uptime) else None)\<rparr>, db1))"

text \<open>A row of the file table: identifier (0 for a name without one), size, whether it is the active file.\<close>

definition file_rows :: "GojiDB \<Rightarrow> (32 word \<times> amount outcome \<times> bool) list" where
  "file_rows db =
     map (\<lambda>f. let fid = (case parseFileID f of Ok i \<Rightarrow> i | _ \<Rightarrow> 0)
              in (fid, formatSize (int (length (db_file f db))), fid = activeFileID db))
       (sort (glob_data (wFiles (world db))))"

definition PrintFullDatabaseStatus :: "Platform \<Rightarrow> GojiDB \<Rightarrow>
    (Overview \<times> ((bytes \<times> int \<times> int \<times> int) list \<times> (bytes \<times> int \<times> int \<times> int) list option) option \<times>
     (32 word \<times> amount outcome \<times> bool) list \<times> MetricsPanel option) result" where
  "PrintFullDatabaseStatus P db =
     (let (ov, db1) = PrintDatabaseOverview P db
      in db_then (PrintDataVisualization P db1) (\<lambda>vis db2.
           if EnableMetrics (config db2)
           then db_then (PrintMetrics P db2) (\<lambda>mp db3. (Ok (ov, vis, file_rows db2, Some mp), db3))
           else (Ok (ov, vis, file_rows db2, None), db2)))"

text \<open>The full status checks for metrics before it prints them, so it never reads a nil pointer.\<close>

lemma PrintFullDatabaseStatus_returns: "\<exists>x. fst (PrintFullDatabaseStatus P db) = Ok x"
proof -
  obtain ov db1 where o: "PrintDatabaseOverview P db = (ov, db1)" by (rule prod.exhaust)
  obtain vis db2 where v: "PrintDataVisualization P db1 = (Ok vis, db2)"
    using PrintDataVisualization_returns [of P db1] by (metis prod.collapse)
  have "\<exists>x. fst (PrintMetrics P db2) = Ok x" if "EnableMetrics (config db2)"
    using that by (simp add: PrintMetrics_def GetMetrics_def db_now_eq Let_def)
  then obtain mp db3 where "EnableMetrics (config db2) \<Longrightarrow> PrintMetrics P db2 = (Ok mp, db3)"
    by (metis prod.collapse)
  then show ?thesis by (simp add: PrintFullDatabaseStatus_def o v)
qed

end
