(* ===== verification/CommandText.thy ===== *)
theory CommandText
  imports Texts
begin

text \<open>
  What the command line uses of the packages \<open>strings\<close>, \<open>strconv\<close> and \<open>time\<close>: cutting a line into words,
  lower case, the substring test, and parsing a duration.
\<close>

section \<open>Code points of a string\<close>

text \<open>The code points with the bytes they were read from; a byte that is no UTF-8 stands alone.\<close>

function chunks :: "bytes \<Rightarrow> (nat \<times> bytes) list" where
  "chunks s = (if s = [] then [] else let (r, n) = DecodeRune s in (r, take n s) # chunks (drop n s))"
  by pat_completeness auto
termination
proof (relation "measure length", goal_cases)
  case (2 s p r n)
  then have "1 \<le> n" using DecodeRune_length [of s] by (metis snd_conv)
  then show ?case using 2(1) by (simp add: diff_less)
qed simp

declare chunks.simps [simp del]

lemma chunks_bytes: "concat (map snd (chunks s)) = s"
proof (induction s rule: chunks.induct)
  case (1 s)
  then show ?case by (cases "DecodeRune s") (simp add: chunks.simps [of s])
qed

lemma chunks_ascii: "\<forall>b \<in> set s. unat b < 0x80 \<Longrightarrow> chunks s = map (\<lambda>b. (unat b, [b])) s"
proof (induction s)
  case (Cons b s)
  then show ?case by (simp add: chunks.simps [of "b # s"] Let_def)
qed (simp add: chunks.simps)

lemma chunk_nonempty: "(r, c) \<in> set (chunks s) \<Longrightarrow> c \<noteq> []"
proof (induction s rule: chunks.induct)
  case (1 s)
  obtain r' n where d: "DecodeRune s = (r', n)" by (rule prod.exhaust)
  show ?case
  proof (cases "s = []")
    case False
    then have "take n s \<noteq> []" using DecodeRune_length [of s] d by simp
    then show ?thesis using 1 False d by (auto simp: chunks.simps [of s])
  qed (use 1 in \<open>simp add: chunks.simps\<close>)
qed

section \<open>Package \<open>strings\<close>\<close>

text \<open>\<open>unicode.IsSpace\<close>\<close>

definition IsSpace :: "nat \<Rightarrow> bool" where
  "IsSpace r \<longleftrightarrow> 9 \<le> r \<and> r \<le> 13 \<or> r = 0x20 \<or> r = 0x85 \<or> r = 0xA0 \<or> r = 0x1680 \<or>
     0x2000 \<le> r \<and> r \<le> 0x200A \<or> r = 0x2028 \<or> r = 0x2029 \<or> r = 0x202F \<or> r = 0x205F \<or> r = 0x3000"

definition trim_with :: "('a \<Rightarrow> bool) \<Rightarrow> 'a list \<Rightarrow> 'a list" where
  "trim_with f xs = rev (dropWhile f (rev (dropWhile f xs)))"

definition TrimSpace :: "bytes \<Rightarrow> bytes" where
  "TrimSpace s = concat (map snd (trim_with (\<lambda>(r, c). IsSpace r) (chunks s)))"

text \<open>\<open>strings.Trim\<close> with the two quotation marks as its cut set.\<close>

definition trim_quotes :: "bytes \<Rightarrow> bytes" where
  "trim_quotes s = trim_with (\<lambda>b. b = 0x22 \<or> b = 0x27) s"

fun cut_fields :: "(nat \<times> bytes) list \<Rightarrow> bytes \<Rightarrow> bytes list" where
  "cut_fields [] w = (if w = [] then [] else [w])"
| "cut_fields ((r, c) # cs) w =
     (if IsSpace r then (if w = [] then cut_fields cs [] else w # cut_fields cs []) else cut_fields cs (w @ c))"

definition Fields :: "bytes \<Rightarrow> bytes list" where
  "Fields s = cut_fields (chunks s) []"

text \<open>The case mapping of \<open>unicode\<close> outside ASCII is an argument.\<close>

definition lower_rune :: "(nat \<Rightarrow> nat) \<Rightarrow> nat \<Rightarrow> nat" where
  "lower_rune uni r = (if r < 0x80 then (if 0x41 \<le> r \<and> r \<le> 0x5A then r + 32 else r) else uni r)"

definition ToLower :: "(nat \<Rightarrow> nat) \<Rightarrow> bytes \<Rightarrow> bytes" where
  "ToLower uni s = concat (map (\<lambda>(r, c). encode_rune (lower_rune uni r)) (chunks s))"

fun join_blank :: "bytes list \<Rightarrow> bytes" where
  "join_blank [] = []"
| "join_blank [w] = w"
| "join_blank (w # ws) = w @ 0x20 # join_blank ws"

fun has_prefix :: "bytes \<Rightarrow> bytes \<Rightarrow> bool" where
  "has_prefix s [] \<longleftrightarrow> True"
| "has_prefix [] (p # ps) \<longleftrightarrow> False"
| "has_prefix (b # s) (p # ps) \<longleftrightarrow> b = p \<and> has_prefix s ps"

fun contains :: "bytes \<Rightarrow> bytes \<Rightarrow> bool" where
  "contains [] p \<longleftrightarrow> p = []"
| "contains (b # s) p \<longleftrightarrow> has_prefix (b # s) p \<or> contains s p"

lemma has_prefix_iff: "has_prefix s p \<longleftrightarrow> (\<exists>t. s = p @ t)"
  by (induction s p rule: has_prefix.induct) auto

lemma contains_iff: "contains s p \<longleftrightarrow> (\<exists>a t. s = a @ p @ t)"
proof (induction s)
  case (Cons b s)
  have "(\<exists>a t. b # s = a @ p @ t) \<longleftrightarrow> (\<exists>t. b # s = p @ t) \<or> (\<exists>a t. s = a @ p @ t)"
    by (auto simp: Cons_eq_append_conv)
  then show ?case using Cons by (simp add: has_prefix_iff)
qed simp

text \<open>\<open>strings.Split\<close> at a byte.\<close>

fun split_at :: "byte \<Rightarrow> bytes \<Rightarrow> bytes list" where
  "split_at c [] = [[]]"
| "split_at c (b # s) =
     (if b = c then [] # split_at c s
      else case split_at c s of [] \<Rightarrow> [[b]] | w # ws \<Rightarrow> (b # w) # ws)"

text \<open>Words that contain no blank survive being joined and cut again.\<close>

definition plain_word :: "bytes \<Rightarrow> bool" where
  "plain_word w \<longleftrightarrow> w \<noteq> [] \<and> (\<forall>b \<in> set w. unat b < 0x80 \<and> \<not> IsSpace (unat b))"

lemma cut_word:
  assumes "\<forall>b \<in> set w. \<not> IsSpace (unat b)"
  shows "cut_fields (map (\<lambda>b. (unat b, [b])) w @ cs) v = cut_fields cs (v @ w)"
  using assms by (induction w arbitrary: v) auto

lemma join_blank_bytes: "set (join_blank ws) \<subseteq> insert 0x20 (\<Union> (set ` set ws))"
  by (induction ws rule: join_blank.induct) auto

lemma join_blank_ascii:
  assumes "\<forall>w \<in> set ws. plain_word w"
  shows "\<forall>b \<in> set (join_blank ws). unat b < 0x80"
proof -
  have "unat b < 0x80" if "b \<in> set (join_blank ws)" for b
  proof (cases "b = 0x20")
    case False
    then have "b \<in> \<Union> (set ` set ws)" using subsetD [OF join_blank_bytes that(1)] by simp
    then obtain w where "w \<in> set ws" "b \<in> set w" by blast
    then show ?thesis using assms by (simp add: plain_word_def)
  qed simp
  then show ?thesis by blast
qed

lemma Fields_join:
  assumes "\<forall>w \<in> set ws. plain_word w"
  shows "Fields (join_blank ws) = ws"
proof -
  let ?m = "map (\<lambda>b :: byte. (unat b, [b]))"
  note a = join_blank_ascii [OF assms]
  have "cut_fields (?m (join_blank ws)) [] = ws" using assms
  proof (induction ws rule: join_blank.induct)
    case (2 w)
    then show ?case using cut_word [of w "[]" "[]"] by (simp add: plain_word_def)
  next
    case (3 w v vs)
    have "cut_fields (?m (w @ 0x20 # join_blank (v # vs))) [] = cut_fields (?m (0x20 # join_blank (v # vs))) w"
      using cut_word [of w "?m (0x20 # join_blank (v # vs))" "[]"] 3(2) by (simp add: plain_word_def)
    then show ?case using 3 by (simp add: IsSpace_def plain_word_def)
  qed simp
  then show ?thesis by (simp add: Fields_def chunks_ascii [OF a])
qed

section \<open>\<open>time.ParseDuration\<close>\<close>

text \<open>A run of digits; \<open>None\<close> when its value exceeds \<open>2 ^ 63\<close>.\<close>

fun leadingInt :: "nat \<Rightarrow> bytes \<Rightarrow> (nat \<times> bytes) option" where
  "leadingInt x [] = Some (x, [])"
| "leadingInt x (c # s) =
     (if \<not> is_digit c then Some (x, c # s)
      else if x > 2 ^ 63 div 10 \<or> x * 10 + (unat c - 48) > 2 ^ 63 then None
      else leadingInt (x * 10 + (unat c - 48)) s)"

text \<open>Digits behind the point with their scale; those that no longer fit are passed over.\<close>

fun leadingFraction :: "nat \<Rightarrow> nat \<Rightarrow> bool \<Rightarrow> bytes \<Rightarrow> nat \<times> nat \<times> bytes" where
  "leadingFraction x sc over [] = (x, sc, [])"
| "leadingFraction x sc over (c # s) =
     (if \<not> is_digit c then (x, sc, c # s)
      else if over \<or> x > (2 ^ 63 - 1) div 10 \<or> x * 10 + (unat c - 48) > 2 ^ 63 then leadingFraction x sc True s
      else leadingFraction (x * 10 + (unat c - 48)) (sc * 10) False s)"

definition unit_nanoseconds :: "bytes \<Rightarrow> nat option" where
  "unit_nanoseconds u =
     map_of [(str ''ns'', 1), (str ''us'', 1000), (go_text [0xB5, 0x73], 1000), (go_text [0x3BC, 0x73], 1000),
             (str ''ms'', 1000000), (str ''s'', 1000000000), (str ''m'', 60 * 1000000000),
             (str ''h'', 3600 * 1000000000)] u"

text \<open>One number with its unit; the fraction is computed exactly.\<close>

definition duration_part :: "bytes \<Rightarrow> (nat \<times> bytes) option" where
  "duration_part s =
     (if \<not> (hd s = 0x2e \<or> is_digit (hd s)) then None
      else case leadingInt 0 s of
             None \<Rightarrow> None
           | Some (v, s1) \<Rightarrow>
               let pre = (length s1 \<noteq> length s); point = (s1 \<noteq> [] \<and> hd s1 = 0x2e);
                   (f, sc, s2) = (if point then leadingFraction 0 1 False (tl s1) else (0, 1, s1));
                   post = (point \<and> length s2 \<noteq> length (tl s1));
                   u = takeWhile (\<lambda>c. \<not> (c = 0x2e \<or> is_digit c)) s2;
                   rest = dropWhile (\<lambda>c. \<not> (c = 0x2e \<or> is_digit c)) s2
               in if \<not> pre \<and> \<not> post \<or> u = [] then None
                  else case unit_nanoseconds u of
                         None \<Rightarrow> None
                       | Some n \<Rightarrow>
                           let w = v * n + f * n div sc
                           in if v > 2 ^ 63 div n \<or> w > 2 ^ 63 then None else Some (w, rest))"

lemma leadingInt_length: "leadingInt x s = Some (v, r) \<Longrightarrow> length r \<le> length s"
  by (induction x s rule: leadingInt.induct) (auto split: if_splits)

lemma leadingFraction_length: "leadingFraction x sc b s = (f, sc', r) \<Longrightarrow> length r \<le> length s"
  by (induction x sc b s rule: leadingFraction.induct) (auto split: if_splits)

lemma duration_part_length:
  assumes "duration_part s = Some (v, r)"
  shows "length r < length s"
proof -
  let ?p = "\<lambda>c. \<not> (c = 0x2e \<or> is_digit c)"
  obtain v1 s1 where i: "leadingInt 0 s = Some (v1, s1)"
    using assms by (auto simp: duration_part_def split: if_splits option.splits)
  obtain f sc s2 where q: "(if s1 \<noteq> [] \<and> hd s1 = 0x2e then leadingFraction 0 1 False (tl s1) else (0, 1, s1)) = (f, sc, s2)"
    by (rule prod_cases3)
  have "r = dropWhile ?p s2" "takeWhile ?p s2 \<noteq> []"
    using assms q by (auto simp: duration_part_def i Let_def split: if_splits option.splits)
  moreover have "length s2 \<le> length s1"
    using q leadingFraction_length [of 0 1 False "tl s1" f sc s2] by (cases s1) (auto split: if_splits)
  moreover have "length (takeWhile ?p s2) + length (dropWhile ?p s2) = length s2"
    by (metis length_append takeWhile_dropWhile_id)
  ultimately show ?thesis using leadingInt_length [OF i] by (cases "takeWhile ?p s2") auto
qed

function duration_sum :: "nat \<Rightarrow> bytes \<Rightarrow> nat option" where
  "duration_sum d s =
     (if s = [] then Some d
      else case duration_part s of
             None \<Rightarrow> None
           | Some (v, r) \<Rightarrow> if d + v > 2 ^ 63 then None else duration_sum (d + v) r)"
  by pat_completeness auto
termination
  by (relation "measure (\<lambda>(d, s). length s)") (auto dest: duration_part_length)

declare duration_sum.simps [simp del]

definition ParseDuration :: "bytes \<Rightarrow> int option" where
  "ParseDuration s0 =
     (let neg = (s0 \<noteq> [] \<and> hd s0 = 0x2d); s = (if s0 \<noteq> [] \<and> (hd s0 = 0x2d \<or> hd s0 = 0x2b) then tl s0 else s0)
      in if s = [0x30] then Some 0 else if s = [] then None
         else case duration_sum 0 s of
                None \<Rightarrow> None
              | Some d \<Rightarrow> if neg then Some (- int d) else if d > 2 ^ 63 - 1 then None else Some (int d))"

lemma ParseDuration_sample: "ParseDuration (str ''10s'') = Some 10000000000" "ParseDuration (str ''1.5h'') = Some 5400000000000"
  "ParseDuration (str ''10'') = None"
  by (simp_all add: ParseDuration_def Let_def duration_sum.simps duration_part_def is_digit_def unit_nanoseconds_def
      str_def go_text_def encode_rune_def)

end
