(* ===== verification/Cli.thy ===== *)
theory Cli
  imports CommandText Display Snapshots Compaction Transaction Batch
begin

text \<open>
  \<open>cli.go\<close>: the interactive mode. A typed line is cut into words, entered in the history and handed to the
  command of its first word; a command reads further lines itself when it has a mode of its own. What is
  printed is a list of messages, each with the values it shows; the wording, the colours and the frames are
  left out. The terminal hands over one line at a time.
\<close>

section \<open>State\<close>

datatype cli_error = Usage string | UnknownCommand bytes | UnknownSnapshotCommand bytes | HistoryBuiltIn | DbError goerr

datatype shown_value =
    Txt bytes | Num int | Amount "amount outcome" | Duration int | Rate "real option" | Flag bool | At instant
  | Label string | Failure goerr | Fault cli_error

type_synonym message = "string \<times> shown_value list"

record MemStats =
  Alloc :: nat
  Sys :: nat
  NumGC :: nat

text \<open>The numbers that \<open>export\<close> writes.\<close>

record Export =
  exAt :: instant
  exUptime :: int
  exKeys :: nat
  exMetrics :: Metrics
  exSize :: nat
  exTTL :: bool

text \<open>
  What the command line takes from outside: the case table of \<open>unicode\<close>, random bytes, the order in which
  the workers of a batch read take their files, the JSON of the files it reads and writes, memory figures,
  where it may write, and what \<open>go test\<close> prints.
\<close>

record CliEnv =
  unicodeLower :: "nat \<Rightarrow> nat"
  randomBytes :: "nat \<Rightarrow> bytes"
  schedule :: "nat \<Rightarrow> 32 word list list"
  snapMarshal :: "Snapshot \<Rightarrow> bytes"
  snapUnmarshal :: "bytes \<Rightarrow> Snapshot option"
  importUnmarshal :: "bytes \<Rightarrow> (key \<times> bytes) list option"
  exportMarshal :: "Export \<Rightarrow> bytes option"
  historyMarshal :: "bytes list \<Rightarrow> bytes option"
  historyUnmarshal :: "bytes \<Rightarrow> bytes list"
  memStats :: "nat \<Rightarrow> MemStats"
  fileStamp :: "instant \<Rightarrow> bytes"
  canWrite :: "bytes \<Rightarrow> bool"
  goos :: string
  goarch :: string
  goVersion :: bytes
  compiler :: bytes
  numGoroutine :: "nat \<Rightarrow> nat"
  goTest :: "nat \<Rightarrow> string \<Rightarrow> bytes option"

text \<open>
  \<open>interactiveCLI\<close> with the lines still to be typed, the messages shown so far, and the files outside the
  data directory.
\<close>

record interactiveCLI =
  cliDB :: GojiDB
  typed :: "bytes list"
  shown :: "message list"
  outside :: files
  entries :: "bytes list"

text \<open>How a command ends: without an error, with one, by leaving the program, in a panic, or never.\<close>

datatype reply = Done | Failed cli_error | Leave | Crash | Hang

type_synonym cli_result = "reply \<times> interactiveCLI"

definition say :: "string \<Rightarrow> shown_value list \<Rightarrow> interactiveCLI \<Rightarrow> interactiveCLI" where
  "say m vs c = c\<lparr>shown := shown c @ [(m, vs)]\<rparr>"

definition cli_now :: "Platform \<Rightarrow> interactiveCLI \<Rightarrow> instant \<times> interactiveCLI" where
  "cli_now P c = (let (t, db) = db_now P (cliDB c) in (t, c\<lparr>cliDB := db\<rparr>))"

definition list_keys :: "Platform \<Rightarrow> interactiveCLI \<Rightarrow> key list \<times> interactiveCLI" where
  "list_keys P c = (let (ks, db) = ListKeys P (cliDB c) in (ks, c\<lparr>cliDB := db\<rparr>))"

text \<open>A call of the database with what follows its success and its error.\<close>

definition on_db :: "(GojiDB \<Rightarrow> 'a result) \<Rightarrow> ('a \<Rightarrow> interactiveCLI \<Rightarrow> cli_result) \<Rightarrow>
    (goerr \<Rightarrow> interactiveCLI \<Rightarrow> cli_result) \<Rightarrow> interactiveCLI \<Rightarrow> cli_result" where
  "on_db f ok err c =
     (let (r, db) = f (cliDB c); c1 = c\<lparr>cliDB := db\<rparr>
      in case r of Ok x \<Rightarrow> ok x c1 | Err e \<Rightarrow> err e c1 | Panic \<Rightarrow> (Crash, c1) | Blocked \<Rightarrow> (Hang, c1))"

definition tell :: "string \<Rightarrow> shown_value list \<Rightarrow> interactiveCLI \<Rightarrow> cli_result" where
  "tell m vs c = (Done, say m vs c)"

definition fail_with :: "goerr \<Rightarrow> interactiveCLI \<Rightarrow> cli_result" where
  "fail_with e c = (Failed (DbError e), c)"

text \<open>Calls whose errors are dropped.\<close>

fun each_db :: "(GojiDB \<Rightarrow> 'a result) list \<Rightarrow> (interactiveCLI \<Rightarrow> cli_result) \<Rightarrow> interactiveCLI \<Rightarrow> cli_result" where
  "each_db [] k c = k c"
| "each_db (f # fs) k c = on_db f (\<lambda>_. each_db fs k) (\<lambda>_. each_db fs k) c"

definition cli_ticks :: "interactiveCLI \<Rightarrow> nat" where
  "cli_ticks c = wTicks (world (cliDB c))"

text \<open>\<open>Duration.Round\<close>, half away from zero.\<close>

definition round_duration :: "int \<Rightarrow> int \<Rightarrow> int" where
  "round_duration m d =
     (let r = \<bar>d\<bar> mod m; a = (if r + r < m then \<bar>d\<bar> - r else \<bar>d\<bar> + m - r) in if d < 0 then - a else a)"

text \<open>A quotient of \<open>float64\<close>s; \<open>None\<close> for a division by zero.\<close>

definition quotient :: "int \<Rightarrow> real \<Rightarrow> real option" where
  "quotient n d = (if d = 0 then None else Some (real_of_int n / d))"

section \<open>History\<close>

definition HistoryFile :: bytes where
  "HistoryFile = str ''../logs/gojidb_history.json''"

definition history_add :: "bytes \<Rightarrow> bytes list \<Rightarrow> bytes list" where
  "history_add cmd es = (let es1 = es @ [cmd] in if length es1 > 100 then drop (length es1 - 100) es1 else es1)"

definition history_load :: "CliEnv \<Rightarrow> files \<Rightarrow> bytes list" where
  "history_load E fs = (case map_of fs HistoryFile of None \<Rightarrow> [] | Some data \<Rightarrow> historyUnmarshal E data)"

definition write_file :: "CliEnv \<Rightarrow> bytes \<Rightarrow> bytes \<Rightarrow> files \<Rightarrow> files" where
  "write_file E f data fs = (if canWrite E f then AList.update f data fs else fs)"

definition history_save :: "CliEnv \<Rightarrow> interactiveCLI \<Rightarrow> interactiveCLI" where
  "history_save E c =
     (case historyMarshal E (entries c) of
        None \<Rightarrow> c
      | Some data \<Rightarrow> c\<lparr>outside := write_file E HistoryFile data (outside c)\<rparr>)"

definition newInteractiveCLI :: "CliEnv \<Rightarrow> bytes list \<Rightarrow> files \<Rightarrow> GojiDB \<Rightarrow> interactiveCLI" where
  "newInteractiveCLI E lines fs db =
     \<lparr>cliDB = db, typed = lines, shown = [], outside = fs, entries = history_load E fs\<rparr>"

section \<open>Helpers\<close>

definition filterKeys :: "key list \<Rightarrow> bytes \<Rightarrow> key list" where
  "filterKeys ks pattern = (if pattern = [] then ks else filter (\<lambda>k. contains k pattern) ks)"

definition dots :: bytes where
  "dots = str ''...''"

definition truncateString :: "bytes \<Rightarrow> nat \<Rightarrow> bytes" where
  "truncateString s n = (if length s \<le> n then s else take n s @ dots)"

text \<open>A text cut to \<open>n\<close> bytes, the last three of them dots.\<close>

definition preview :: "nat \<Rightarrow> bytes \<Rightarrow> bytes" where
  "preview n s = (if length s > n then take (n - 3) s @ dots else s)"

definition numbered :: "nat \<Rightarrow> 'a list \<Rightarrow> (int \<times> 'a) list" where
  "numbered start xs = zip (map int [start + 1 ..< start + 1 + length xs]) xs"

section \<open>Commands on keys\<close>

text \<open>The duration is looked for in the fourth word; the value is all words from the third on.\<close>

definition handlePut :: "Platform \<Rightarrow> bytes list \<Rightarrow> interactiveCLI \<Rightarrow> cli_result" where
  "handlePut P parts c =
     (if length parts < 3 then (Failed (Usage ''put <key> <value> [ttl]''), c)
      else let k = parts ! 1; v = trim_quotes (join_blank (drop 2 parts));
               ttl = (if length parts > 3 then ParseDuration (parts ! 3) else None)
           in case ttl of
                Some d \<Rightarrow> on_db (PutWithTTL P k v d) (\<lambda>_ c1. (Done, c1)) fail_with c
              | None \<Rightarrow> on_db (Put P k v) (\<lambda>_ c1. (Done, c1)) fail_with c)"

definition handleGet :: "Platform \<Rightarrow> bytes list \<Rightarrow> interactiveCLI \<Rightarrow> cli_result" where
  "handleGet P parts c =
     (if length parts < 2 then (Failed (Usage ''get <key>''), c)
      else on_db (Get P (parts ! 1)) (\<lambda>v. tell ''value'' [Txt (parts ! 1), Txt v]) fail_with c)"

definition handleDelete :: "Platform \<Rightarrow> bytes list \<Rightarrow> interactiveCLI \<Rightarrow> cli_result" where
  "handleDelete P parts c =
     (if length parts < 2 then (Failed (Usage ''delete <key>''), c)
      else on_db (Delete P (parts ! 1)) (\<lambda>_ c1. (Done, c1)) fail_with c)"

definition handleList :: "Platform \<Rightarrow> bytes list \<Rightarrow> interactiveCLI \<Rightarrow> cli_result" where
  "handleList P parts c =
     (let pattern = (if length parts > 1 then parts ! 1 else []); (ks, c1) = list_keys P c; found = filterKeys ks pattern
      in (Done, fold (\<lambda>(i, k). say ''key'' [Num i, Txt k]) (numbered 0 found)
                  (say ''keys found'' [Num (int (length found))] c1)))"

definition handleTTL :: "Platform \<Rightarrow> bytes list \<Rightarrow> interactiveCLI \<Rightarrow> cli_result" where
  "handleTTL P parts c =
     (if length parts < 2 then (Failed (Usage ''ttl <key>''), c)
      else on_db (GetTTL P (parts ! 1))
             (\<lambda>d. if d > 0 then tell ''ttl'' [Txt (parts ! 1), Duration (round_duration 1000000000 d)]
                  else tell ''no ttl or expired'' [Txt (parts ! 1)]) fail_with c)"

text \<open>Each hit that can be read is shown under its position among the hits.\<close>

fun show_hits :: "Platform \<Rightarrow> (int \<times> key) list \<Rightarrow> interactiveCLI \<Rightarrow> cli_result" where
  "show_hits P [] c = (Done, c)"
| "show_hits P ((i, k) # ks) c =
     on_db (Get P k) (\<lambda>v c1. show_hits P ks (say ''hit'' [Num i, Txt k, Txt (truncateString v 50)] c1))
       (\<lambda>e c1. show_hits P ks c1) c"

definition handleSearch :: "Platform \<Rightarrow> bytes list \<Rightarrow> interactiveCLI \<Rightarrow> cli_result" where
  "handleSearch P parts c =
     (if length parts < 2 then (Failed (Usage ''search <pattern>''), c)
      else let (ks, c1) = list_keys P c; results = filter (\<lambda>k. contains k (parts ! 1)) ks
           in show_hits P (numbered 0 results) (say ''hits found'' [Num (int (length results))] c1))"

definition handleCompact :: "Platform \<Rightarrow> bytes list \<Rightarrow> interactiveCLI \<Rightarrow> cli_result" where
  "handleCompact P parts c =
     on_db (Compact P) (\<lambda>_. tell ''compacted'' []) fail_with (say ''compacting'' [] c)"

end
