(* ===== verification/CliModes.thy ===== *)
theory CliModes
  imports Cli
begin

text \<open>
  The commands of \<open>cli.go\<close> that read further lines or go through many items: the batch mode, the
  transaction mode, the question before a restore, importing, and the snapshots.
\<close>

text \<open>The next line and its words; the command word in lower case.\<close>

definition command_word :: "CliEnv \<Rightarrow> bytes list \<Rightarrow> bytes" where
  "command_word E parts = ToLower (unicodeLower E) (hd parts)"

section \<open>Batch mode\<close>

text \<open>
  One line of the batch mode on the items collected so far. \<open>Some\<close> with the items means that the mode goes
  on, \<open>None\<close> that it ends.
\<close>

definition batch_line ::
  "CliEnv \<Rightarrow> Platform \<Rightarrow> bytes list \<Rightarrow> (key \<times> bytes) list \<Rightarrow> interactiveCLI \<Rightarrow>
   (key \<times> bytes) list option \<times> cli_result" where
  "batch_line E P parts collected c =
     (let cmd = command_word E parts in
      if cmd = str ''put'' then
        (if length parts < 3 then (Some collected, tell ''usage: put <key> <value>'' [] c)
         else let k = parts ! 1; v = trim_quotes (join_blank (drop 2 parts))
              in (Some (AList.update k v collected), tell ''added'' [Txt k, Txt v] c))
      else if cmd = str ''get'' then
        (if length parts < 2 then (Some collected, tell ''usage: get <key1,key2,...>'' [] c)
         else (Some collected,
           on_db (\<lambda>db. BatchGet P (schedule E (wTicks (world db))) (split_at 0x2c (parts ! 1)) db)
             (\<lambda>res c1. (Done, fold (\<lambda>(k, v). say ''batch value'' [Txt k, Txt (preview 50 v)])
                           (visit P (cli_ticks c1) res) (say ''batch values'' [] c1)))
             (\<lambda>e. tell ''batch read failed'' [Failure e]) c))
      else if cmd = str ''execute'' then
        (if collected = [] then (Some [], tell ''nothing to execute'' [] c)
         else let (start, c1) = cli_now P (say ''executing'' [Num (int (length collected))] c);
                  (r, db2) = BatchPut P (visit P (cli_ticks c1) collected) (cliDB c1);
                  (stop, c2) = cli_now P (c1\<lparr>cliDB := db2\<rparr>)
              in case r of
                   Ok _ \<Rightarrow> (Some [], tell ''batch written'' [Duration (stop - start)] c2)
                 | Err e \<Rightarrow> (Some collected, tell ''batch write failed'' [Failure e] c2)
                 | Panic \<Rightarrow> (None, Crash, c1\<lparr>cliDB := db2\<rparr>)
                 | Blocked \<Rightarrow> (None, Hang, c1\<lparr>cliDB := db2\<rparr>))
      else if cmd = str ''cancel'' then (None, tell ''batch cancelled'' [] c)
      else if cmd = str ''help'' then (Some collected, tell ''batch help'' [] c)
      else (Some collected, tell ''unknown batch command'' [Txt cmd] c))"

text \<open>The loop over the lines that are still to be typed; the mode also ends with them.\<close>

fun batch_loop ::
  "CliEnv \<Rightarrow> Platform \<Rightarrow> bytes list \<Rightarrow> (key \<times> bytes) list \<Rightarrow> interactiveCLI \<Rightarrow> cli_result" where
  "batch_loop E P [] collected c = (Done, say ''batch prompt'' [] c)"
| "batch_loop E P (l # ls) collected c =
     (let c1 = (say ''batch prompt'' [] c)\<lparr>typed := ls\<rparr>; line = TrimSpace l
      in if line = [] then batch_loop E P ls collected c1
         else case batch_line E P (Fields line) collected c1 of
                (Some collected1, Done, c2) \<Rightarrow> batch_loop E P ls collected1 c2
              | (_, r) \<Rightarrow> r)"

definition handleBatch :: "CliEnv \<Rightarrow> Platform \<Rightarrow> interactiveCLI \<Rightarrow> cli_result" where
  "handleBatch E P c = batch_loop E P (typed c) [] (say ''batch mode'' [] c)"

section \<open>Transaction mode\<close>

definition on_tx :: "(GojiDB \<Rightarrow> Transaction outcome \<times> GojiDB) \<Rightarrow> string \<Rightarrow> string \<Rightarrow> interactiveCLI \<Rightarrow> cli_result" where
  "on_tx f ok bad c = on_db f (\<lambda>_. tell ok []) (\<lambda>e. tell bad [Failure e]) c"

definition tx_line ::
  "CliEnv \<Rightarrow> Platform \<Rightarrow> bytes list \<Rightarrow> Transaction \<Rightarrow> interactiveCLI \<Rightarrow> Transaction option \<times> cli_result" where
  "tx_line E P parts tx c =
     (let cmd = command_word E parts in
      if cmd = str ''put'' then
        (if length parts < 3 then (Some tx, tell ''usage: put <key> <value>'' [] c)
         else let k = parts ! 1; v = trim_quotes (join_blank (drop 2 parts))
              in (Some (tx_Put k v tx), tell ''put in transaction'' [Txt k, Txt v] c))
      else if cmd = str ''del'' \<or> cmd = str ''delete'' then
        (if length parts < 2 then (Some tx, tell ''usage: del <key>'' [] c)
         else (Some (tx_Delete (parts ! 1) tx), tell ''deleted in transaction'' [Txt (parts ! 1)] c))
      else if cmd = str ''commit'' then (None, on_tx (Commit P tx) ''committed'' ''commit failed'' c)
      else if cmd = str ''rollback'' then (None, on_tx (Rollback P tx) ''rolled back'' ''rollback failed'' c)
      else if cmd = str ''cancel'' \<or> cmd = str ''exit'' then
        (None, on_db (Rollback P tx) (\<lambda>_. tell ''transaction left'' []) (\<lambda>_. tell ''transaction left'' []) c)
      else if cmd = str ''help'' then (Some tx, tell ''transaction help'' [] c)
      else (Some tx, tell ''unknown transaction command'' [Txt cmd] c))"

text \<open>When the lines end, the mode is left without a commit or a rollback.\<close>

fun tx_loop :: "CliEnv \<Rightarrow> Platform \<Rightarrow> bytes list \<Rightarrow> Transaction \<Rightarrow> interactiveCLI \<Rightarrow> cli_result" where
  "tx_loop E P [] tx c = (Done, say ''transaction prompt'' [Txt (take 8 (txId tx))] c)"
| "tx_loop E P (l # ls) tx c =
     (let c1 = (say ''transaction prompt'' [Txt (take 8 (txId tx))] c)\<lparr>typed := ls\<rparr>; line = TrimSpace l
      in if line = [] then tx_loop E P ls tx c1
         else case tx_line E P (Fields line) tx c1 of
                (Some tx1, Done, c2) \<Rightarrow> tx_loop E P ls tx1 c2
              | (_, r) \<Rightarrow> r)"

definition handleTransaction :: "CliEnv \<Rightarrow> Platform \<Rightarrow> interactiveCLI \<Rightarrow> cli_result" where
  "handleTransaction E P c =
     (let tx = BeginTransaction (randomBytes E (cli_ticks c))
      in tx_loop E P (typed c) tx (say ''transaction begun'' [Txt (txId tx)] c))"

section \<open>Restoring and importing\<close>

definition handleRestore :: "CliEnv \<Rightarrow> Platform \<Rightarrow> bytes list \<Rightarrow> interactiveCLI \<Rightarrow> cli_result" where
  "handleRestore E P parts c0 =
     (if length parts < 2 then (Failed (Usage ''restore <backup_path>''), c0)
      else let sid = parts ! 1; c = say ''restore?'' [Txt sid] c0
      in case typed c of
           [] \<Rightarrow> (Done, c)
         | l # ls \<Rightarrow>
             let c1 = c\<lparr>typed := ls\<rparr>; answer = ToLower (unicodeLower E) (TrimSpace l)
             in if answer \<noteq> str ''y'' \<and> answer \<noteq> str ''yes'' then tell ''restore cancelled'' [] c1
                else let (start, c2) = cli_now P (say ''restoring'' [] c1)
                     in on_db (RestoreFromSnapshot P sid)
                          (\<lambda>_ c3. let (stop, c4) = cli_now P c3 in tell ''restored'' [Duration (stop - start)] c4)
                          (\<lambda>e. tell ''restore failed'' [Failure e]) c2)"

text \<open>Records of an import are stored one by one; a failing one is reported and passed over.\<close>

fun import_records ::
  "Platform \<Rightarrow> (key \<times> bytes) list \<Rightarrow> int \<Rightarrow> (int \<Rightarrow> interactiveCLI \<Rightarrow> cli_result) \<Rightarrow> interactiveCLI \<Rightarrow> cli_result" where
  "import_records P [] n done c = done n c"
| "import_records P ((k, v) # kvs) n done c =
     on_db (Put P k v) (\<lambda>_. import_records P kvs (n + 1) done)
       (\<lambda>e c1. import_records P kvs n done (say ''record not imported'' [Txt k, Failure e] c1)) c"

definition handleImport :: "CliEnv \<Rightarrow> Platform \<Rightarrow> bytes list \<Rightarrow> interactiveCLI \<Rightarrow> cli_result" where
  "handleImport E P parts c =
     (if length parts < 2 then (Failed (Usage ''import <file_path>''), c)
      else case map_of (outside c) (parts ! 1) of
             None \<Rightarrow> tell ''import file not read'' [Failure NoSuchFile] c
           | Some data \<Rightarrow>
               (case importUnmarshal E data of
                  None \<Rightarrow> tell ''import file not parsed'' [] c
                | Some m \<Rightarrow>
                    let n = int (length m); (start, c1) = cli_now P (say ''importing'' [Num n] c)
                    in import_records P (visit P (cli_ticks c1) m) 0
                         (\<lambda>count c2. let (stop, c3) = cli_now P c2
                                     in tell ''imported'' [Num count, Num n, Duration (stop - start)] c3) c1))"

section \<open>Snapshots\<close>

definition show_created :: "Snapshot \<Rightarrow> interactiveCLI \<Rightarrow> cli_result" where
  "show_created s = tell ''snapshot created'' [Txt (snapID s)]"

definition handleSnapshot :: "CliEnv \<Rightarrow> Platform \<Rightarrow> bytes list \<Rightarrow> interactiveCLI \<Rightarrow> cli_result" where
  "handleSnapshot E P parts c =
     (if length parts > 1 then
        (let cmd = command_word E (tl parts) in
         if cmd = str ''create'' then on_db (CreateSnapshot P (snapMarshal E)) show_created fail_with c
         else if cmd = str ''list'' then
           (let ss = ListSnapshots (snapUnmarshal E) (cliDB c)
            in (Done, fold (\<lambda>s. say ''snapshot'' [Txt (snapID s)]) ss (say ''snapshots found'' [Num (int (length ss))] c)))
         else if cmd = str ''restore'' then
           (if length parts < 3 then (Failed (Usage ''snapshot restore <id>''), c)
            else on_db (RestoreFromSnapshot P (parts ! 2)) (\<lambda>_ c1. (Done, c1)) fail_with c)
         else (Failed (UnknownSnapshotCommand cmd), c))
      else on_db (CreateSnapshot P (snapMarshal E)) show_created fail_with c)"

definition handleSnapshots :: "CliEnv \<Rightarrow> interactiveCLI \<Rightarrow> cli_result" where
  "handleSnapshots E c =
     (let ss = ListSnapshots (snapUnmarshal E) (cliDB c)
      in if ss = [] then tell ''no snapshots'' [] c
         else (Done, fold (\<lambda>s. say ''snapshot row''
                 [Txt (if length (snapID s) > 20 then take 20 (snapID s) @ dots else snapID s), At (snapTimestamp s),
                  Num (int (snapKeyCount s)), Amount (formatSize (int (snapDataSize s)))]) ss
                 (say ''snapshots found'' [Num (int (length ss))] c)))"

end
