(* ===== verification/CliMethods.thy ===== *)
theory CliMethods
  imports CliModes
begin

text \<open>
  The methods of \<open>cli.go\<close> that the command table does not use: an earlier version of the commands, in
  which the expiry is the last word, in seconds, and is taken out of the value. Errors are shown instead of
  returned.
\<close>

definition show_error :: "string \<Rightarrow> goerr \<Rightarrow> interactiveCLI \<Rightarrow> cli_result" where
  "show_error m e = tell m [Failure e]"

text \<open>\<open>time.Duration(sec) * time.Second\<close> is a 64-bit product.\<close>

definition seconds_duration :: "int \<Rightarrow> int" where
  "seconds_duration sec = sint (word_of_int (sec * 1000000000) :: 64 word)"

definition db_handlePut :: "Platform \<Rightarrow> bytes list \<Rightarrow> interactiveCLI \<Rightarrow> cli_result" where
  "db_handlePut P parts c =
     (if length parts < 3 then tell ''usage: put <key> <value> [ttl]'' [] c
      else let k = parts ! 1; rest = drop 2 parts;
               (v, ttl) = (if length rest > 1
                           then case parse_int (last rest) of
                                  Ok sec \<Rightarrow> (join_blank (butlast rest), seconds_duration sec)
                                | _ \<Rightarrow> (join_blank rest, 0)
                           else (join_blank rest, 0))
           in on_db (PutWithTTL P k (trim_quotes v) ttl)
                (\<lambda>_ c1. let c2 = say ''stored'' [Txt k] c1 in (Done, if ttl > 0 then say ''ttl'' [Duration ttl] c2 else c2))
                (show_error ''put failed'') c)"

text \<open>The remaining time of a key where it has one; errors are dropped.\<close>

definition with_ttl :: "Platform \<Rightarrow> key \<Rightarrow> (int \<Rightarrow> interactiveCLI \<Rightarrow> cli_result) \<Rightarrow> interactiveCLI \<Rightarrow> cli_result" where
  "with_ttl P k f c = on_db (GetTTL P k) f (\<lambda>_. f 0) c"

definition db_handleGet :: "Platform \<Rightarrow> bytes list \<Rightarrow> interactiveCLI \<Rightarrow> cli_result" where
  "db_handleGet P parts c =
     (if length parts < 2 then tell ''usage: get <key>'' [] c
      else let k = parts ! 1
           in on_db (Get P k)
                (\<lambda>v c1. with_ttl P k (\<lambda>d c2. (Done, if d > 0 then say ''ttl'' [Duration d] c2 else c2))
                          (say ''value'' [Txt k, Txt v] c1))
                (show_error ''get failed'') c)"

definition db_handleDelete :: "Platform \<Rightarrow> bytes list \<Rightarrow> interactiveCLI \<Rightarrow> cli_result" where
  "db_handleDelete P parts c =
     (if length parts < 2 then tell ''usage: delete <key>'' [] c
      else on_db (Delete P (parts ! 1)) (\<lambda>_. tell ''deleted'' [Txt (parts ! 1)]) (show_error ''delete failed'') c)"

text \<open>Rows of the table, and how many keys have no expiry and how many have one.\<close>

fun list_rows :: "Platform \<Rightarrow> key list \<Rightarrow> int \<Rightarrow> int \<Rightarrow> interactiveCLI \<Rightarrow> cli_result" where
  "list_rows P [] permanent expiring c = tell ''totals'' [Num permanent, Num expiring] c"
| "list_rows P (k # ks) permanent expiring c =
     on_db (Get P k)
       (\<lambda>v c1. with_ttl P k
          (\<lambda>d c2. if d > 0
                  then list_rows P ks permanent (expiring + 1)
                         (say ''row'' [Txt k, Duration (round_duration 1000000000 d), Txt (preview 20 v)] c2)
                  else list_rows P ks (permanent + 1) expiring (say ''row'' [Txt k, Label ''permanent'', Txt (preview 20 v)] c2)) c1)
       (\<lambda>e. list_rows P ks permanent expiring) c"

definition db_handleList :: "Platform \<Rightarrow> bytes list \<Rightarrow> interactiveCLI \<Rightarrow> cli_result" where
  "db_handleList P parts c =
     (let (ks, c1) = list_keys P c
      in if ks = [] then tell ''empty'' [] c1
         else let pattern = (if length parts > 1 then parts ! 1 else []);
                  found = filter (\<lambda>k. pattern = [] \<or> contains k pattern) ks
              in if found = [] then tell (if pattern \<noteq> [] then ''no key matches'' else ''empty'') [Txt pattern] c1
                 else list_rows P found 0 0 (say ''keys'' [Num (int (length found))] c1))"

definition db_handleTTL :: "Platform \<Rightarrow> bytes list \<Rightarrow> interactiveCLI \<Rightarrow> cli_result" where
  "db_handleTTL P parts c =
     (if length parts < 2 then tell ''usage: ttl <key>'' [] c
      else let k = parts ! 1
           in on_db (GetTTL P k)
                (\<lambda>d. if d = -1 then tell ''never expires'' [Txt k] else tell ''remaining'' [Txt k, Duration d])
                (show_error ''ttl failed'') c)"

definition db_handleSnapshot :: "CliEnv \<Rightarrow> Platform \<Rightarrow> interactiveCLI \<Rightarrow> cli_result" where
  "db_handleSnapshot E P c =
     (let (start, c1) = cli_now P (say ''creating snapshot'' [] c)
      in on_db (CreateSnapshot P (snapMarshal E))
           (\<lambda>s c2. let (stop, c3) = cli_now P c2
                   in tell ''snapshot details'' [Txt (snapID s), At (snapTimestamp s), Num (int (snapKeyCount s)),
                        Amount (formatSize (int (snapDataSize s))), Duration (round_duration 1000000 (stop - start))] c3)
           (show_error ''snapshot failed'') c1)"

text \<open>The statistics after the compaction are read through a nil pointer where metrics are off.\<close>

definition db_handleCompact :: "Platform \<Rightarrow> interactiveCLI \<Rightarrow> cli_result" where
  "db_handleCompact P c =
     (let (start, c1) = cli_now P (say ''compacting'' [] c); (ks, c2) = list_keys P c1
      in on_db (Compact P)
           (\<lambda>_ c3. let (stop, c4) = cli_now P c3; stats = GetMetrics (cliDB c4); (ks1, c5) = list_keys P c4
                   in case stats of
                        None \<Rightarrow> (Crash, c5)
                      | Some m \<Rightarrow> tell ''compacted'' [Duration (round_duration 1000000 (stop - start)),
                          Num (int (length ks1)), Num (sint (CompactionCount m))] c5)
           (show_error ''compaction failed'') c2)"

definition db_handleHistory :: "bytes list \<Rightarrow> interactiveCLI \<Rightarrow> cli_result" where
  "db_handleHistory hist c =
     (if hist = [] then tell ''no history'' [] (say ''history'' [] c)
      else let start = (if length hist > 10 then length hist - 10 else 0)
           in tell ''history length'' [Num (int (length hist))]
                (fold (\<lambda>(i, h). say ''history entry'' [Num i, Txt h]) (numbered start (drop start hist)) (say ''history'' [] c)))"

text \<open>Hits with their value and remaining time; case is ignored.\<close>

fun search_keys :: "CliEnv \<Rightarrow> Platform \<Rightarrow> bytes \<Rightarrow> bytes \<Rightarrow> key list \<Rightarrow> (key \<times> bytes \<times> int) list \<Rightarrow>
    ((key \<times> bytes \<times> int) list \<Rightarrow> interactiveCLI \<Rightarrow> cli_result) \<Rightarrow> interactiveCLI \<Rightarrow> cli_result" where
  "search_keys E P p vp [] found done c = done found c"
| "search_keys E P p vp (k # ks) found done c =
     (let low = ToLower (unicodeLower E) in
      if \<not> contains (low k) (low p) then search_keys E P p vp ks found done c
      else on_db (Get P k)
        (\<lambda>v c1. if vp \<noteq> [] \<and> \<not> contains (low v) (low vp) then search_keys E P p vp ks found done c1
                else with_ttl P k (\<lambda>d. search_keys E P p vp ks (found @ [(k, v, d)]) done) c1)
        (\<lambda>e. search_keys E P p vp ks found done) c)"

definition db_handleSearch :: "CliEnv \<Rightarrow> Platform \<Rightarrow> bytes list \<Rightarrow> interactiveCLI \<Rightarrow> cli_result" where
  "db_handleSearch E P parts c =
     (if length parts < 2 then tell ''usage: search <pattern> [value_pattern]'' [] c
      else let vp = (if length parts > 2 then join_blank (drop 2 parts) else []); (ks, c1) = list_keys P c
           in if ks = [] then tell ''empty'' [] c1
              else search_keys E P (parts ! 1) vp ks []
                (\<lambda>found c2.
                   if found = [] then tell ''nothing matches'' [] c2
                   else (Done, fold (\<lambda>(i, k, v, d). say ''match'' ([Num i, Txt k, Txt (preview 50 v)] @ (if d > 0 then [Duration d] else [])))
                                 (numbered 0 found) (say ''matches'' [Num (int (length found))] c2))) c1)"

definition bench_key :: "nat \<Rightarrow> key" where
  "bench_key i = str ''bench:write:'' @ show_nat i"

definition db_handleBenchmark :: "Platform \<Rightarrow> bytes list \<Rightarrow> interactiveCLI \<Rightarrow> cli_result" where
  "db_handleBenchmark P parts c =
     (let n = (if length parts > 1 then case parse_int (parts ! 1) of Ok v \<Rightarrow> if v > 0 then nat v else 1000 | _ \<Rightarrow> 1000 else 1000);
          (start, c1) = cli_now P (say ''benchmark'' [Num (int n)] c)
      in each_db (map (\<lambda>i. Put P (bench_key i) (str ''benchmark data '' @ show_nat i)) [0..<n])
           (\<lambda>c2. let (written, c3) = cli_now P c2; (start2, c4) = cli_now P c3
                 in each_db (map (\<lambda>i. Get P (bench_key i)) [0..<n])
                      (\<lambda>c5. let (read, c6) = cli_now P c5
                            in each_db (map (\<lambda>i. Delete P (bench_key i)) [0..<n])
                                 (tell ''results'' [Duration (round_duration 1000000 (written - start)),
                                    Rate (quotient (int n) (seconds (written - start))),
                                    Duration (round_duration 1000000 (read - start2)),
                                    Rate (quotient (int n) (seconds (read - start2)))]) c6) c4) c1)"

end
