(* ===== verification/CliReports.thy ===== *)
theory CliReports
  imports Cli
begin

text \<open>The commands of \<open>cli.go\<close> that report on the database: statistics, health, export, monitor, the log.\<close>

section \<open>Statistics\<close>

definition active_amount :: "interactiveCLI \<Rightarrow> (bytes \<times> nat) option" where
  "active_amount c =
     (case activeFile (cliDB c) of
        None \<Rightarrow> None
      | Some f \<Rightarrow> Some (f, length (db_file f (cliDB c))))"

definition int_of :: "64 word \<Rightarrow> shown_value" where
  "int_of w = Num (sint w)"

definition zero_metrics :: "instant \<Rightarrow> Metrics" where
  "zero_metrics t = \<lparr>TotalWrites = 0, TotalReads = 0, TotalDeletes = 0, KeyCount = 0, DataSize = 0, CompressionRatio = 0,
     CacheHits = 0, CacheMisses = 0, ExpiredKeyCount = 0, CompactionCount = 0, StartTime = t\<rparr>"

definition rating :: "real \<Rightarrow> string" where
  "rating qps =
     (if qps > 10000 then ''extreme'' else if qps > 1000 then ''excellent'' else if qps > 100 then ''good'' else ''normal'')"

text \<open>Without metrics the panel shows zeros.\<close>

definition handleStats :: "Platform \<Rightarrow> interactiveCLI \<Rightarrow> cli_result" where
  "handleStats P c =
     (let stats = GetMetrics (cliDB c); (ks, c1) = list_keys P c;
          (t0, c2) = cli_now P c1; (t1, c3) = cli_now P c2; (t2, c4) = cli_now P c3;
          m = (case stats of Some x \<Rightarrow> x | None \<Rightarrow> zero_metrics t2);
          uptime = (if stats = None then t1 - t0 else t2 - StartTime m);
          rate = (case stats of None \<Rightarrow> 0 | Some x \<Rightarrow> (case hit_rate x of Some r \<Rightarrow> r | None \<Rightarrow> 0));
          qps = (if stats \<noteq> None \<and> seconds uptime > 0 then real_of_int (sint (total_ops m)) / seconds uptime else 0);
          c5 = say ''overview'' [Num (int (length ks)), Duration (round_duration 1000000000 uptime), int_of (TotalReads m),
                 int_of (TotalWrites m), int_of (TotalDeletes m), int_of (CompactionCount m)] c4;
          c6 = say ''performance'' [int_of (CacheHits m), int_of (CacheMisses m), Rate (Some rate), Rate (Some qps),
                 int_of (ExpiredKeyCount m), Rate (Some (real_of_int (sint (CompressionRatio m)) / 100))] c5;
          c7 = (case active_amount c6 of
                  None \<Rightarrow> c6
                | Some (f, n) \<Rightarrow> say ''active file'' [Txt f, Amount (formatSize (int n))] c6)
      in tell ''rating'' [Label (rating qps)] c7)"

section \<open>Health\<close>

text \<open>A quotient below a bound; a division by zero gives an infinity or no number at all.\<close>

definition below :: "int \<Rightarrow> real \<Rightarrow> real \<Rightarrow> bool" where
  "below n d bound \<longleftrightarrow> (case quotient n d of Some q \<Rightarrow> q < bound | None \<Rightarrow> n < 0)"

definition cache_hit_rate :: "Metrics \<Rightarrow> real" where
  "cache_hit_rate m = (case hit_rate m of Some r \<Rightarrow> r | None \<Rightarrow> 0)"

text \<open>The deductions of the health score with their reasons, in the order in which they are looked for.\<close>

definition health_checks :: "Metrics \<Rightarrow> nat \<Rightarrow> int \<Rightarrow> MemStats \<Rightarrow> (bool \<times> int \<times> string) list" where
  "health_checks m keys uptime mem =
     [(below (sint (total_ops m)) (seconds uptime) 50, 15, ''few operations''),
      (keys = 0, 5, ''empty''),
      (sint (ExpiredKeyCount m) > int (keys div 3), 10, ''many expired keys''),
      (cache_hit_rate m < 80, 10, ''low hit rate''),
      (Alloc mem > Sys mem div 2, 5, ''much memory'')]"

definition health_score :: "(bool \<times> int \<times> string) list \<Rightarrow> int" where
  "health_score xs = foldl (\<lambda>s (b, n, _). if b then s - n else s) 100 xs"

definition health_issues :: "(bool \<times> int \<times> string) list \<Rightarrow> string list" where
  "health_issues xs = map (\<lambda>(b, n, i). i) (filter fst xs)"

definition health_status :: "int \<Rightarrow> string" where
  "health_status s =
     (if s \<ge> 90 then ''excellent'' else if s \<ge> 75 then ''good'' else if s \<ge> 60 then ''fair'' else ''attention'')"

text \<open>A nil pointer is read where metrics are off.\<close>

definition handleHealth :: "CliEnv \<Rightarrow> Platform \<Rightarrow> interactiveCLI \<Rightarrow> cli_result" where
  "handleHealth E P c0 =
     (let (start, c) = cli_now P (say ''health'' [] c0); mem = memStats E (cli_ticks c);
          (ks, c1) = list_keys P c; n = length ks
      in case GetMetrics (cliDB c) of
           None \<Rightarrow> (Crash, c1)
         | Some m \<Rightarrow>
             let (t, c2) = cli_now P c1; uptime = t - StartTime m; checks = health_checks m n uptime mem;
                 score = health_score checks; (t2, c3) = cli_now P c2;
                 c4 = say ''health overview'' [Label (health_status score), Num score,
                        Duration (round_duration 1000000 (t2 - start))] c3;
                 c5 = say ''figures'' [Num (int n), Rate (quotient (sint (total_ops m)) (seconds uptime)),
                        Rate (Some (cache_hit_rate m)), Duration (round_duration 1000000000 uptime),
                        Amount (formatSize (case active_amount c of None \<Rightarrow> 0 | Some (f, k) \<Rightarrow> int k))] c4;
                 c6 = say ''memory'' [Amount (formatSize (int (Alloc mem))), Amount (formatSize (int (Sys mem))),
                        Num (int (NumGC mem))] c5
             in if health_issues checks = [] then tell ''no issues'' [] c6
                else (Done, fold (\<lambda>(i, s). say ''issue'' [Num i, Label s]) (numbered 0 (health_issues checks)) c6))"

text \<open>The score is between 55 and 100, and 100 exactly when nothing was found.\<close>

lemma health_score_bounds:
  "55 \<le> health_score (health_checks m n u mem) \<and> health_score (health_checks m n u mem) \<le> 100 \<and>
   (health_score (health_checks m n u mem) = 100 \<longleftrightarrow> health_issues (health_checks m n u mem) = [])"
  by (simp add: health_checks_def health_score_def health_issues_def)

section \<open>Export\<close>

definition export_name :: "CliEnv \<Rightarrow> instant \<Rightarrow> bytes" where
  "export_name E t = str ''gojidb_metrics_'' @ fileStamp E t @ str ''.json''"

definition handleExport :: "CliEnv \<Rightarrow> Platform \<Rightarrow> interactiveCLI \<Rightarrow> cli_result" where
  "handleExport E P c0 =
     (let (ks, c) = list_keys P c0; n = length ks;
          sz = (case active_amount c of None \<Rightarrow> 0 | Some (f, k) \<Rightarrow> k); (t, c1) = cli_now P c
      in case GetMetrics (cliDB c0) of
           None \<Rightarrow> (Crash, c1)
         | Some m \<Rightarrow>
             let (t2, c2) = cli_now P c1;
                 ex = \<lparr>exAt = t, exUptime = t2 - StartTime m, exKeys = n, exMetrics = m, exSize = sz,
                       exTTL = 0 < TTLCheckInterval (config (cliDB c2))\<rparr>;
                 (t3, c3) = cli_now P c2; f = export_name E t3
             in case exportMarshal E ex of
                  None \<Rightarrow> tell ''export not encoded'' [] c3
                | Some data \<Rightarrow>
                    if \<not> canWrite E f then tell ''export not written'' [] c3
                    else let c4 = c3\<lparr>outside := write_file E f data (outside c3)\<rparr>; (t4, c5) = cli_now P c4
                         in tell ''exported'' [Txt f, Amount (formatSize (int (length data))), Num (int n), At t4] c5)"

section \<open>The log\<close>

definition wal_on :: "interactiveCLI \<Rightarrow> WALManager option" where
  "wal_on c = (if EnableWAL (config (cliDB c)) then wal (cliDB c) else None)"

text \<open>The size of the log, 0 where it cannot be read.\<close>

definition wal_size :: "interactiveCLI \<Rightarrow> nat" where
  "wal_size c =
     (case wal_on c of
        None \<Rightarrow> 0
      | Some m \<Rightarrow> (case GetWALSize m (world (cliDB c)) of Ok n \<Rightarrow> n | _ \<Rightarrow> 0))"

definition wal_path :: "interactiveCLI \<Rightarrow> bytes" where
  "wal_path c = DataPath (config (cliDB c)) @ str ''/wal.log''"

definition handleWALStatus :: "interactiveCLI \<Rightarrow> cli_result" where
  "handleWALStatus c =
     (let cfg = config (cliDB c); on = (wal_on c \<noteq> None)
      in tell ''wal status'' [Flag on, Txt (if on then wal_path c else []), Amount (formatSize (int (wal_size c))),
           Flag (WALSyncWrites cfg), Duration (WALFlushInterval cfg), Amount (formatSize (WALMaxSize cfg))] c)"

definition handleWALStats :: "Platform \<Rightarrow> interactiveCLI \<Rightarrow> cli_result" where
  "handleWALStats P c =
     (if wal_on c = None then tell ''wal off'' [] c
      else let n = wal_size c; (t, c1) = cli_now P c
           in case GetMetrics (cliDB c) of
                None \<Rightarrow> (Crash, c)
              | Some m \<Rightarrow>
                  let uptime = t - StartTime m
                  in tell ''wal statistics'' [int_of (TotalWrites m), Rate (quotient (sint (TotalWrites m)) (seconds uptime)),
                       Amount (formatSize (int n)), Duration (round_duration 1000000000 uptime)] c1)"

definition checkpoint_db :: "Platform \<Rightarrow> WALManager \<Rightarrow> GojiDB \<Rightarrow> unit result" where
  "checkpoint_db P m db =
     (let (r, m1, w1) = Checkpoint P m (world db) in (r, db\<lparr>wal := Some m1, world := w1\<rparr>))"

definition handleWALCheckpoint :: "Platform \<Rightarrow> interactiveCLI \<Rightarrow> cli_result" where
  "handleWALCheckpoint P c =
     (case wal_on c of
        None \<Rightarrow> tell ''wal off'' [] c
      | Some m \<Rightarrow>
          let before = wal_size c; (start, c1) = cli_now P (say ''checkpoint'' [] c)
          in on_db (checkpoint_db P m)
               (\<lambda>_ c2. let after = wal_size c2; (stop, c3) = cli_now P c2
                       in tell ''checkpoint done'' [Amount (formatSize (int before - int after)), Duration (stop - start)] c3)
               (\<lambda>e. tell ''checkpoint failed'' [Failure e]) c1)"

text \<open>Nothing is switched; the steps to do so by hand are shown.\<close>

definition handleWALToggle :: "CliEnv \<Rightarrow> bytes list \<Rightarrow> interactiveCLI \<Rightarrow> cli_result" where
  "handleWALToggle E parts c =
     (if parts = [] then tell ''usage: wal toggle [on|off]'' [] c
      else let action = ToLower (unicodeLower E) (hd parts); now = EnableWAL (config (cliDB c)); new = (action = str ''on'')
      in if action \<noteq> str ''on'' \<and> action \<noteq> str ''off'' then tell ''neither on nor off'' [] c
         else if now = new then tell ''already'' [Txt action] c
         else tell ''edit the configuration and restart'' [Flag now, Flag new] c)"

definition handleWALConfig :: "interactiveCLI \<Rightarrow> cli_result" where
  "handleWALConfig c =
     (let cfg = config (cliDB c)
      in tell ''wal configuration'' [Flag (EnableWAL cfg), Txt (DataPath cfg), Txt (wal_path c), Flag (WALSyncWrites cfg),
           Duration (WALFlushInterval cfg), Amount (formatSize (WALMaxSize cfg))] c)"

definition handleWAL :: "CliEnv \<Rightarrow> Platform \<Rightarrow> bytes list \<Rightarrow> interactiveCLI \<Rightarrow> cli_result" where
  "handleWAL E P parts c =
     (if length parts < 2 then tell ''wal help'' [] c
      else let cmd = ToLower (unicodeLower E) (parts ! 1) in
      if cmd = str ''status'' \<or> cmd = str ''info'' then handleWALStatus c
      else if cmd = str ''checkpoint'' \<or> cmd = str ''check'' then handleWALCheckpoint P c
      else if cmd = str ''stats'' \<or> cmd = str ''statistics'' then handleWALStats P c
      else if cmd = str ''toggle'' then handleWALToggle E (drop 2 parts) c
      else if cmd = str ''config'' then handleWALConfig c
      else tell ''wal help'' [] (say ''unknown wal command'' [Txt cmd] c))"

section \<open>Monitor and system information\<close>

text \<open>One tick of the monitor.\<close>

definition monitor_tick :: "CliEnv \<Rightarrow> Platform \<Rightarrow> interactiveCLI \<Rightarrow> cli_result" where
  "monitor_tick E P c =
     (let (t, c1) = cli_now P c; stats = GetMetrics (cliDB c1); (ks, c2) = list_keys P (say ''monitor'' [At t] c1);
          mem = memStats E (cli_ticks c2);
          c3 = say ''monitor figures'' [Num (int (length ks)), Amount (formatSize (int (Alloc mem))), Flag (wal_on c2 \<noteq> None),
                 Amount (formatSize (int (wal_size c2)))] c2
      in case stats of
           None \<Rightarrow> (Crash, c3)
         | Some m \<Rightarrow> tell ''monitor metrics'' [int_of (TotalReads m), int_of (TotalWrites m), int_of (CacheHits m)] c3)"

text \<open>The loop has no end: the first tick panics when metrics are off, else it goes on until the process is stopped.\<close>

definition handleMonitor :: "CliEnv \<Rightarrow> Platform \<Rightarrow> interactiveCLI \<Rightarrow> cli_result" where
  "handleMonitor E P c =
     (case monitor_tick E P (say ''monitor mode'' [] c) of (Crash, c1) \<Rightarrow> (Crash, c1) | (_, c1) \<Rightarrow> (Hang, c1))"

lemma monitor_tick_again:
  "fst (monitor_tick E P c) = (if EnableMetrics (config (cliDB c)) then Done else Crash)"
  "config (cliDB (snd (monitor_tick E P c))) = config (cliDB c)"
  by (simp_all add: monitor_tick_def Let_def cli_now_def list_keys_def ListKeys_def db_now_eq GetMetrics_def tell_def say_def
      split: prod.split)

definition handleInfo :: "CliEnv \<Rightarrow> Platform \<Rightarrow> interactiveCLI \<Rightarrow> cli_result" where
  "handleInfo E P c =
     tell ''system'' [Label (getOSName (goos E)), Label (getArchName (goarch E)), Txt (goVersion E), Txt (compiler E),
       Num (int (numCPU P)), Num (int (numGoroutine E (cli_ticks c)))] c"

definition handleClear :: "interactiveCLI \<Rightarrow> cli_result" where
  "handleClear c = tell ''welcome'' [] (say ''screen cleared'' [] (say ''clearing'' [] c))"

end
