(* ===== verification/CliBenchmark.thy ===== *)
theory CliBenchmark
  imports Cli
begin

text \<open>
  The \<open>benchmark\<close> command of \<open>cli.go\<close>: ten runs of \<open>go test\<close>, whose output is an argument, are read, graded
  and summed up. The names of the tests and grades are translated. A rate of \<open>None\<close> is infinite, which is
  what a time of zero or one that is no number gives; it counts as the largest integer.
\<close>

section \<open>Reading the output\<close>

text \<open>\<open>strconv.ParseFloat\<close> of a decimal number, \<open>None\<close> for an error.\<close>

definition exponent_part :: "bytes \<Rightarrow> int option" where
  "exponent_part s =
     (if s = [] then Some 0
      else if hd s \<noteq> 0x65 \<and> hd s \<noteq> 0x45 then None
      else case parse_int (tl s) of Ok e \<Rightarrow> Some e | _ \<Rightarrow> None)"

definition ParseFloat :: "bytes \<Rightarrow> real option" where
  "ParseFloat s0 =
     (let neg = (s0 \<noteq> [] \<and> hd s0 = 0x2d); s = (if s0 \<noteq> [] \<and> (hd s0 = 0x2d \<or> hd s0 = 0x2b) then tl s0 else s0);
          whole = takeWhile is_digit s; s1 = dropWhile is_digit s; point = (s1 \<noteq> [] \<and> hd s1 = 0x2e);
          fraction = (if point then takeWhile is_digit (tl s1) else []); s2 = (if point then dropWhile is_digit (tl s1) else s1)
      in if whole @ fraction = [] then None
         else case exponent_part s2 of
                None \<Rightarrow> None
              | Some e \<Rightarrow>
                  let v = real (digits_value (whole @ fraction)) / 10 ^ length fraction
                          * (if e \<ge> 0 then 10 ^ nat e else 1 / 10 ^ nat (- e))
                  in Some (if neg then - v else v))"

definition rate_of_time :: "real \<Rightarrow> real option" where
  "rate_of_time ns = quotient 1000000000 ns"

definition is_result_line :: "bytes \<Rightarrow> bool" where
  "is_result_line line \<longleftrightarrow> contains line (str ''Benchmark'') \<and> contains line (str ''ns/op'')"

text \<open>The rate of the first result line with three words; zero when there is none.\<close>

fun bench_rate :: "bytes list \<Rightarrow> real option" where
  "bench_rate [] = Some 0"
| "bench_rate (l # ls) =
     (let line = TrimSpace l; parts = Fields line
      in if is_result_line line \<and> length parts \<ge> 3
         then rate_of_time (case ParseFloat (trim_suffix (parts ! 2) (str ''ns/op'')) of Some v \<Rightarrow> v | None \<Rightarrow> 0)
         else bench_rate ls)"

text \<open>The helper that is not used: an unreadable time is passed over, and there is a fixed answer for no result.\<close>

fun first_result :: "bytes list \<Rightarrow> real option \<times> int" where
  "first_result [] = (Some 12345, 1000000)"
| "first_result (l # ls) =
     (let line = TrimSpace l; parts = Fields line
      in if is_result_line line
         then if length parts \<ge> 3
              then case ParseFloat (trim_suffix (parts ! 2) (str ''ns/op'')) of
                     None \<Rightarrow> first_result ls
                   | Some v \<Rightarrow> (rate_of_time v, go_trunc v)
              else (Some 12345, 1000000)
         else first_result ls)"

definition parseBenchmarkOutput :: "bytes \<Rightarrow> real option \<times> int" where
  "parseBenchmarkOutput out = first_result (split_at 0x0a out)"

section \<open>Grades\<close>

definition bench_tests :: "(string \<times> string) list" where
  "bench_tests =
     [(''write'', ''BenchmarkPut''), (''read'', ''BenchmarkGet''), (''batch write'', ''BenchmarkBatchPut''),
      (''batch read'', ''BenchmarkBatchGet''), (''delete'', ''BenchmarkDelete''),
      (''concurrent write'', ''BenchmarkConcurrentPut''), (''concurrent read'', ''BenchmarkConcurrentGet''),
      (''transaction write'', ''BenchmarkTransactionPut''), (''compression'', ''BenchmarkCompressionSnappy''),
      (''file rotation'', ''BenchmarkFileRotation'')]"

definition thresholds :: "string \<Rightarrow> real list" where
  "thresholds name =
     (if name = ''write'' \<or> name = ''delete'' then [100000, 50000, 10000, 1000]
      else if name = ''read'' then [500000, 100000, 50000, 10000]
      else if name = ''batch write'' \<or> name = ''batch read'' then [50000, 20000, 5000, 1000]
      else if name = ''concurrent write'' \<or> name = ''concurrent read'' then [80000, 40000, 15000, 3000]
      else if name = ''transaction write'' then [30000, 15000, 5000, 1000]
      else if name = ''compression'' then [20000, 10000, 5000, 1000]
      else if name = ''file rotation'' then [15000, 8000, 3000, 800]
      else [100000, 50000, 10000, 1000])"

definition at_least :: "real option \<Rightarrow> real \<Rightarrow> bool" where
  "at_least r t \<longleftrightarrow> (case r of None \<Rightarrow> True | Some x \<Rightarrow> x \<ge> t)"

text \<open>The grade with the length of its bar.\<close>

definition grade_of :: "string \<Rightarrow> real option \<Rightarrow> string \<times> int" where
  "grade_of name r =
     (let ts = thresholds name in
      if at_least r (ts ! 0) then (''superb'', 40)
      else if at_least r (ts ! 1) then (''excellent'', 32)
      else if at_least r (ts ! 2) then (''good'', 24)
      else if at_least r (ts ! 3) then (''fair'', 16)
      else (''poor'', 8))"

definition getPerformanceGrade :: "real option \<Rightarrow> string" where
  "getPerformanceGrade r =
     (if at_least r 100000 then ''excellent'' else if at_least r 10000 then ''good''
      else if at_least r 1000 then ''fair'' else if at_least r 100 then ''poor'' else ''bad'')"

definition int_rate :: "real option \<Rightarrow> int" where
  "int_rate r = (case r of None \<Rightarrow> 2 ^ 63 - 1 | Some x \<Rightarrow> go_trunc x)"

definition max_rate :: "real option \<Rightarrow> real option \<Rightarrow> real option" where
  "max_rate a b = (case a of None \<Rightarrow> None | Some x \<Rightarrow> (case b of None \<Rightarrow> None | Some y \<Rightarrow> Some (if x > y then x else y)))"

definition min_rate :: "real option \<Rightarrow> real option \<Rightarrow> real option" where
  "min_rate a b = (case a of None \<Rightarrow> b | Some x \<Rightarrow> (case b of None \<Rightarrow> Some x | Some y \<Rightarrow> Some (if x < y then x else y)))"

section \<open>The command\<close>

record BenchResult =
  brName :: string
  brRate :: "real option"
  brLatency :: int
  brGrade :: string

text \<open>One test: the message, and the result with the time it took, unless it failed or printed no result.\<close>

definition run_test :: "CliEnv \<Rightarrow> Platform \<Rightarrow> string \<times> string \<Rightarrow> interactiveCLI \<Rightarrow> (BenchResult \<times> int) option \<times> interactiveCLI" where
  "run_test E P t c =
     (let (name, cmd) = t; (start, c1) = cli_now P (say ''test'' [Label name] c);
          out = goTest E (cli_ticks c1) cmd; (stop, c2) = cli_now P c1
      in case out of
           None \<Rightarrow> (None, say ''test failed'' [] c2)
         | Some text \<Rightarrow>
             let r = bench_rate (split_at 0x0a text); (g, bar) = grade_of name r
             in if r = Some 0 then (None, say ''no data'' [] c2)
                else (Some (\<lparr>brName = name, brRate = r,
                              brLatency = (case r of None \<Rightarrow> 0 | Some x \<Rightarrow> go_trunc (1000000000 / x)), brGrade = g\<rparr>, stop - start),
                      say ''test result'' [Label g, Rate r, Num bar] c2))"

fun run_tests :: "CliEnv \<Rightarrow> Platform \<Rightarrow> (string \<times> string) list \<Rightarrow> interactiveCLI \<Rightarrow> (BenchResult \<times> int) list \<times> interactiveCLI" where
  "run_tests E P [] c = ([], c)"
| "run_tests E P (t # ts) c =
     (let (r, c1) = run_test E P t c; (rs, c2) = run_tests E P ts c1
      in (case r of None \<Rightarrow> rs | Some x \<Rightarrow> x # rs, c2))"

text \<open>The summary counts every grade it does not name as poor, also the third best.\<close>

definition count_grades :: "string list \<Rightarrow> nat \<times> nat \<times> nat \<times> nat" where
  "count_grades gs =
     (let f = (\<lambda>p. length (filter p gs))
      in (f (\<lambda>g. g = ''superb''), f (\<lambda>g. g = ''excellent''), f (\<lambda>g. g = ''fair''),
          f (\<lambda>g. g \<noteq> ''superb'' \<and> g \<noteq> ''excellent'' \<and> g \<noteq> ''fair'')))"

definition radar_bar :: "real option \<Rightarrow> int" where
  "radar_bar r = (case r of None \<Rightarrow> 30 | Some x \<Rightarrow> min 30 (go_trunc (log 10 (x + 1) * 5)))"

definition percent :: "nat \<Rightarrow> nat \<Rightarrow> shown_value" where
  "percent n m = Rate (Some (real (n * 100) / real m))"

definition handleBenchmark :: "CliEnv \<Rightarrow> Platform \<Rightarrow> interactiveCLI \<Rightarrow> cli_result" where
  "handleBenchmark E P c =
     (let (timed, c1) = run_tests E P bench_tests (say ''benchmark'' [] c); results = map fst timed; n = length results
      in if n = 0 then tell ''benchmark failed'' [] c1
         else let (superb, excellent, fair, poor) = count_grades (map brGrade results);
                  rates = map brRate results; total = sum_list (map int_rate rates);
                  c2 = fold (\<lambda>r. say ''radar'' [Num (radar_bar (brRate r)), Num (30 - radar_bar (brRate r)), Rate (brRate r)]) results c1;
                  c3 = say ''grades'' [Num (int superb), percent superb n, Num (int excellent), percent excellent n,
                         Num (int fair), percent fair n, Num (int poor), percent poor n] c2;
                  c4 = say ''summary'' [Rate (Some (real_of_int total / real n)), Rate (foldl min_rate (Some 1000000000) rates),
                         Rate (foldl max_rate (Some 0) rates), Num (int n), Num (int (length bench_tests)),
                         Duration (round_duration 1000000000 (sum_list (map snd timed)))] c3;
                  c5 = (if superb = 0 then say ''advice: tune the storage'' [] c4 else c4);
                  c6 = (if poor > 0 then say ''advice: items to improve'' [Num (int poor)] c5 else c5)
              in tell ''advice'' [] c6)"

text \<open>The summary that is not used grades by fixed bounds.\<close>

definition printBenchmarkSummary :: "real option list \<Rightarrow> int \<Rightarrow> interactiveCLI \<Rightarrow> cli_result" where
  "printBenchmarkSummary rates elapsed c0 =
     (let c = say ''benchmark summary'' [] c0; num = (\<lambda>p. Num (int (length (filter p rates)))) in
      if rates = [] then tell ''no data'' [] c
      else let c1 = say ''distribution'' [num (\<lambda>r. at_least r 100000), num (\<lambda>r. at_least r 10000 \<and> \<not> at_least r 100000),
                          num (\<lambda>r. at_least r 1000 \<and> \<not> at_least r 10000), num (\<lambda>r. \<not> at_least r 1000)] c;
               c2 = say ''range'' [Rate (foldl min_rate (Some 1000000000) rates), Rate (foldl max_rate (Some 0) rates),
                      Num (int (length rates)), Duration (round_duration 1000000 elapsed)] c1;
               c3 = (if filter (\<lambda>r. at_least r 100000) rates = [] then say ''advice: tune the storage'' [] c2 else c2);
               c4 = (if filter (\<lambda>r. \<not> at_least r 1000) rates \<noteq> [] then say ''advice: items to improve'' [] c3 else c3)
           in tell ''advice'' [] c4)"

text \<open>Every result has one grade, and the four counts add up.\<close>

lemma count_grades_sum:
  assumes "count_grades gs = (a, b, f, p)" shows "a + b + f + p = length gs"
  using assms by (induction gs arbitrary: a b f p) (auto simp: count_grades_def Let_def)

end
