(* ===== verification/CliShell.thy ===== *)
theory CliShell
  imports CliMethods CliReports CliBenchmark "HOL-Library.Sublist"
begin

text \<open>The command table of \<open>cli.go\<close>, one command line, and the loop of the interactive mode.\<close>

type_synonym commandHandler = "bytes list \<Rightarrow> interactiveCLI \<Rightarrow> cli_result"

definition handleHelp :: "interactiveCLI \<Rightarrow> cli_result" where
  "handleHelp = tell ''help'' []"

definition handleHistory :: "interactiveCLI \<Rightarrow> cli_result" where
  "handleHistory c = (Failed HistoryBuiltIn, c)"

definition handleExit :: "interactiveCLI \<Rightarrow> cli_result" where
  "handleExit c = (Leave, say ''good bye'' [] c)"

definition commandRegistry :: "CliEnv \<Rightarrow> Platform \<Rightarrow> (bytes \<times> commandHandler) list" where
  "commandRegistry E P =
     map (\<lambda>(name, h). (str name, h))
       [(''help'', \<lambda>ps. handleHelp), (''h'', \<lambda>ps. handleHelp), (''?'', \<lambda>ps. handleHelp),
        (''put'', handlePut P), (''set'', handlePut P), (''get'', handleGet P),
        (''delete'', handleDelete P), (''del'', handleDelete P), (''rm'', handleDelete P),
        (''list'', handleList P), (''ls'', handleList P), (''ttl'', handleTTL P),
        (''snapshot'', handleSnapshot E P), (''snap'', handleSnapshot E P),
        (''stats'', \<lambda>ps. handleStats P), (''status'', \<lambda>ps. handleStats P),
        (''compact'', handleCompact P), (''clear'', \<lambda>ps. handleClear), (''info'', \<lambda>ps. handleInfo E P),
        (''history'', \<lambda>ps. handleHistory), (''batch'', \<lambda>ps. handleBatch E P), (''export'', \<lambda>ps. handleExport E P),
        (''transaction'', \<lambda>ps. handleTransaction E P), (''tx'', \<lambda>ps. handleTransaction E P),
        (''snapshots'', \<lambda>ps. handleSnapshots E), (''restore'', handleRestore E P), (''health'', \<lambda>ps. handleHealth E P),
        (''search'', handleSearch P), (''import'', handleImport E P), (''benchmark'', \<lambda>ps. handleBenchmark E P),
        (''monitor'', \<lambda>ps. handleMonitor E P), (''wal'', handleWAL E P),
        (''exit'', \<lambda>ps. handleExit), (''quit'', \<lambda>ps. handleExit), (''q'', \<lambda>ps. handleExit)]"

definition exit_words :: "bytes list" where
  "exit_words = map str [''exit'', ''quit'', ''q'']"

text \<open>Leaving is not entered in the history; an unknown command is.\<close>

definition executeCommand :: "CliEnv \<Rightarrow> Platform \<Rightarrow> bytes \<Rightarrow> interactiveCLI \<Rightarrow> cli_result" where
  "executeCommand E P line c =
     (let parts = Fields line
      in if parts = [] then (Done, c)
         else let cmd = command_word E parts;
                  c1 = (if cmd \<in> set exit_words then c else c\<lparr>entries := history_add line (entries c)\<rparr>)
              in case map_of (commandRegistry E P) cmd of
                   Some handler \<Rightarrow> handler parts c1
                 | None \<Rightarrow> (Failed (UnknownCommand cmd), c1))"

section \<open>What a command leaves alone\<close>

text \<open>
  A command does not touch the history. One that may read lines (\<open>rd\<close>) takes them from the front; the others
  read none and do not end the session.
\<close>

definition keeps :: "bool \<Rightarrow> interactiveCLI \<Rightarrow> interactiveCLI \<Rightarrow> bool" where
  "keeps rd a c \<longleftrightarrow> suffix (typed c) (typed a) \<and> entries c = entries a \<and> (rd \<or> typed c = typed a)"

definition kept :: "bool \<Rightarrow> interactiveCLI \<Rightarrow> cli_result \<Rightarrow> bool" where
  "kept rd a q \<longleftrightarrow> keeps rd a (snd q) \<and> (rd \<or> fst q \<noteq> Leave)"

text \<open>One rule for each form a handler is built from; the general case distinctions come last.\<close>

named_theorems keeps_rules
named_theorems keeps_cases

lemma keeps_refl: "keeps rd a a"
  by (simp add: keeps_def)

lemma keeps_trans: "keeps rd a b \<Longrightarrow> keeps rd b c \<Longrightarrow> keeps rd a c"
  by (auto simp: keeps_def intro: suffix_order.trans)

lemma keeps_say [keeps_rules]: "keeps rd a c \<Longrightarrow> keeps rd a (say m vs c)"
  by (simp add: keeps_def say_def)

lemma keeps_fold [keeps_rules]:
  "keeps rd a c \<Longrightarrow> (\<And>x c. keeps rd a c \<Longrightarrow> keeps rd a (f x c)) \<Longrightarrow> keeps rd a (fold f xs c)"
  by (induction xs arbitrary: c) simp_all

lemma not_leave [keeps_rules]: "Done \<noteq> Leave" "Failed e \<noteq> Leave" "Crash \<noteq> Leave" "Hang \<noteq> Leave"
  by simp_all

lemma keeps_ends [keeps_rules]:
  "keeps rd a c \<Longrightarrow> r \<noteq> Leave \<Longrightarrow> kept rd a (r, c)" "keeps rd a c \<Longrightarrow> kept rd a (tell m vs c)" "keeps rd a c \<Longrightarrow> kept rd a (fail_with e c)"
  by (simp_all add: tell_def fail_with_def keeps_say kept_def)

lemma keeps_fields [keeps_rules]: "keeps rd a c \<Longrightarrow> keeps rd a (c\<lparr>cliDB := db\<rparr>)" "keeps rd a c \<Longrightarrow> keeps rd a (c\<lparr>outside := fs\<rparr>)"
  by (simp_all add: keeps_def)

lemma keeps_read: "keeps True a c \<Longrightarrow> typed c = l # ls \<Longrightarrow> keeps True a (c\<lparr>typed := ls\<rparr>)"
  by (auto simp: keeps_def dest: suffix_ConsD)

lemma keeps_clock [keeps_rules]:
  "keeps rd a c \<Longrightarrow> (\<And>t c1. keeps rd a c1 \<Longrightarrow> kept rd a (f t c1)) \<Longrightarrow> kept rd a (case cli_now P c of (t, c1) \<Rightarrow> f t c1)"
  "keeps rd a c \<Longrightarrow> (\<And>ks c1. keeps rd a c1 \<Longrightarrow> kept rd a (g ks c1)) \<Longrightarrow> kept rd a (case list_keys P c of (ks, c1) \<Rightarrow> g ks c1)"
  by (simp_all add: cli_now_def list_keys_def keeps_def split: prod.split)

lemma keeps_on_db [keeps_rules]:
  assumes "keeps rd a c" "\<And>x c1. keeps rd a c1 \<Longrightarrow> kept rd a (ok x c1)" "\<And>e c1. keeps rd a c1 \<Longrightarrow> kept rd a (err e c1)"
  shows "kept rd a (on_db f ok err c)"
  using assms keeps_fields(1) [OF assms(1)] by (simp add: on_db_def Let_def kept_def split: prod.split outcome.split)

lemma keeps_each [keeps_rules]:
  "keeps rd a c \<Longrightarrow> (\<And>c1. keeps rd a c1 \<Longrightarrow> kept rd a (k c1)) \<Longrightarrow> kept rd a (each_db fs k c)"
  by (induction fs arbitrary: c) (simp_all add: keeps_on_db)

lemma keeps_split [keeps_cases]:
  "(b \<Longrightarrow> kept rd a x) \<Longrightarrow> (\<not> b \<Longrightarrow> kept rd a y) \<Longrightarrow> kept rd a (if b then x else y)"
  "(b \<Longrightarrow> keeps rd a u) \<Longrightarrow> (\<not> b \<Longrightarrow> keeps rd a v) \<Longrightarrow> keeps rd a (if b then u else v)"
  "kept rd a x \<Longrightarrow> (\<And>z. kept rd a (f z)) \<Longrightarrow> kept rd a (case m of None \<Rightarrow> x | Some z \<Rightarrow> f z)"
  "keeps rd a u \<Longrightarrow> (\<And>z. keeps rd a (h z)) \<Longrightarrow> keeps rd a (case m of None \<Rightarrow> u | Some z \<Rightarrow> h z)"
  "(\<And>y z. kept rd a (g y z)) \<Longrightarrow> kept rd a (case p of (y, z) \<Rightarrow> g y z)"
  "(\<And>y z. keeps rd a (k y z)) \<Longrightarrow> keeps rd a (case p of (y, z) \<Rightarrow> k y z)"
  "(\<And>y z. keeps rd a (q y z c)) \<Longrightarrow> keeps rd a ((case p of (y, z) \<Rightarrow> q y z) c)"
  "kept rd a (f1 c) \<Longrightarrow> kept rd a (f2 c) \<Longrightarrow> kept rd a ((if b then f1 else f2) c)"
  by (simp_all split: option.split prod.split)

lemma short_commands_keep:
  assumes "keeps rd a c"
  shows "kept rd a (handlePut P ps c)" "kept rd a (handleGet P ps c)" "kept rd a (handleDelete P ps c)"
    "kept rd a (handleList P ps c)" "kept rd a (handleTTL P ps c)" "kept rd a (handleCompact P ps c)"
    "kept rd a (handleSnapshot E P ps c)" "kept rd a (handleSnapshots E c)" "kept rd a (handleHelp c)"
    "kept rd a (handleHistory c)" "kept rd a (handleClear c)" "kept rd a (handleInfo E P c)"
  unfolding handlePut_def handleGet_def handleDelete_def handleList_def handleTTL_def handleCompact_def handleSnapshot_def
    handleSnapshots_def handleHelp_def handleHistory_def handleClear_def handleInfo_def show_created_def Let_def
  by ((rule keeps_rules | rule keeps_cases | rule assms | assumption)+)

lemma report_commands_keep:
  assumes "keeps rd a c"
  shows "kept rd a (handleStats P c)" "kept rd a (handleHealth E P c)" "kept rd a (handleExport E P c)"
    "kept rd a (handleWAL E P ps c)"
  unfolding handleStats_def handleHealth_def handleExport_def handleWAL_def handleWALStatus_def handleWALCheckpoint_def
    handleWALStats_def handleWALToggle_def handleWALConfig_def Let_def
  by ((rule keeps_rules | rule keeps_cases | rule assms | assumption)+)

lemma search_keeps:
  assumes "keeps rd a c"
  shows "kept rd a (handleSearch P ps c)"
proof -
  have "keeps rd a c \<Longrightarrow> kept rd a (show_hits P ks c)" for ks c
  proof (induction ks arbitrary: c)
    case (Cons x ks)
    then show ?case by (cases x) (simp add: keeps_on_db keeps_say)
  qed (simp add: kept_def)
  note [keeps_rules] = this
  show ?thesis unfolding handleSearch_def Let_def
    by ((rule keeps_rules | rule keeps_cases | rule assms | assumption)+)
qed

lemma import_keeps:
  assumes "keeps rd a c"
  shows "kept rd a (handleImport E P ps c)"
proof -
  have [keeps_rules]: "kept rd a (import_records P kvs n d c)"
    if "keeps rd a c" "\<And>n c. keeps rd a c \<Longrightarrow> kept rd a (d n c)" for kvs n d c
    using that(1)
  proof (induction kvs arbitrary: n c)
    case (Cons kv kvs)
    show ?case
      by (cases kv) (simp add: keeps_on_db keeps_say Cons)
  qed (simp add: that(2))
  show ?thesis unfolding handleImport_def Let_def
    by ((rule keeps_rules | rule keeps_cases | rule assms | assumption)+)
qed

lemma restore_keeps:
  assumes "keeps True a c"
  shows "kept True a (handleRestore E P ps c)"
proof (cases "typed c")
  case Nil
  then show ?thesis using assms by (simp add: handleRestore_def Let_def say_def keeps_def kept_def)
next
  case (Cons l ls)
  have [keeps_rules]: "keeps True a ((say m vs c)\<lparr>typed := ls\<rparr>)" for m vs
    by (rule keeps_read [OF keeps_say [OF assms]]) (simp add: say_def Cons)
  have t: "typed (say m vs c) = l # ls" for m vs by (simp add: say_def Cons)
  show ?thesis unfolding handleRestore_def Let_def t list.case
    by ((rule keeps_rules | rule keeps_cases | rule assms | assumption)+)
qed

text \<open>A mode goes through the lines one by one.\<close>

lemma keeps_lines [keeps_rules]:
  "kept rd a q \<Longrightarrow> keeps rd a (snd (snd (r, q)))"
  "keeps rd a c \<Longrightarrow> (\<And>t c1. keeps rd a c1 \<Longrightarrow> keeps rd a (snd (snd (f t c1)))) \<Longrightarrow> keeps rd a (snd (snd (case cli_now P c of (t, c1) \<Rightarrow> f t c1)))"
  by (simp_all add: cli_now_def keeps_def kept_def split: prod.split)

lemma keeps_line_cases [keeps_cases]:
  "keeps rd a (snd (snd x)) \<Longrightarrow> keeps rd a (snd (snd y)) \<Longrightarrow> keeps rd a (snd (snd (if b then x else y)))"
  "(\<And>y z. keeps rd a (snd (snd (g y z)))) \<Longrightarrow> keeps rd a (snd (snd (case p of (y, z) \<Rightarrow> g y z)))"
  "(\<And>v. keeps rd a (snd (snd (h v)))) \<Longrightarrow> (\<And>e. keeps rd a (snd (snd (k e)))) \<Longrightarrow> keeps rd a (snd (snd u)) \<Longrightarrow> keeps rd a (snd (snd w)) \<Longrightarrow>
   keeps rd a (snd (snd (case m of Ok v \<Rightarrow> h v | Err e \<Rightarrow> k e | Panic \<Rightarrow> u | Blocked \<Rightarrow> w)))"
  by (simp_all split: prod.split outcome.split)

lemma line_keeps:
  assumes "keeps rd a c"
  shows "keeps rd a (snd (snd (batch_line E P ps xs c)))" "keeps rd a (snd (snd (tx_line E P ps tx c)))"
  unfolding batch_line_def tx_line_def on_tx_def Let_def
  by ((rule keeps_rules | rule keeps_cases | rule assms | assumption)+)

lemma loops_keep:
  assumes "keeps True a c" "suffix ls (typed a)"
  shows "kept True a (batch_loop E P ls xs c)" "kept True a (tx_loop E P ls tx c)"
proof -
  have at: "keeps True a ((say m vs c)\<lparr>typed := ls\<rparr>)" "suffix ls (typed a)" if "keeps True a c" "suffix (l # ls) (typed a)" for m vs l ls c
    using that by (auto simp: keeps_def say_def dest: suffix_ConsD)
  show "kept True a (batch_loop E P ls xs c)" using assms
  proof (induction ls arbitrary: c xs)
    case (Cons l ls)
    define c1 where "c1 = (say ''batch prompt'' [] c)\<lparr>typed := ls\<rparr>"
    have k: "keeps True a c1" "suffix ls (typed a)" using at [OF Cons.prems] by (simp_all add: c1_def)
    obtain o1 r1 c2 where b: "batch_line E P (Fields (TrimSpace l)) xs c1 = (o1, r1, c2)" by (rule prod_cases3)
    have "keeps True a c2" using line_keeps(1) [OF k(1), of E P "Fields (TrimSpace l)" xs] b by simp
    then show ?case using Cons.IH [OF _ k(2)] k(1)
      by (simp add: c1_def [symmetric] b Let_def kept_def split: option.split reply.split)
  qed (simp add: keeps_say kept_def)
  show "kept True a (tx_loop E P ls tx c)" using assms
  proof (induction ls arbitrary: c tx)
    case (Cons l ls)
    define c1 where "c1 = (say ''transaction prompt'' [Txt (take 8 (txId tx))] c)\<lparr>typed := ls\<rparr>"
    have k: "keeps True a c1" "suffix ls (typed a)" using at [OF Cons.prems] by (simp_all add: c1_def)
    obtain o1 r1 c2 where b: "tx_line E P (Fields (TrimSpace l)) tx c1 = (o1, r1, c2)" by (rule prod_cases3)
    have "keeps True a c2" using line_keeps(2) [OF k(1), of E P "Fields (TrimSpace l)" tx] b by simp
    then show ?case using Cons.IH [OF _ k(2)] k(1)
      by (simp add: c1_def [symmetric] b Let_def kept_def split: option.split reply.split)
  qed (simp add: keeps_say kept_def)
qed

lemma modes_keep:
  assumes "keeps True a c"
  shows "kept True a (handleBatch E P c)" "kept True a (handleTransaction E P c)"
  using assms loops_keep [OF keeps_say [OF assms]] by (simp_all add: handleBatch_def handleTransaction_def Let_def keeps_def kept_def)

lemma keeps_pairs:
  "keeps rd a c \<Longrightarrow> keeps rd a (snd (r, c))"
  "(b \<Longrightarrow> keeps rd a (snd x)) \<Longrightarrow> (\<not> b \<Longrightarrow> keeps rd a (snd y)) \<Longrightarrow> keeps rd a (snd (if b then x else y))"
  "keeps rd a (snd x) \<Longrightarrow> (\<And>z. keeps rd a (snd (f z))) \<Longrightarrow> keeps rd a (snd (case m of None \<Rightarrow> x | Some z \<Rightarrow> f z))"
  "keeps rd a c \<Longrightarrow> (\<And>t c1. keeps rd a c1 \<Longrightarrow> keeps rd a (snd (h t c1))) \<Longrightarrow> keeps rd a (snd (case cli_now P c of (t, c1) \<Rightarrow> h t c1))"
  "(\<And>y z. keeps rd a (snd (g y z))) \<Longrightarrow> keeps rd a (snd (case p of (y, z) \<Rightarrow> g y z))"
  by (simp_all add: cli_now_def keeps_def split: option.split prod.split)

lemma external_commands_keep:
  assumes "keeps rd a c"
  shows "kept rd a (handleBenchmark E P c)" "kept rd a (handleMonitor E P c)"
proof -
  have "keeps rd a c \<Longrightarrow> keeps rd a (snd (run_test E P t c))" for t c
    unfolding run_test_def Let_def by ((rule keeps_pairs | rule keeps_rules | assumption)+)
  then have "keeps rd a c \<Longrightarrow> keeps rd a (snd (run_tests E P ts c))" for ts c
    by (induction ts arbitrary: c) (simp_all add: Let_def split: prod.split, metis snd_conv)
  then have [keeps_rules]: "kept rd a (case run_tests E P ts (say m vs c) of (t, c1) \<Rightarrow> f t c1)"
    if "\<And>t c1. keeps rd a c1 \<Longrightarrow> kept rd a (f t c1)" for f ts m vs
    using that keeps_say [OF assms] by (metis case_prod_beta)
  show "kept rd a (handleBenchmark E P c)" unfolding handleBenchmark_def Let_def
    by ((rule keeps_rules | rule keeps_cases | assumption)+)
  have "keeps rd a c \<Longrightarrow> kept rd a (monitor_tick E P c)" for c
    unfolding monitor_tick_def Let_def by ((rule keeps_rules | rule keeps_cases | assumption)+)
  from this [OF keeps_say [OF assms], of "''monitor mode''" "[]"] show "kept rd a (handleMonitor E P c)"
    by (auto simp: handleMonitor_def kept_def split: prod.split reply.split)
qed

text \<open>The commands that read further lines.\<close>

definition reading_words :: "bytes list" where
  "reading_words = map str [''batch'', ''transaction'', ''tx'', ''restore'']"

text \<open>One command line: what it enters in the history, and what it leaves alone.\<close>

definition recorded :: "CliEnv \<Rightarrow> bytes \<Rightarrow> bytes list" where
  "recorded E line = (if Fields line = [] \<or> command_word E (Fields line) \<in> set exit_words then [] else [line])"

lemma registry_keeps:
  assumes "map_of (commandRegistry E P) cmd = Some h" "cmd \<notin> set exit_words" "rd \<or> cmd \<notin> set reading_words" "keeps rd a c"
  shows "kept rd a (h ps c)"
proof -
  have "\<forall>(n, h) \<in> set (commandRegistry E P). n \<in> set exit_words \<or>
      n \<in> set reading_words \<and> (keeps True a c \<longrightarrow> kept True a (h ps c)) \<or> (keeps rd a c \<longrightarrow> kept rd a (h ps c))"
    unfolding commandRegistry_def
    by (simp add: short_commands_keep report_commands_keep search_keeps import_keeps restore_keeps modes_keep
        external_commands_keep) (simp add: reading_words_def exit_words_def)
  then show ?thesis using map_of_SomeD [OF assms(1)] assms(2-4) by fastforce
qed

lemma str_inject: "str a = str b \<longleftrightarrow> a = b"
proof
  have u: "unat (of_char c :: byte) = (of_char c :: nat)" for c
  proof -
    have "(of_char c :: byte) = of_nat (of_char c)" by (rule of_nat_of_char [symmetric])
    then show ?thesis by (simp only:) (rule unat_of_nat_small, simp)
  qed
  assume "str a = str b"
  then have "map (\<lambda>c. char_of (unat (of_char c :: byte))) a = map (\<lambda>c. char_of (unat (of_char c :: byte))) b"
    unfolding str_def by (metis (no_types) map_map comp_def map_eq_conv list.map_comp)
  then show "a = b" by (simp add: u)
qed simp

lemma map_of_str: "map_of (map (\<lambda>(n, h). (str n, h)) xs) (str k) = map_of xs k"
  by (induction xs) (auto simp: str_inject)

lemma exit_commands:
  "map_of (commandRegistry E P) (str ''exit'') = Some (\<lambda>ps. handleExit)"
  "map_of (commandRegistry E P) (str ''quit'') = Some (\<lambda>ps. handleExit)"
  "map_of (commandRegistry E P) (str ''q'') = Some (\<lambda>ps. handleExit)"
  unfolding commandRegistry_def map_of_str by simp_all

lemma exit_leaves: "cmd \<in> set exit_words \<Longrightarrow> map_of (commandRegistry E P) cmd = Some (\<lambda>ps. handleExit)"
  using exit_commands by (auto simp: exit_words_def simp del: map_of.simps)

lemma executeCommand_keeps:
  fixes line :: bytes and E :: CliEnv
  defines "cmd \<equiv> command_word E (Fields line)"
  assumes "Fields line = [] \<or> cmd \<notin> set exit_words" "rd \<or> cmd \<notin> set reading_words \<or> Fields line = []"
  shows "kept rd (c\<lparr>entries := fold history_add (recorded E line) (entries c)\<rparr>) (executeCommand E P line c)"
proof (cases "Fields line = []")
  case True
  then show ?thesis by (simp add: executeCommand_def recorded_def kept_def keeps_def)
next
  case False
  let ?c1 = "c\<lparr>entries := history_add line (entries c)\<rparr>"
  have c: "cmd \<notin> set exit_words" "rd \<or> cmd \<notin> set reading_words" using assms(2,3) False by blast+
  have e: "c\<lparr>entries := fold history_add (recorded E line) (entries c)\<rparr> = ?c1"
    using c(1) False by (simp add: recorded_def cmd_def)
  have x: "executeCommand E P line c = (case map_of (commandRegistry E P) cmd of
      Some h \<Rightarrow> h (Fields line) ?c1 | None \<Rightarrow> (Failed (UnknownCommand cmd), ?c1))"
    using False c(1) by (simp add: executeCommand_def cmd_def [symmetric] Let_def)
  show ?thesis unfolding e x
    using registry_keeps [OF _ c keeps_refl] keeps_refl by (auto simp: kept_def split: option.split)
qed

lemma executeCommand_exit:
  assumes "Fields line \<noteq> []" "command_word E (Fields line) \<in> set exit_words"
  shows "executeCommand E P line c = (Leave, say ''good bye'' [] c)"
  using assms exit_leaves [OF assms(2), of E P] by (simp add: executeCommand_def Let_def handleExit_def)

lemma executeCommand_effect:
  assumes "executeCommand E P line c = (r, c')"
  shows "suffix (typed c') (typed c)" "entries c' = fold history_add (recorded E line) (entries c)"
proof -
  have "suffix (typed c') (typed c) \<and> entries c' = fold history_add (recorded E line) (entries c)"
  proof (cases "Fields line \<noteq> [] \<and> command_word E (Fields line) \<in> set exit_words")
    case True
    then have "c' = say ''good bye'' [] c" using executeCommand_exit assms by force
    then show ?thesis using True by (simp add: say_def recorded_def)
  next
    case False
    then have "kept True (c\<lparr>entries := fold history_add (recorded E line) (entries c)\<rparr>) (executeCommand E P line c)"
      by (intro executeCommand_keeps) simp_all
    then show ?thesis by (simp add: kept_def keeps_def assms)
  qed
  then show "suffix (typed c') (typed c)" "entries c' = fold history_add (recorded E line) (entries c)" by blast+
qed

section \<open>The loop\<close>

text \<open>
  It ends with the lines, with a command that leaves, and with a panic; the history is saved whenever it
  ends. A command that never returns keeps it.
\<close>

function cli_run :: "CliEnv \<Rightarrow> Platform \<Rightarrow> interactiveCLI \<Rightarrow> cli_result" where
  "cli_run E P c =
     (let (t, c1) = cli_now P c; c2 = say ''prompt'' [At t] c1
      in case typed c of
           [] \<Rightarrow> (Done, history_save E c2)
         | l # ls \<Rightarrow>
             let c3 = c2\<lparr>typed := ls\<rparr>; line = TrimSpace l
             in if line = [] then cli_run E P c3
                else case executeCommand E P line c3 of
                       (Done, c4) \<Rightarrow> cli_run E P c4
                     | (Failed e, c4) \<Rightarrow> cli_run E P (say ''error'' [Fault e] c4)
                     | (Leave, c4) \<Rightarrow> (Done, history_save E c4)
                     | (Crash, c4) \<Rightarrow> (Crash, history_save E c4)
                     | (Hang, c4) \<Rightarrow> (Hang, c4))"
  by pat_completeness auto
termination
  by (relation "measure (\<lambda>(E, P, c). length (typed c))")
    (auto simp: say_def dest!: executeCommand_effect(1) [OF sym] suffix_length_le)

declare cli_run.simps [simp del]

definition StartInteractiveMode :: "CliEnv \<Rightarrow> Platform \<Rightarrow> bytes list \<Rightarrow> files \<Rightarrow> GojiDB \<Rightarrow> cli_result" where
  "StartInteractiveMode E P lines fs db = cli_run E P (say ''welcome'' [] (newInteractiveCLI E lines fs db))"

end
