(* ===== verification/CliSpec.thy ===== *)
theory CliSpec
  imports CliShell StoreSpec
begin

text \<open>What the interactive mode does: the history, typed transactions, and the expiry of a typed \<open>put\<close>.\<close>

section \<open>The history\<close>

definition last_100 :: "bytes list \<Rightarrow> bytes list" where
  "last_100 es = drop (length es - 100) es"

lemma history_add_last: "length es \<le> 100 \<Longrightarrow> history_add l es = last_100 (es @ [l])"
  by (auto simp: history_add_def last_100_def Let_def)

lemma last_100_short: "length es \<le> 100 \<Longrightarrow> last_100 es = es" "length (last_100 es) \<le> 100"
  by (simp_all add: last_100_def)

lemma last_100_again: "last_100 (last_100 es @ ls) = last_100 (es @ ls)"
  by (cases "length es \<le> 100") (auto simp: last_100_def add.commute)

lemma history_adds_last: "length es \<le> 100 \<Longrightarrow> fold history_add ls es = last_100 (es @ ls)"
proof (induction ls arbitrary: es)
  case (Cons l ls)
  then show ?case
    by (simp add: history_add_last last_100_short last_100_again del: append_assoc) (simp add: append_assoc)
qed (simp add: last_100_short)

lemma history_save_fields: "entries (history_save E c) = entries c" "cliDB (history_save E c) = cliDB c" "typed (history_save E c) = typed c"
  by (simp_all add: history_save_def split: option.split)

lemma history_saved:
  "historyMarshal E (entries c) = Some data \<Longrightarrow> canWrite E HistoryFile \<Longrightarrow>
   map_of (outside (history_save E c)) HistoryFile = Some data"
  by (simp add: history_save_def write_file_def update_conv')

text \<open>What the loop has entered when it ends, and that it is in the file.\<close>

lemma cli_run_command:
  assumes "cli_now P c = (t, c1)" "typed c = l # ls" "TrimSpace l \<noteq> []"
    and "executeCommand E P (TrimSpace l) ((say ''prompt'' [At t] c1)\<lparr>typed := ls\<rparr>) = (r, c4)"
  shows "cli_run E P c = (case r of Done \<Rightarrow> cli_run E P c4 | Failed e \<Rightarrow> cli_run E P (say ''error'' [Fault e] c4)
    | Leave \<Rightarrow> (Done, history_save E c4) | Crash \<Rightarrow> (Crash, history_save E c4) | Hang \<Rightarrow> (Hang, c4))"
  unfolding cli_run.simps [of E P c] assms(1,2) Let_def prod.case list.case if_not_P [OF assms(3)] assms(4)
  by (cases r) simp_all

text \<open>
  The lines that are entered: those that are not blank, up to the first that asks to leave. Lines that a mode
  reads for itself never reach the loop, so sessions with such a mode are left out.
\<close>

definition command_lines :: "CliEnv \<Rightarrow> bytes list \<Rightarrow> bytes list" where
  "command_lines E ls = filter (\<lambda>l. Fields l \<noteq> [])
     (takeWhile (\<lambda>l. Fields l = [] \<or> command_word E (Fields l) \<notin> set exit_words) (map TrimSpace ls))"

definition no_modes :: "CliEnv \<Rightarrow> bytes list \<Rightarrow> bool" where
  "no_modes E ls \<longleftrightarrow> (\<forall>l \<in> set ls. Fields (TrimSpace l) = [] \<or> command_word E (Fields (TrimSpace l)) \<notin> set reading_words)"

lemma Fields_Nil [simp]: "Fields [] = []"
  by code_simp

lemma cli_run_history:
  assumes "no_modes E (typed c)" "fst (cli_run E P c) = Done"
  shows "entries (snd (cli_run E P c)) = fold history_add (command_lines E (typed c)) (entries c)"
  using assms
proof (induction E P c rule: cli_run.induct)
  case (1 E P c)
  obtain t c1 where n: "cli_now P c = (t, c1)" by (rule prod.exhaust)
  have c1: "entries c1 = entries c" "typed c1 = typed c" using n by (auto simp: cli_now_def split: prod.splits)
  let ?c2 = "say ''prompt'' [At t] c1"
  show ?case
  proof (cases "typed c")
    case Nil
    then show ?thesis by (simp add: cli_run.simps [of E P c] n history_save_fields c1 say_def command_lines_def)
  next
    case (Cons l ls)
    let ?c3 = "?c2\<lparr>typed := ls\<rparr>" and ?line = "TrimSpace l"
    have m: "no_modes E ls" "Fields ?line = [] \<or> command_word E (Fields ?line) \<notin> set reading_words"
      using 1(4) by (simp_all add: Cons no_modes_def)
    show ?thesis
    proof (cases "?line = []")
      case True
      have "cli_run E P c = cli_run E P ?c3" using Cons True by (simp add: cli_run.simps [of E P c] n Let_def)
      then show ?thesis using 1(1) [OF refl n [symmetric] refl Cons refl refl True] 1(5) m(1) True
        by (simp add: Cons command_lines_def c1 say_def)
    next
      case False
      obtain r c4 where x: "executeCommand E P ?line ?c3 = (r, c4)" by (rule prod.exhaust)
      note run = cli_run_command [OF n Cons False x]
      show ?thesis
      proof (cases "Fields ?line \<noteq> [] \<and> command_word E (Fields ?line) \<in> set exit_words")
        case True
        then have "r = Leave" "c4 = say ''good bye'' [] ?c3" using x executeCommand_exit [of ?line E P ?c3] by simp_all
        then show ?thesis using True by (simp add: run Cons command_lines_def history_save_fields c1 say_def)
      next
        case go: False
        have k: "r \<noteq> Leave" "typed c4 = ls" "entries c4 = fold history_add (recorded E ?line) (entries c)"
          using executeCommand_keeps [of ?line E False ?c3 P] go m(2) unfolding x by (auto simp: kept_def keeps_def c1 say_def)
        have cl: "command_lines E (typed c) = recorded E ?line @ command_lines E ls"
          using go by (auto simp: Cons command_lines_def recorded_def)
        have rest: "entries (snd q) = fold history_add (command_lines E (typed c)) (entries c)"
          if "entries (snd q) = fold history_add (command_lines E ls) (entries c4)" for q :: cli_result
          using that by (simp add: cl k(3))
        show ?thesis
        proof (cases r)
          case Done
          show ?thesis using 1(2) [OF refl n [symmetric] refl Cons refl refl False x [symmetric] Done] 1(5) m(1) k(2) rest
            by (simp add: run Done)
        next
          case (Failed f)
          have "typed (say ''error'' [Fault f] c4) = typed c4" "entries (say ''error'' [Fault f] c4) = entries c4" by (simp_all add: say_def)
          then show ?thesis using 1(3) [OF refl n [symmetric] refl Cons refl refl False x [symmetric] Failed] 1(5) m(1) k(2) rest
            by (simp add: run Failed)
        qed (use k(1) 1(5) in \<open>simp_all add: run\<close>)
      qed
    qed
  qed
qed

text \<open>In any session, modes included, the history stays within its bound.\<close>

lemma history_add_bound: "length es \<le> 100 \<Longrightarrow> length (fold history_add ls es) \<le> 100"
  by (simp add: history_adds_last last_100_short)

lemma cli_run_bound:
  assumes "length (entries c) \<le> 100"
  shows "length (entries (snd (cli_run E P c))) \<le> 100"
  using assms
proof (induction E P c rule: cli_run.induct)
  case (1 E P c)
  obtain t c1 where n: "cli_now P c = (t, c1)" by (rule prod.exhaust)
  let ?c2 = "say ''prompt'' [At t] c1"
  have c2: "entries ?c2 = entries c" using n by (auto simp: cli_now_def say_def split: prod.splits)
  show ?case
  proof (cases "typed c")
    case Nil
    then show ?thesis using 1(4) by (simp add: cli_run.simps [of E P c] n history_save_fields c2)
  next
    case (Cons l ls)
    show ?thesis
    proof (cases "TrimSpace l = []")
      case True
      have "cli_run E P c = cli_run E P (?c2\<lparr>typed := ls\<rparr>)" using Cons True by (simp add: cli_run.simps [of E P c] n Let_def)
      then show ?thesis using 1(1) [OF refl n [symmetric] refl Cons refl refl True] 1(4) c2 by simp
    next
      case False
      obtain r c4 where x: "executeCommand E P (TrimSpace l) (?c2\<lparr>typed := ls\<rparr>) = (r, c4)" by (rule prod.exhaust)
      have c4: "length (entries c4) \<le> 100" using executeCommand_effect(2) [OF x] c2 1(4) by (simp add: history_add_bound)
      note run = cli_run_command [OF n Cons False x]
      show ?thesis
      proof (cases r)
        case Done
        then show ?thesis using 1(2) [OF refl n [symmetric] refl Cons refl refl False x [symmetric] Done] c4 by (simp add: run)
      next
        case (Failed f)
        have "entries (say ''error'' [Fault f] c4) = entries c4" by (simp add: say_def)
        then show ?thesis using 1(3) [OF refl n [symmetric] refl Cons refl refl False x [symmetric] Failed] c4 by (simp add: run Failed)
      qed (use c4 in \<open>simp_all add: run history_save_fields\<close>)
    qed
  qed
qed

lemma cli_run_saved:
  assumes "fst (cli_run E P c) \<noteq> Hang" "historyMarshal E (entries (snd (cli_run E P c))) = Some data" "canWrite E HistoryFile"
  shows "map_of (outside (snd (cli_run E P c))) HistoryFile = Some data"
  using assms
proof (induction E P c rule: cli_run.induct)
  case (1 E P c)
  obtain t c1 where n: "cli_now P c = (t, c1)" by (rule prod.exhaust)
  let ?c2 = "say ''prompt'' [At t] c1"
  have saved: "map_of (outside (history_save E q)) HistoryFile = Some data" if "historyMarshal E (entries (history_save E q)) = Some data" for q
    using history_saved [OF _ 1(6)] that by (simp add: history_save_fields)
  show ?case
  proof (cases "typed c")
    case Nil
    then show ?thesis using 1(5) saved by (simp add: cli_run.simps [of E P c] n)
  next
    case (Cons l ls)
    show ?thesis
    proof (cases "TrimSpace l = []")
      case True
      have "cli_run E P c = cli_run E P (?c2\<lparr>typed := ls\<rparr>)" using Cons True by (simp add: cli_run.simps [of E P c] n Let_def)
      then show ?thesis using 1(1) [OF refl n [symmetric] refl Cons refl refl True] 1(4-6) by simp
    next
      case False
      obtain r c4 where x: "executeCommand E P (TrimSpace l) (?c2\<lparr>typed := ls\<rparr>) = (r, c4)" by (rule prod.exhaust)
      note run = cli_run_command [OF n Cons False x]
      show ?thesis
      proof (cases r)
        case Done
        then show ?thesis using 1(2) [OF refl n [symmetric] refl Cons refl refl False x [symmetric] Done] 1(4-6) by (simp add: run)
      next
        case (Failed f)
        then show ?thesis using 1(3) [OF refl n [symmetric] refl Cons refl refl False x [symmetric] Failed] 1(4-6) by (simp add: run)
      qed (use 1(4-6) saved in \<open>auto simp: run\<close>)
    qed
  qed
qed

section \<open>Words typed on a line\<close>

lemma TrimSpace_words:
  assumes "\<forall>w \<in> set ws. plain_word w" "ws \<noteq> []"
  shows "TrimSpace (join_blank ws) = join_blank ws"
proof -
  have a: "\<forall>b \<in> set (join_blank ws). unat b < 0x80" by (rule join_blank_ascii [OF assms(1)])
  have ne: "join_blank ws \<noteq> [] \<and> \<not> IsSpace (unat (hd (join_blank ws))) \<and> \<not> IsSpace (unat (last (join_blank ws)))"
    using assms by (induction ws rule: join_blank.induct) (simp_all add: plain_word_def)
  have "trim_with (\<lambda>(r, c). IsSpace r) (map (\<lambda>b. (unat b, [b])) s) = map (\<lambda>b. (unat b, [b])) s"
    if "s \<noteq> []" "\<not> IsSpace (unat (hd s))" "\<not> IsSpace (unat (last s))" for s :: bytes
  proof -
    have "dropWhile (\<lambda>(r, c). IsSpace r) (map (\<lambda>b. (unat b, [b])) s) = map (\<lambda>b. (unat b, [b])) s"
      using that by (cases s) simp_all
    moreover have "dropWhile (\<lambda>(r, c). IsSpace r) (rev (map (\<lambda>b. (unat b, [b])) s)) = rev (map (\<lambda>b. (unat b, [b])) s)"
      using that by (cases s rule: rev_cases) simp_all
    ultimately show ?thesis by (simp add: trim_with_def)
  qed
  then show ?thesis using ne by (simp add: TrimSpace_def chunks_ascii [OF a] comp_def)
qed

text \<open>A word in lower-case letters is its own lower case.\<close>

lemma ToLower_word:
  assumes "\<forall>b \<in> set w. unat b < 0x80 \<and> \<not> (0x41 \<le> unat b \<and> unat b \<le> 0x5A)"
  shows "ToLower uni w = w"
proof -
  have a: "\<forall>b \<in> set w. unat b < 0x80" using assms by blast
  have "concat (map (\<lambda>b. encode_rune (lower_rune uni (unat b))) w) = w" using assms
    by (induction w) (auto simp: lower_rune_def encode_rune_def)
  then show ?thesis by (simp add: ToLower_def chunks_ascii [OF a] comp_def)
qed

lemma command_words:
  "plain_word (str ''put'')" "plain_word (str ''del'')" "plain_word (str ''commit'')"
  "ToLower uni (str ''put'') = str ''put''" "ToLower uni (str ''del'') = str ''del''" "ToLower uni (str ''commit'') = str ''commit''"
  by (simp_all add: plain_word_def ToLower_word str_def IsSpace_def)

section \<open>A typed transaction\<close>

definition typed_op :: "TransactionOp \<Rightarrow> bytes" where
  "typed_op op =
     (if opType op = str ''PUT'' then join_blank [str ''put'', opKey op, opValue op] else join_blank [str ''del'', opKey op])"

text \<open>Operations that can be typed: one-word values without quotation marks.\<close>

definition typable :: "TransactionOp \<Rightarrow> bool" where
  "typable op \<longleftrightarrow> plain_word (opKey op) \<and>
     (opType op = str ''PUT'' \<and> plain_word (opValue op) \<and> trim_quotes (opValue op) = opValue op \<or>
      opType op = str ''DELETE'' \<and> opValue op = [])"

lemma tx_line_op:
  assumes "typable op"
  shows "\<exists>m vs. tx_line E P (Fields (TrimSpace (typed_op op))) tx c = (Some (tx\<lparr>operations := operations tx @ [op]\<rparr>), tell m vs c)"
    "TrimSpace (typed_op op) \<noteq> []"
proof -
  have kinds: "str ''PUT'' \<noteq> str ''DELETE''" by (simp add: str_def)
  show "\<exists>m vs. tx_line E P (Fields (TrimSpace (typed_op op))) tx c = (Some (tx\<lparr>operations := operations tx @ [op]\<rparr>), tell m vs c)"
  proof (cases "opType op = str ''PUT''")
    case True
    then have w: "\<forall>w \<in> set [str ''put'', opKey op, opValue op]. plain_word w" "trim_quotes (opValue op) = opValue op"
      using assms command_words(1) kinds by (auto simp: typable_def)
    have f: "Fields (TrimSpace (typed_op op)) = [str ''put'', opKey op, opValue op]"
      unfolding typed_op_def if_P [OF True] TrimSpace_words [OF w(1) list.simps(3)] by (rule Fields_join [OF w(1)])
    have e: "\<lparr>opType = str ''PUT'', opKey = opKey op, opValue = opValue op\<rparr> = op" by (rule TransactionOp.equality) (simp_all add: True)
    show ?thesis
      unfolding f by (simp add: tx_line_def Let_def command_word_def command_words w(2) tx_Put_def e) blast
  next
    case False
    then have d: "opType op = str ''DELETE''" "opValue op = []" and w: "\<forall>w \<in> set [str ''del'', opKey op]. plain_word w"
      using assms by (auto simp: typable_def command_words)
    have f: "Fields (TrimSpace (typed_op op)) = [str ''del'', opKey op]"
      unfolding typed_op_def if_not_P [OF False] TrimSpace_words [OF w list.simps(3)] by (rule Fields_join [OF w])
    have e: "\<lparr>opType = str ''DELETE'', opKey = opKey op, opValue = []\<rparr> = op" by (rule TransactionOp.equality) (simp_all add: d)
    have "str ''del'' \<noteq> str ''put''" by (simp add: str_def)
    then show ?thesis
      unfolding f by (simp add: tx_line_def Let_def command_word_def command_words tx_Delete_def e) blast
  qed
  show "TrimSpace (typed_op op) \<noteq> []"
  proof (cases "opType op = str ''PUT''")
    case True
    have "TrimSpace (typed_op op) = typed_op op" unfolding typed_op_def if_P [OF True]
      by (rule TrimSpace_words) (use assms kinds True command_words in \<open>auto simp: typable_def\<close>)
    then show ?thesis by (simp add: typed_op_def True)
  next
    case False
    have "TrimSpace (typed_op op) = typed_op op" unfolding typed_op_def if_not_P [OF False]
      by (rule TrimSpace_words) (use assms False command_words in \<open>auto simp: typable_def\<close>)
    then show ?thesis by (simp add: typed_op_def False)
  qed
qed

lemma commit_word: "TrimSpace (str ''commit'') = str ''commit''" "Fields (str ''commit'') = [str ''commit'']" "str ''commit'' \<noteq> []"
  using TrimSpace_words [of "[str ''commit'']"] Fields_join [of "[str ''commit'']"] command_words(3)
  by (simp_all add: plain_word_def)

lemma tx_line_commit:
  "tx_line E P [str ''commit''] tx c = (None, on_tx (Commit P tx) ''committed'' ''commit failed'' c)"
proof -
  have "str ''commit'' \<noteq> str ''put''" "str ''commit'' \<noteq> str ''del''" "str ''commit'' \<noteq> str ''delete''" by (simp_all add: str_def)
  then show ?thesis by (simp add: tx_line_def Let_def command_word_def command_words)
qed

lemma tx_loop_typed:
  assumes "\<forall>op \<in> set ops. typable op" "Commit P (tx\<lparr>operations := operations tx @ ops\<rparr>) (cliDB c) = (Ok tx', db')"
  shows "\<exists>msgs. tx_loop E P (map typed_op ops @ str ''commit'' # ls) tx c =
    (Done, c\<lparr>cliDB := db', typed := ls, shown := shown c @ msgs\<rparr>)"
  using assms
proof (induction ops arbitrary: tx c)
  case Nil
  let ?c1 = "(say ''transaction prompt'' [Txt (take 8 (txId tx))] c)\<lparr>typed := ls\<rparr>"
  have "tx_loop E P (str ''commit'' # ls) tx c = on_tx (Commit P tx) ''committed'' ''commit failed'' ?c1"
    using commit_word by (simp add: tx_line_commit)
  also have "\<dots> = (Done, say ''committed'' [] (?c1\<lparr>cliDB := db'\<rparr>))"
    using Nil(2) by (simp add: on_tx_def on_db_def say_def tell_def)
  finally show ?case by (intro exI [of _ "[(''transaction prompt'', [Txt (take 8 (txId tx))]), (''committed'', [])]"]) (simp add: say_def)
next
  case (Cons op ops)
  let ?ls = "map typed_op ops @ str ''commit'' # ls"
  let ?c1 = "(say ''transaction prompt'' [Txt (take 8 (txId tx))] c)\<lparr>typed := ?ls\<rparr>"
  let ?tx = "tx\<lparr>operations := operations tx @ [op]\<rparr>"
  obtain m vs where t: "tx_line E P (Fields (TrimSpace (typed_op op))) tx ?c1 = (Some ?tx, tell m vs ?c1)" "TrimSpace (typed_op op) \<noteq> []"
    using tx_line_op(1) [of op E P tx ?c1] tx_line_op(2) [of op] Cons(2) by auto
  let ?c2 = "say m vs ?c1"
  have run: "tx_loop E P (map typed_op (op # ops) @ str ''commit'' # ls) tx c = tx_loop E P ?ls ?tx ?c2"
    using t by (simp add: Let_def tell_def)
  have "cliDB ?c2 = cliDB c" by (simp add: say_def)
  then have "Commit P (?tx\<lparr>operations := operations ?tx @ ops\<rparr>) (cliDB ?c2) = (Ok tx', db')" using Cons(3) by simp
  from Cons(1) [OF _ this] Cons(2) obtain msgs where "tx_loop E P ?ls ?tx ?c2 = (Done, ?c2\<lparr>cliDB := db', typed := ls, shown := shown ?c2 @ msgs\<rparr>)"
    by auto
  then show ?case unfolding run by (intro exI [of _ "[(''transaction prompt'', [Txt (take 8 (txId tx))]), (m, vs)] @ msgs"]) (simp add: say_def)
qed

section \<open>A typed \<open>put\<close>\<close>

lemma handlePut_typed:
  assumes "plain_fits P cfg k v" "plain_ready P cfg (put_cost P cfg k v + n) (cliDB c)"
    and "ParseDuration (ps ! 3) = Some ttl" "3 < length ps" "k = ps ! 1" "v = trim_quotes (join_blank (drop 2 ps))"
  shows "\<exists>db x. handlePut P ps c = (Done, c\<lparr>cliDB := db\<rparr>) \<and> plain_ready P cfg n db \<and>
    db_view P db = (db_view P (cliDB c))(k \<mapsto> (Ok v, x)) \<and> stamp_ok P (wTicks (world (cliDB c))) (wTicks (world db)) ttl x"
proof -
  obtain db x where "PutWithTTL P k v ttl (cliDB c) = (Ok (), db)" "plain_ready P cfg n db"
    "db_view P db = (db_view P (cliDB c))(k \<mapsto> (Ok v, x))" "stamp_ok P (wTicks (world (cliDB c))) (wTicks (world db)) ttl x"
    by (rule plain_PutWithTTL [OF assms(1,2)]) (rule that; assumption)
  then show ?thesis using assms(3-6) by (auto simp: handlePut_def on_db_def Let_def)
qed

text \<open>The surroundings of the command line in which the examples run.\<close>

definition sample_env :: CliEnv where
  "sample_env =
     \<lparr>unicodeLower = (\<lambda>r. r), randomBytes = (\<lambda>n. replicate 8 (of_nat n)), schedule = (\<lambda>n. []), snapMarshal = (\<lambda>s. []),
      snapUnmarshal = (\<lambda>b. None), importUnmarshal = (\<lambda>b. None), exportMarshal = (\<lambda>x. Some []),
      historyMarshal = (\<lambda>ls. Some (join_blank ls)), historyUnmarshal = (\<lambda>b. []),
      memStats = (\<lambda>n. \<lparr>Alloc = 1, Sys = 4, NumGC = 0\<rparr>), fileStamp = (\<lambda>t. show_int t), canWrite = (\<lambda>f. True),
      goos = ''linux'', goarch = ''amd64'', goVersion = str ''go1.24'', compiler = str ''gc'', numGoroutine = (\<lambda>n. 1),
      goTest = (\<lambda>n c. None)\<rparr>"

end
