(* ===== verification/WheelRuns.thy ===== *)
theory WheelRuns
  imports TTL
begin

text \<open>
  The time wheel in time. The ticker is punctual: time does not go past the next tick before the wheel has
  advanced. Timers fire at their instant or later, keys are added and removed at any time.
\<close>

section \<open>Runs\<close>

record wheel_system =
  wheel :: TimeWheel
  nextTick :: instant
  sysNow :: instant
  fired :: "(nat \<times> key) list"

definition due_timers :: "instant \<Rightarrow> TimeWheel \<Rightarrow> (nat \<times> key) list" where
  "due_timers now tw = map (\<lambda>(i, k, _). (i, k)) (filter (\<lambda>(_, _, t). t \<le> now) (twTimers tw))"

text \<open>The keys that \<open>tw_fire\<close> hands to the clean-up function are those of the due timers.\<close>

lemma tw_fire_due: "fst (tw_fire now tw) = map snd (due_timers now tw)"
  by (simp add: tw_fire_def due_timers_def case_prod_beta' comp_def)

inductive wheel_step :: "wheel_system \<Rightarrow> wheel_system \<Rightarrow> bool" where
  passes: "sysNow s \<le> t \<Longrightarrow> t \<le> nextTick s \<Longrightarrow> wheel_step s (s\<lparr>sysNow := t\<rparr>)"
| ticks: "sysNow s = nextTick s \<Longrightarrow>
    wheel_step s (s\<lparr>wheel := tw_advance (wheel s), nextTick := nextTick s + twInterval (wheel s)\<rparr>)"
| fires: "wheel_step s (s\<lparr>wheel := snd (tw_fire (sysNow s) (wheel s)), fired := fired s @ due_timers (sysNow s) (wheel s)\<rparr>)"
| adds: "wheel_step s (s\<lparr>wheel := tw_Add (sysNow s) k ttl (wheel s)\<rparr>)"
| removes: "wheel_step s (s\<lparr>wheel := tw_Remove k (wheel s)\<rparr>)"

inductive wheel_reachable :: "int \<Rightarrow> int \<Rightarrow> wheel_system \<Rightarrow> bool" for iv n where
  start: "NewTimeWheel iv n = Ok tw \<Longrightarrow>
    wheel_reachable iv n \<lparr>wheel = tw, nextTick = t + iv, sysNow = t, fired = []\<rparr>"
| step: "wheel_reachable iv n s \<Longrightarrow> wheel_step s s' \<Longrightarrow> wheel_reachable iv n s'"

section \<open>The buckets are maps\<close>

definition wheel_ok :: "int \<Rightarrow> wheel_system \<Rightarrow> bool" where
  "wheel_ok iv s \<longleftrightarrow> tw_inv (wheel s) \<and> twInterval (wheel s) = iv \<and> sysNow s \<le> nextTick s \<and>
     (\<forall>b \<in> set (twBuckets (wheel s)). distinct (map fst b)) \<and> fst ` set (fired s) \<subseteq> {..<twNext (wheel s)}"

lemma set_list_update: "y \<in> set (xs[i := x]) \<Longrightarrow> y = x \<or> y \<in> set xs"
  using set_update_subset_insert by fastforce

lemma wheel_slot_bound: "tw_inv tw \<Longrightarrow> wheel_slot tw ttl < length (twBuckets tw)"
  unfolding wheel_slot_def by (rule mod_less_divisor) (auto simp: tw_inv_def)

lemma tw_Add_fields:
  "twInterval (tw_Add now k ttl tw) = twInterval tw" "twNext (tw_Add now k ttl tw) = Suc (twNext tw)"
  "twBuckets (tw_Add now k ttl tw) =
     (twBuckets tw)[wheel_slot tw ttl := AList.update k (twNext tw) (twBuckets tw ! wheel_slot tw ttl)]"
  by (simp_all add: tw_Add_def Let_def split: option.splits)

lemma wheel_step_ok:
  assumes "wheel_step s s'" "wheel_ok iv s"
  shows "wheel_ok iv s'"
  using assms
proof cases
  case ticks
  have "tw_inv (tw_advance (wheel s))"
    using assms(2) by (auto simp: wheel_ok_def tw_inv_def tw_advance_def Let_def stop_timers_def intro!: mod_less_divisor)
  then show ?thesis using assms(2) ticks
    by (auto simp: wheel_ok_def tw_advance_def Let_def tw_inv_def dest!: set_list_update)
next
  case fires
  then show ?thesis using assms(2)
    by (auto simp: wheel_ok_def tw_inv_def tw_fire_def due_timers_def)
next
  case (adds k ttl)
  let ?b = "twBuckets (wheel s) ! wheel_slot (wheel s) ttl"
  have i: "tw_inv (wheel s)" using assms(2) by (simp add: wheel_ok_def)
  have "distinct (map fst ?b)" using assms(2) nth_mem [OF wheel_slot_bound [OF i]] by (simp add: wheel_ok_def)
  then have "distinct (map fst (AList.update k (twNext (wheel s)) ?b))" by (rule distinct_update)
  then show ?thesis using assms(2) tw_Add_timer(3) [OF i] unfolding adds
    by (auto simp: wheel_ok_def tw_Add_fields less_SucI subset_iff dest!: set_list_update)
next
  case (removes k)
  then show ?thesis using assms(2)
    by (auto simp: wheel_ok_def tw_inv_def tw_Remove_def stop_timers_def distinct_delete Let_def)
qed (simp add: wheel_ok_def)

lemma wheel_reachable_ok: "wheel_reachable iv n s \<Longrightarrow> wheel_ok iv s"
proof (induction rule: wheel_reachable.induct)
  case (start tw t)
  then show ?case using tw_inv_new [OF start]
    by (auto simp: wheel_ok_def NewTimeWheel_def split: if_splits)
qed (rule wheel_step_ok)

section \<open>The wheel is faster than the timer\<close>

text \<open>
  While timer \<open>i\<close> runs, it lies in a bucket that the wheel reaches \<open>r\<close> ticks from now, before the instant
  \<open>dl\<close> of the timer.
\<close>

definition outrun :: "int \<Rightarrow> nat \<Rightarrow> instant \<Rightarrow> wheel_system \<Rightarrow> bool" where
  "outrun iv i dl s \<longleftrightarrow> i < twNext (wheel s) \<and> i \<notin> fst ` set (fired s) \<and>
     (i \<in> fst ` set (twTimers (wheel s)) \<longrightarrow>
       (\<forall>k t. (i, k, t) \<in> set (twTimers (wheel s)) \<longrightarrow> t = dl) \<and>
       (\<exists>r. 1 \<le> r \<and> r \<le> length (twBuckets (wheel s)) \<and> nextTick s + int (r - 1) * iv < dl \<and>
          i \<in> snd ` set (twBuckets (wheel s) ! ((twPos (wheel s) + r) mod length (twBuckets (wheel s))))))"

lemma stop_timers_running: "i \<in> fst ` set (twTimers (stop_timers is tw)) \<longleftrightarrow> i \<in> fst ` set (twTimers tw) \<and> i \<notin> set is"
  by (force simp: stop_timers_def)

lemma update_keeps_value: "i \<in> snd ` set b \<Longrightarrow> map_of b k \<noteq> Some i \<Longrightarrow> i \<in> snd ` set (AList.update k v b)"
  by (induction b) (auto split: if_splits)

lemma outrunI:
  assumes "i < twNext (wheel s)" "i \<notin> fst ` set (fired s)"
    and "i \<in> fst ` set (twTimers (wheel s)) \<Longrightarrow> (\<forall>k t. (i, k, t) \<in> set (twTimers (wheel s)) \<longrightarrow> t = dl) \<and>
       (\<exists>r. 1 \<le> r \<and> r \<le> length (twBuckets (wheel s)) \<and> nextTick s + int (r - 1) * iv < dl \<and>
          i \<in> snd ` set (twBuckets (wheel s) ! ((twPos (wheel s) + r) mod length (twBuckets (wheel s)))))"
  shows "outrun iv i dl s"
  using assms unfolding outrun_def by blast

lemma outrunD:
  assumes "outrun iv i dl s" "i \<in> fst ` set (twTimers (wheel s))"
  obtains r where "\<forall>k t. (i, k, t) \<in> set (twTimers (wheel s)) \<longrightarrow> t = dl" "1 \<le> r" "r \<le> length (twBuckets (wheel s))"
    "nextTick s + int (r - 1) * iv < dl"
    "i \<in> snd ` set (twBuckets (wheel s) ! ((twPos (wheel s) + r) mod length (twBuckets (wheel s))))"
  using assms unfolding outrun_def by blast

text \<open>Before the wheel reaches the bucket the timer is not due.\<close>

lemma outrun_not_due:
  assumes "outrun iv i dl s" "wheel_ok iv s" "i \<in> fst ` set (twTimers (wheel s))"
  shows "sysNow s < dl"
proof -
  obtain r where r: "1 \<le> r" "nextTick s + int (r - 1) * iv < dl" by (rule outrunD [OF assms(1,3)])
  have "0 < iv" "sysNow s \<le> nextTick s" using assms(2) by (auto simp: wheel_ok_def tw_inv_def)
  then have "sysNow s \<le> nextTick s + int (r - 1) * iv" by (simp add: add_increasing2)
  then show ?thesis using r(2) by simp
qed

lemma outrun_ticks:
  assumes "wheel_ok iv s" "outrun iv i dl s" "s' = s\<lparr>wheel := tw_advance (wheel s), nextTick := nextTick s + twInterval (wheel s)\<rparr>"
  shows "outrun iv i dl s'"
proof (rule outrunI)
  let ?tw = "wheel s" and ?n = "length (twBuckets (wheel s))"
  let ?p = "(twPos ?tw + 1) mod ?n"
  show "i < twNext (wheel s')" "i \<notin> fst ` set (fired s')"
    using assms(2) by (simp_all add: outrun_def assms(3) tw_advance_def Let_def)
  assume run: "i \<in> fst ` set (twTimers (wheel s'))"
  have t: "twTimers (wheel s') = twTimers (stop_timers (map snd (twBuckets ?tw ! ?p)) ?tw)"
    "twBuckets (wheel s') = (twBuckets ?tw)[?p := []]" "twPos (wheel s') = ?p"
    by (simp_all add: assms(3) tw_advance_def Let_def)
  have old: "i \<in> fst ` set (twTimers ?tw)" "i \<notin> snd ` set (twBuckets ?tw ! ?p)"
    using run unfolding t(1) stop_timers_running by simp_all
  obtain r where r: "\<forall>k t. (i, k, t) \<in> set (twTimers ?tw) \<longrightarrow> t = dl" "1 \<le> r" "r \<le> ?n"
    "nextTick s + int (r - 1) * iv < dl" "i \<in> snd ` set (twBuckets ?tw ! ((twPos ?tw + r) mod ?n))"
    by (rule outrunD [OF assms(2) old(1)])
  have ne: "(twPos ?tw + r) mod ?n \<noteq> ?p" using r(5) old(2) by metis
  then obtain q where q: "r = Suc (Suc q)" using r(2) by (metis One_nat_def Suc_le_D le_zero_eq not0_implies_Suc not_one_le_zero)
  have same: "(?p + Suc q) mod ?n = (twPos ?tw + r) mod ?n" unfolding mod_add_left_eq q by simp
  have tm: "nextTick s' + int (Suc q - 1) * iv < dl"
    using r(4) assms(1) by (simp add: q assms(3) wheel_ok_def algebra_simps)
  show "(\<forall>k t. (i, k, t) \<in> set (twTimers (wheel s')) \<longrightarrow> t = dl) \<and>
       (\<exists>r. 1 \<le> r \<and> r \<le> length (twBuckets (wheel s')) \<and> nextTick s' + int (r - 1) * iv < dl \<and>
          i \<in> snd ` set (twBuckets (wheel s') ! ((twPos (wheel s') + r) mod length (twBuckets (wheel s')))))"
  proof (intro conjI exI [of _ "Suc q"])
    show "\<forall>k t. (i, k, t) \<in> set (twTimers (wheel s')) \<longrightarrow> t = dl" using r(1) by (auto simp: t(1) stop_timers_def)
    show "i \<in> snd ` set (twBuckets (wheel s') ! ((twPos (wheel s') + Suc q) mod length (twBuckets (wheel s'))))"
      unfolding t(2,3) length_list_update same nth_list_update_neq [OF ne [symmetric]] by (rule r(5))
  qed (use r(3) q tm in \<open>simp_all add: t(2)\<close>)
qed

lemma outrun_fires:
  assumes "wheel_ok iv s" "outrun iv i dl s"
    and "s' = s\<lparr>wheel := snd (tw_fire (sysNow s) (wheel s)), fired := fired s @ due_timers (sysNow s) (wheel s)\<rparr>"
  shows "outrun iv i dl s'"
proof (rule outrunI)
  have nd: "i \<notin> fst ` set (due_timers (sysNow s) (wheel s))"
  proof
    assume "i \<in> fst ` set (due_timers (sysNow s) (wheel s))"
    then obtain k t where d: "(i, k, t) \<in> set (twTimers (wheel s))" "t \<le> sysNow s" by (auto simp: due_timers_def)
    then have run: "i \<in> fst ` set (twTimers (wheel s))" by force
    then have "t = dl" using d(1) outrunD [OF assms(2) run] by metis
    then show False using outrun_not_due [OF assms(2,1) run] d(2) by simp
  qed
  show "i < twNext (wheel s')" "i \<notin> fst ` set (fired s')"
    using assms(2) nd by (auto simp: outrun_def assms(3) tw_fire_def)
  assume "i \<in> fst ` set (twTimers (wheel s'))"
  then have run: "i \<in> fst ` set (twTimers (wheel s))" by (auto simp: assms(3) tw_fire_def)
  show "(\<forall>k t. (i, k, t) \<in> set (twTimers (wheel s')) \<longrightarrow> t = dl) \<and>
       (\<exists>r. 1 \<le> r \<and> r \<le> length (twBuckets (wheel s')) \<and> nextTick s' + int (r - 1) * iv < dl \<and>
          i \<in> snd ` set (twBuckets (wheel s') ! ((twPos (wheel s') + r) mod length (twBuckets (wheel s')))))"
    by (rule outrunD [OF assms(2) run]) (auto simp: assms(3) tw_fire_def)
qed

lemma outrun_adds:
  assumes "wheel_ok iv s" "outrun iv i dl s" "s' = s\<lparr>wheel := tw_Add (sysNow s) k ttl (wheel s)\<rparr>"
  shows "outrun iv i dl s'"
proof (rule outrunI)
  let ?tw = "wheel s" let ?n = "length (twBuckets ?tw)" and ?q = "wheel_slot ?tw ttl"
  show i: "i < twNext (wheel s')" "i \<notin> fst ` set (fired s')"
    using assms(2) by (simp_all add: outrun_def assms(3) tw_Add_fields)
  assume run: "i \<in> fst ` set (twTimers (wheel s'))"
  have new: "i \<noteq> twNext ?tw" using assms(2) by (simp add: outrun_def)
  have old: "i \<in> fst ` set (twTimers ?tw)" "map_of (twBuckets ?tw ! ?q) k \<noteq> Some i"
    using run new by (force simp: assms(3) tw_Add_def Let_def stop_timers_def split: option.splits)+
  have sub: "(i, k', t) \<in> set (twTimers (wheel s')) \<Longrightarrow> (i, k', t) \<in> set (twTimers ?tw)" for k' t
    using new by (auto simp: assms(3) tw_Add_def Let_def stop_timers_def split: option.splits)
  obtain r where r: "\<forall>k t. (i, k, t) \<in> set (twTimers ?tw) \<longrightarrow> t = dl" "1 \<le> r" "r \<le> ?n"
    "nextTick s + int (r - 1) * iv < dl" "i \<in> snd ` set (twBuckets ?tw ! ((twPos ?tw + r) mod ?n))"
    by (rule outrunD [OF assms(2) old(1)])
  have "i \<in> snd ` set (twBuckets (wheel s') ! ((twPos ?tw + r) mod ?n))"
  proof (cases "(twPos ?tw + r) mod ?n = ?q")
    case True
    have "?q < ?n" using assms(1) by (intro wheel_slot_bound) (simp add: wheel_ok_def)
    then show ?thesis using update_keeps_value [OF r(5) [unfolded True] old(2)] by (simp add: assms(3) tw_Add_fields True)
  next
    case False
    then show ?thesis using r(5) by (simp add: assms(3) tw_Add_fields)
  qed
  then show "(\<forall>k t. (i, k, t) \<in> set (twTimers (wheel s')) \<longrightarrow> t = dl) \<and>
       (\<exists>r. 1 \<le> r \<and> r \<le> length (twBuckets (wheel s')) \<and> nextTick s' + int (r - 1) * iv < dl \<and>
          i \<in> snd ` set (twBuckets (wheel s') ! ((twPos (wheel s') + r) mod length (twBuckets (wheel s')))))"
    using r(1-4) sub by (intro conjI exI [of _ r]) (auto simp: assms(3) tw_Add_frame)
qed

lemma outrun_removes:
  assumes "wheel_ok iv s" "outrun iv i dl s" "s' = s\<lparr>wheel := tw_Remove k (wheel s)\<rparr>"
  shows "outrun iv i dl s'"
proof (rule outrunI)
  let ?tw = "wheel s" let ?n = "length (twBuckets ?tw)"
  show "i < twNext (wheel s')" "i \<notin> fst ` set (fired s')"
    using assms(2) by (simp_all add: outrun_def assms(3) tw_Remove_def Let_def)
  assume run: "i \<in> fst ` set (twTimers (wheel s'))"
  then have old: "i \<in> fst ` set (twTimers ?tw)" "\<forall>b \<in> set (twBuckets ?tw). map_of b k \<noteq> Some i"
    by (force simp: assms(3) tw_Remove_def Let_def stop_timers_def split: option.splits)+
  obtain r where r: "\<forall>k t. (i, k, t) \<in> set (twTimers ?tw) \<longrightarrow> t = dl" "1 \<le> r" "r \<le> ?n"
    "nextTick s + int (r - 1) * iv < dl" "i \<in> snd ` set (twBuckets ?tw ! ((twPos ?tw + r) mod ?n))"
    by (rule outrunD [OF assms(2) old(1)])
  let ?p = "(twPos ?tw + r) mod ?n"
  have p: "?p < ?n" using r(2,3) by (intro mod_less_divisor) linarith
  then have b: "twBuckets ?tw ! ?p \<in> set (twBuckets ?tw)" by (rule nth_mem)
  obtain k' where k': "(k', i) \<in> set (twBuckets ?tw ! ?p)" using r(5) by auto
  have "distinct (map fst (twBuckets ?tw ! ?p))" using assms(1) b by (simp add: wheel_ok_def)
  then have "map_of (twBuckets ?tw ! ?p) k' = Some i" using k' by simp
  then have "k' \<noteq> k" using old(2) b by blast
  then have "(k', i) \<in> set (AList.delete k (twBuckets ?tw ! ?p))" using k' by (simp add: AList.delete_eq)
  then have "i \<in> snd ` set (twBuckets (wheel s') ! ?p)" using p by (force simp: assms(3) tw_Remove_def Let_def)
  then show "(\<forall>k t. (i, k, t) \<in> set (twTimers (wheel s')) \<longrightarrow> t = dl) \<and>
       (\<exists>r. 1 \<le> r \<and> r \<le> length (twBuckets (wheel s')) \<and> nextTick s' + int (r - 1) * iv < dl \<and>
          i \<in> snd ` set (twBuckets (wheel s') ! ((twPos (wheel s') + r) mod length (twBuckets (wheel s')))))"
    using r(1-4) by (intro conjI exI [of _ r]) (auto simp: assms(3) tw_Remove_def stop_timers_def Let_def)
qed

lemma wheel_step_outrun:
  assumes "wheel_step s s'" "wheel_ok iv s" "outrun iv i dl s"
  shows "outrun iv i dl s'"
  using assms(1)
proof cases
  case passes
  then show ?thesis using assms(3) by (simp add: outrun_def)
next
  case ticks
  show ?thesis by (rule outrun_ticks [OF assms(2,3) ticks(1)])
next
  case fires
  show ?thesis by (rule outrun_fires [OF assms(2,3) fires])
next
  case adds
  show ?thesis by (rule outrun_adds [OF assms(2,3) adds])
next
  case removes
  show ?thesis by (rule outrun_removes [OF assms(2,3) removes])
qed

lemma wheel_run_outrun:
  assumes "rtranclp wheel_step s s'" "wheel_ok iv s" "outrun iv i dl s"
  shows "wheel_ok iv s' \<and> outrun iv i dl s'"
  using assms by (induction rule: rtranclp_induct) (blast intro: wheel_step_ok wheel_step_outrun)+

text \<open>A key added for an interval or more, between two ticks, starts outrun.\<close>

lemma added_outrun:
  assumes "wheel_ok iv s" "nextTick s < sysNow s + iv" "iv \<le> ttl"
  shows "outrun iv (twNext (wheel s)) (sysNow s + ttl) (s\<lparr>wheel := tw_Add (sysNow s) k ttl (wheel s)\<rparr>)"
proof (rule outrunI)
  let ?tw = "wheel s" let ?n = "length (twBuckets ?tw)" and ?s = "s\<lparr>wheel := tw_Add (sysNow s) k ttl (wheel s)\<rparr>"
  have i: "tw_inv ?tw" "twInterval ?tw = iv" "0 < iv" "0 < ?n" using assms(1) by (auto simp: wheel_ok_def tw_inv_def)
  show "twNext ?tw < twNext (wheel ?s)" "twNext ?tw \<notin> fst ` set (fired ?s)"
    using assms(1) by (auto simp: wheel_ok_def tw_Add_fields)
  define d where "d = wheel_ticks ?tw ttl"
  define r where "r = (if d mod ?n = 0 then ?n else d mod ?n)"
  have "1 \<le> ttl div iv" using assms(3) i(3) by (simp add: pos_imp_zdiv_pos_iff int_one_le_iff_zero_less)
  then have d: "int d = ttl div iv" "1 \<le> d" using assms(3) i(2,3) by (auto simp: d_def wheel_ticks_def Let_def)
  have "d mod ?n \<le> ?n" using i(4) by (simp add: less_imp_le)
  then have r: "1 \<le> r" "r \<le> ?n" using i(4) unfolding r_def by (simp_all add: Suc_le_eq split: if_split)
  have "r \<le> d" using d(2) by (auto simp: r_def dvd_imp_le mod_eq_0_iff_dvd)
  then have "int (r - 1) * iv \<le> (ttl div iv - 1) * iv" using r(1) d i(3) by (intro mult_right_mono) auto
  moreover have "ttl div iv * iv \<le> ttl" using i(3) by (simp add: minus_mod_eq_div_mult [symmetric])
  ultimately have t: "nextTick s + int (r - 1) * iv < sysNow s + ttl" using assms(2) by (simp add: algebra_simps)
  have at: "t = sysNow s + ttl" if "(twNext ?tw, k', t) \<in> set (twTimers (wheel ?s))" for k' t
    using tw_Add_timer(2) [OF i(1), of "twNext ?tw" k' t "sysNow s" k ttl] that by simp
  have "(twPos ?tw + r) mod ?n = wheel_slot ?tw ttl"
    unfolding wheel_slot_def d_def [symmetric] r_def by (simp add: mod_simps) (metis mod_add_right_eq add.right_neutral)
  then have "twNext ?tw \<in> snd ` set (twBuckets (wheel ?s) ! ((twPos (wheel ?s) + r) mod length (twBuckets (wheel ?s))))"
    using tw_Add_timer(1) [OF i(1)] by (simp add: tw_Add_frame)
  then show "(\<forall>k' t. (twNext ?tw, k', t) \<in> set (twTimers (wheel ?s)) \<longrightarrow> t = sysNow s + ttl) \<and>
       (\<exists>r. 1 \<le> r \<and> r \<le> length (twBuckets (wheel ?s)) \<and> nextTick ?s + int (r - 1) * iv < sysNow s + ttl \<and>
          twNext ?tw \<in> snd ` set (twBuckets (wheel ?s) ! ((twPos (wheel ?s) + r) mod length (twBuckets (wheel ?s)))))"
    using r t at by (intro conjI exI [of _ r]) (simp_all add: tw_Add_frame)
qed

text \<open>It is never handed to the clean-up function, and at its instant it does not run any more.\<close>

lemma added_never_fires:
  assumes "wheel_reachable iv n s" "nextTick s < sysNow s + iv" "iv \<le> ttl"
    and "rtranclp wheel_step (s\<lparr>wheel := tw_Add (sysNow s) k ttl (wheel s)\<rparr>) s'"
  shows "twNext (wheel s) \<notin> fst ` set (fired s')"
    "sysNow s + ttl \<le> sysNow s' \<Longrightarrow> twNext (wheel s) \<notin> fst ` set (twTimers (wheel s'))"
proof -
  note ok = wheel_reachable_ok [OF assms(1)]
  have "wheel_ok iv (s\<lparr>wheel := tw_Add (sysNow s) k ttl (wheel s)\<rparr>)" by (rule wheel_step_ok [OF wheel_step.adds ok])
  then have r: "wheel_ok iv s'" "outrun iv (twNext (wheel s)) (sysNow s + ttl) s'"
    using wheel_run_outrun [OF assms(4) _ added_outrun [OF ok assms(2,3)]] by blast+
  show "twNext (wheel s) \<notin> fst ` set (fired s')" using r(2) by (simp add: outrun_def)
  show "sysNow s + ttl \<le> sysNow s' \<Longrightarrow> twNext (wheel s) \<notin> fst ` set (twTimers (wheel s'))"
    using outrun_not_due [OF r(2,1)] by force
qed

end
