(* ===== verification/CompactSpec.thy ===== *)
theory CompactSpec
  imports BatchSpec Durability KeysSpec Compaction
begin

text \<open>
  What \<open>Compact\<close> does to the contents: the unexpired entries are kept with their values and stamps, the
  others are dropped, and one data file is left, from which a restart rebuilds the same index.
\<close>

section \<open>The rewritten records\<close>

definition moved :: "Platform \<Rightarrow> GojiDBConfig \<Rightarrow> key \<Rightarrow> KeyDir \<Rightarrow> bytes \<Rightarrow> Entry" where
  "moved P cfg k kd v = mk_entry (Timestamp kd) (TTL kd) (snd (pack P cfg v)) k (fst (pack P cfg v))"

lemma moved_sized:
  assumes "plain_fits P cfg k v"
  shows "entry_sized (moved P cfg k kd v)" "length (serializeEntry (moved P cfg k kd v)) = put_cost P cfg k v"
proof -
  show s: "entry_sized (moved P cfg k kd v)"
    using assms by (simp add: moved_def plain_fits_def mk_entry_sized)
  then show "length (serializeEntry (moved P cfg k kd v)) = put_cost P cfg k v"
    by (simp add: entry_sized_def moved_def put_cost_def)
qed

lemma moved_fields [simp]:
  "eKey (moved P cfg k kd v) = k" "eTTL (moved P cfg k kd v) = TTL kd" "eTimestamp (moved P cfg k kd v) = Timestamp kd"
  "verifyCRC (moved P cfg k kd v)"
  by (simp_all add: moved_def)

text \<open>The index of a file that holds the records \<open>es\<close>.\<close>

fun laid_out :: "nat \<Rightarrow> Entry list \<Rightarrow> (key \<times> KeyDir) list" where
  "laid_out pos [] = []"
| "laid_out pos (e # es) = (eKey e, stored_at 1 pos e) # laid_out (pos + length (serializeEntry e)) es"

lemma laid_out_keys [simp]: "map fst (laid_out pos es) = map eKey es"
  by (induction pos es rule: laid_out.induct) simp_all

lemma laid_out_key_set [simp]: "fst ` set (laid_out pos es) = eKey ` set es"
  by (induction pos es rule: laid_out.induct) (simp_all del: length_serializeEntry)

lemma laid_out_append: "laid_out pos (es @ es') = laid_out pos es @ laid_out (pos + length (file_bytes es)) es'"
  by (induction pos es rule: laid_out.induct) (simp_all add: add.assoc del: length_serializeEntry)

lemma update_new: "k \<notin> fst ` set xs \<Longrightarrow> AList.update k v xs = xs @ [(k, v)]"
  by (induction xs) auto

lemma laid_out_snoc:
  assumes "eKey e \<notin> eKey ` set es"
  shows "AList.update (eKey e) (stored_at 1 (length (file_bytes es)) e) (laid_out 0 es) = laid_out 0 (es @ [e])"
  using assms by (simp add: update_new laid_out_append)

text \<open>An entry of that index points to the value of its record.\<close>

lemma laid_out_entry:
  assumes "(k, kd) \<in> set (laid_out pos es)"
  obtains a e b where "es = a @ e # b" "k = eKey e" "kd = stored_at 1 (pos + length (file_bytes a)) e"
  using assms
proof (induction pos es arbitrary: thesis rule: laid_out.induct)
  case (2 pos e es)
  show ?case
  proof (cases "(k, kd) = (eKey e, stored_at 1 pos e)")
    case True
    then show ?thesis using "2.prems"(1) [of "[]" e es] by simp
  next
    case False
    then have "(k, kd) \<in> set (laid_out (pos + length (serializeEntry e)) es)" using "2.prems"(2) by auto
    then obtain a e' b where "es = a @ e' # b" "k = eKey e'"
      "kd = stored_at 1 (pos + length (serializeEntry e) + length (file_bytes a)) e'"
      by (rule "2.IH" [rotated])
    then show ?thesis using "2.prems"(1) [of "e # a" e' b] by (simp add: add.assoc del: length_serializeEntry)
  qed
qed simp

lemma laid_out_value:
  assumes "es = a @ e # b" "entry_sized e" "length (file_bytes es) < 2 ^ 63"
  shows "value_slice (file_bytes es) (stored_at 1 (length (file_bytes a)) e) = eValue e"
    "unat (ValuePos (stored_at 1 (length (file_bytes a)) e)) + unat (ValueSize (stored_at 1 (length (file_bytes a)) e)) \<le>
       length (file_bytes es)"
proof -
  define kd where "kd = stored_at 1 (length (file_bytes a)) e"
  have c: "file_bytes es = (file_bytes a @ serializeEntry e) @ file_bytes b" by (simp add: assms(1))
  have l: "length (file_bytes a) + length (serializeEntry e) < 2 ^ 63"
    using assms(3) unfolding c length_append by linarith
  note s = stored_at_slice [OF assms(2) l, of 1, folded kd_def]
  show "value_slice (file_bytes es) (stored_at 1 (length (file_bytes a)) e) = eValue e"
    unfolding c kd_def [symmetric] using value_slice_grown [OF s(2)] s(1) by simp
  show "unat (ValuePos (stored_at 1 (length (file_bytes a)) e)) + unat (ValueSize (stored_at 1 (length (file_bytes a)) e)) \<le>
       length (file_bytes es)"
    unfolding c kd_def [symmetric] length_append using s(2) [unfolded length_append] by linarith
qed

text \<open>Reading the file at the next start yields that index.\<close>

lemma absorbs_laid_out:
  assumes "distinct (map eKey es)" "\<forall>e \<in> set es. verifyCRC e \<and> \<not> dead_entry P e" "\<forall>e \<in> set es. m (eKey e) = None"
  shows "absorb_all P 1 pos es m = m ++ map_of (laid_out pos es)"
  using assms
proof (induction es arbitrary: pos m)
  case (Cons e es)
  have i: "index_entry 1 (int pos) False e = stored_at 1 pos e" by (simp add: index_entry_def stored_at_def)
  have a: "absorb P 1 pos e m = m(eKey e \<mapsto> stored_at 1 pos e)"
    using Cons.prems(2,3) by (simp add: absorb_def i)
  have new: "\<forall>e' \<in> set es. (m(eKey e \<mapsto> stored_at 1 pos e)) (eKey e') = None"
    using Cons.prems(1,3) by (auto simp: image_iff)
  have none: "map_of (laid_out (pos + length (serializeEntry e)) es) (eKey e) = None"
    using Cons.prems(1) by (simp add: map_of_eq_None_iff del: length_serializeEntry)
  have "absorb_all P 1 pos (e # es) m = (m(eKey e \<mapsto> stored_at 1 pos e)) ++ map_of (laid_out (pos + length (serializeEntry e)) es)"
    unfolding absorb_all.simps a by (rule Cons.IH [OF _ _ new]) (use Cons.prems(1,2) in simp_all)
  also have "\<dots> = m ++ map_of (laid_out pos (e # es))"
    using none by (auto simp: fun_eq_iff map_add_def del: length_serializeEntry split: option.splits)
  finally show ?case .
qed simp

section \<open>The loop over the live keys\<close>

text \<open>The state during the loop: only the temporary file differs, which holds the records \<open>es\<close>.\<close>

definition rewriting :: "bytes \<Rightarrow> GojiDB \<Rightarrow> Entry list \<Rightarrow> GojiDB \<Rightarrow> bool" where
  "rewriting f db0 es db \<longleftrightarrow> keyDir db = keyDir db0 \<and> activeFile db = activeFile db0 \<and> activeFileID db = activeFileID db0 \<and>
     smart db = None \<and> config db = config db0 \<and> wTicks (world db0) \<le> wTicks (world db) \<and>
     (distinct (map fst (wFiles (world db0))) \<longrightarrow> distinct (map fst (wFiles (world db)))) \<and>
     map_of (wFiles (world db)) = (map_of (wFiles (world db0)))(f \<mapsto> file_bytes es)"

lemma not_temporary: "data_name fid \<noteq> str ''compact_'' @ x"
proof
  assume e: "data_name fid = str ''compact_'' @ x"
  obtain b bs where s: "show_nat (unat fid) = b # bs" by (cases "show_nat (unat fid)") simp_all
  then have "is_digit b" using show_nat_digits [of "unat fid"] by simp
  moreover have "b = 99" using e s by (simp add: data_name_def str_def)
  ultimately show False by (simp add: is_digit_def)
qed

lemma rewriting_files:
  assumes "rewriting f db0 es db" "\<And>fid. data_name fid \<noteq> f"
  shows "file_of db = file_of db0" "db_open db = db_open db0"
proof -
  show f: "file_of db = file_of db0" using assms by (auto simp: rewriting_def file_of_def fun_eq_iff)
  show "db_open db = db_open db0" using assms(1) by (simp add: db_open_def f rewriting_def)
qed

lemma readKeyData_live:
  assumes "index_sound db" "entry_inside db kd"
  obtains c where "file_of db (FileID kd) = Some c" "readKeyData db kd = Ok (value_slice c kd)"
proof -
  obtain c where c: "file_of db (FileID kd) = Some c" "unat (ValuePos kd) + unat (ValueSize kd) \<le> length c" "length c < 2 ^ 63"
    using assms unfolding index_sound_def entry_inside_def by blast
  have o: "db_open db" using assms(1) by (simp add: index_sound_def)
  note r = read_at_slice [OF c(2,3)]
  then have "zero_fill (unat (ValueSize kd)) (read_at_partial c (sint (ValuePos kd)) (unat (ValueSize kd))) = value_slice c kd"
    by (auto simp: read_at_def read_at_partial_def zero_fill_def byte_slice_def split: if_splits)
  then have "readKeyData db kd = Ok (value_slice c kd)"
    unfolding readKeyData_def Let_def entry_file_open [OF o] c(1) using r by (simp add: of_option_def)
  then show thesis by (rule that [OF c(1)])
qed

lemma rewrite_one:
  assumes "rewriting f db0 es db" "\<And>fid. data_name fid \<noteq> f" "index_sound db0" "writes_ok P" "smart db0 = None"
    and "live db0 k kd" "db_value P db0 kd = Ok v" "plain_fits P (config db0) k v"
  obtains db1 where "\<And>kvs new. rewriteActiveKeys P f ((k, kd) # kvs) new (int (length (file_bytes es))) db =
      rewriteActiveKeys P f kvs (AList.update k (stored_at 1 (length (file_bytes es)) (moved P (config db0) k kd v)) new)
        (int (length (file_bytes (es @ [moved P (config db0) k kd v])))) db1"
    "rewriting f db0 (es @ [moved P (config db0) k kd v]) db1"
proof -
  let ?cfg = "config db0"
  define e where "e = moved P ?cfg k kd v"
  note rw = assms(1) [unfolded rewriting_def]
  note fs = rewriting_files [OF assms(1,2)]
  have li: "live db = live db0" "entry_inside db = entry_inside db0" using rw by (simp_all add: live_def entry_inside_def fs fun_eq_iff)
  have i: "index_sound db" using assms(3) rw by (simp add: index_sound_def li fs)
  have "entry_inside db kd" using i assms(6) li by (auto simp: index_sound_def)
  then obtain c where c: "file_of db (FileID kd) = Some c" "readKeyData db kd = Ok (value_slice c kd)"
    by (rule readKeyData_live [OF i])
  have sm: "smart db = None" "config db = ?cfg" using rw by blast+
  have d: "db_decompress P db (value_slice c kd) (Compression kd) = Ok v"
    using assms(5,7) c(1) sm(1) by (simp add: db_value_def fs db_decompress_def)
  obtain db2 where p: "db_compress P v db = (Ok (pack P ?cfg v), db2)" "smart db2 = None"
    using db_compress_plain [OF sm(1)] sm(2) by metis
  have s2: "same_store db db2" by (rule db_compress_frame [OF p(1)])
  then have k2: "keyDir db2 = keyDir db" "activeFile db2 = activeFile db" "activeFileID db2 = activeFileID db" "config db2 = config db"
    "wFiles (world db2) = wFiles (world db)" "wTicks (world db) \<le> wTicks (world db2)"
    by (simp_all add: same_store_def db_core_def)
  have pk: "processKeyData P (value_slice c kd) kd db = (Ok (pack P ?cfg v), db2)"
    using d p(1) by (simp add: processKeyData_def)
  have ct: "contents f (wFiles (world db2)) = file_bytes es" using rw k2(5) by (simp add: contents_def)
  define db1 where "db1 = db2\<lparr>world := (world db2)\<lparr>wFiles := AList.update f (file_bytes es @ serializeEntry e) (wFiles (world db2)),
       wWrites := Suc (wWrites (world db2))\<rparr>\<rparr>"
  have ap: "append_file P (Some f) (serializeEntry e) (world db2) = (Ok (), world db1)"
    using assms(4) ct by (simp add: append_file_ok writes_ok_def db1_def)
  have w1: "db2\<lparr>world := world db1\<rparr> = db1" by (simp add: db1_def)
  have run: "rewriteActiveKeys P f ((k, kd) # kvs) new (int (length (file_bytes es))) db =
      rewriteActiveKeys P f kvs (AList.update k (stored_at 1 (length (file_bytes es)) e) new)
        (int (length (file_bytes (es @ [e])))) db1" for kvs new
  proof -
    obtain z a where za: "pack P ?cfg v = (z, a)" by (rule prod.exhaust)
    have e: "createEntry k z kd a = e" by (simp add: e_def moved_def createEntry_def za)
    have l: "int (length (file_bytes es)) + int (length (serializeEntry e)) = int (length (file_bytes (es @ [e])))" by simp
    have st: "stored_at 1 (length (file_bytes es)) e = \<lparr>FileID = 1, ValueSize = eValueSize e,
        ValuePos = value_pos (int (length (file_bytes es))) e, Timestamp = eTimestamp e, TTL = eTTL e,
        Compression = eCompression e, Deleted = False\<rparr>" by (simp add: stored_at_def)
    show ?thesis
      by (simp add: c(2) pk za e ap w1 l st del: length_serializeEntry file_bytes_simps)
  qed
  have "rewriting f db0 (es @ [e]) db1"
    using rw k2 p(2) by (auto simp: rewriting_def db1_def update_conv' distinct_update)
  with run show thesis unfolding e_def by (rule that)
qed

text \<open>The value of a key, where the view has one.\<close>

definition value_of :: "Platform \<Rightarrow> GojiDB \<Rightarrow> key \<Rightarrow> bytes" where
  "value_of P db k = (case db_view P db k of Some (Ok v, _) \<Rightarrow> v | _ \<Rightarrow> [])"

definition moved_all :: "Platform \<Rightarrow> GojiDB \<Rightarrow> (key \<times> KeyDir) list \<Rightarrow> Entry list" where
  "moved_all P db kvs = map (\<lambda>(k, kd). moved P (config db) k kd (value_of P db k)) kvs"

lemma moved_all_keys [simp]: "map eKey (moved_all P db kvs) = map fst kvs"
  by (simp add: moved_all_def case_prod_beta comp_def)

lemma moved_all_key_set [simp]: "eKey ` set (moved_all P db kvs) = fst ` set kvs"
  by (metis list.set_map moved_all_keys)

definition movable :: "Platform \<Rightarrow> GojiDB \<Rightarrow> key \<Rightarrow> KeyDir \<Rightarrow> bool" where
  "movable P db k kd \<longleftrightarrow> live db k kd \<and> db_value P db kd = Ok (value_of P db k) \<and> plain_fits P (config db) k (value_of P db k)"

lemma rewrite_all:
  assumes "\<And>fid. data_name fid \<noteq> f" "index_sound db0" "writes_ok P" "smart db0 = None"
    and "\<forall>(k, kd) \<in> set kvs. movable P db0 k kd" "distinct (map fst kvs)" "fst ` set kvs \<inter> eKey ` set es = {}"
    and "rewriting f db0 es db"
  shows "\<exists>db1. rewriteActiveKeys P f kvs (laid_out 0 es) (int (length (file_bytes es))) db =
      (Ok (laid_out 0 (es @ moved_all P db0 kvs)), db1) \<and> rewriting f db0 (es @ moved_all P db0 kvs) db1"
  using assms(5-8)
proof (induction kvs arbitrary: es db)
  case Nil
  then show ?case by (simp add: moved_all_def)
next
  case (Cons kv kvs)
  obtain k kd where kv: "kv = (k, kd)" by (rule prod.exhaust)
  let ?e = "moved P (config db0) k kd (value_of P db0 k)"
  have m: "live db0 k kd" "db_value P db0 kd = Ok (value_of P db0 k)" "plain_fits P (config db0) k (value_of P db0 k)"
    using Cons.prems(1) by (simp_all add: kv movable_def)
  obtain db1 where s: "\<And>kvs new. rewriteActiveKeys P f ((k, kd) # kvs) new (int (length (file_bytes es))) db =
      rewriteActiveKeys P f kvs (AList.update k (stored_at 1 (length (file_bytes es)) ?e) new) (int (length (file_bytes (es @ [?e])))) db1"
    "rewriting f db0 (es @ [?e]) db1"
    by (rule rewrite_one [OF Cons.prems(4) assms(1-4) m]) (rule that; assumption)
  have "k \<notin> eKey ` set es" using Cons.prems(3) by (auto simp: kv)
  then have new: "AList.update k (stored_at 1 (length (file_bytes es)) ?e) (laid_out 0 es) = laid_out 0 (es @ [?e])"
    using laid_out_snoc [of ?e es] by simp
  have "\<exists>db2. rewriteActiveKeys P f kvs (laid_out 0 (es @ [?e])) (int (length (file_bytes (es @ [?e])))) db1 =
      (Ok (laid_out 0 ((es @ [?e]) @ moved_all P db0 kvs)), db2) \<and> rewriting f db0 ((es @ [?e]) @ moved_all P db0 kvs) db2"
    by (rule Cons.IH [OF _ _ _ s(2)]) (use Cons.prems in \<open>auto simp: kv\<close>)
  moreover have "(es @ [?e]) @ moved_all P db0 kvs = es @ moved_all P db0 (kv # kvs)" by (simp add: moved_all_def kv)
  ultimately show ?case unfolding kv s(1) new by simp
qed

section \<open>Replacing the files\<close>

lemma map_of_rev:
  assumes "distinct (map fst xs)"
  shows "map_of (rev xs) = map_of xs"
  by (subst map_of_inject_set) (simp_all add: assms rev_map [symmetric])

lemma map_of_deletes: "map_of (fold AList.delete gs fs) g = (if g \<in> set gs then None else map_of fs g)"
  by (induction gs arbitrary: fs) (auto simp: delete_conv')

lemma distinct_deletes: "distinct (map fst fs) \<Longrightarrow> distinct (map fst (fold AList.delete gs fs))"
  by (induction gs arbitrary: fs) (simp_all add: distinct_delete)

definition replaced :: "bytes \<Rightarrow> GojiDB \<Rightarrow> Entry list \<Rightarrow> GojiDB \<Rightarrow> bool" where
  "replaced f db0 es db \<longleftrightarrow> cm_inv (keyDir db) \<and> cm_Get (keyDir db) = map_of (laid_out 0 es) \<and>
     activeFile db = Some (data_name 1) \<and> activeFileID db = 1 \<and> smart db = None \<and> config db = config db0 \<and>
     wTicks (world db0) \<le> wTicks (world db) \<and>
     (distinct (map fst (wFiles (world db0))) \<longrightarrow> distinct (map fst (wFiles (world db)))) \<and>
     map_of (wFiles (world db)) = (\<lambda>g. if g = data_name 1 then Some (file_bytes es)
       else if g = f \<or> has_suffix g DataSuffix then None else map_of (wFiles (world db0)) g)"

lemma finalize_replaces:
  assumes "rewriting f db0 es db" "\<And>fid. data_name fid \<noteq> f" "order_ok P" "distinct (map eKey es)"
  obtains db' where "finalizeCompaction P f (laid_out 0 es) db = (Ok (), db')" "replaced f db0 es (remove_file f db')"
proof -
  note rw = assms(1) [unfolded rewriting_def]
  let ?fs = "wFiles (world db)" and ?one = "data_name 1"
  define gone where "gone = filter (\<lambda>g. g \<noteq> f) (glob_data ?fs)"
  define fs1 where "fs1 = fold AList.delete gone ?fs"
  define fs2 where "fs2 = AList.update ?one (file_bytes es) (AList.delete f fs1)"
  have g: "g \<in> set gone \<longleftrightarrow> g \<noteq> f \<and> has_suffix g DataSuffix \<and> map_of ?fs g \<noteq> None" for g
    by (auto simp: gone_def set_glob_data)
  have m1: "map_of fs1 f = Some (file_bytes es)" using rw g by (simp add: fs1_def map_of_deletes)
  have "map_of fs2 = (\<lambda>g. if g = ?one then Some (file_bytes es)
       else if g = f \<or> has_suffix g DataSuffix then None else map_of (wFiles (world db0)) g)"
    using rw g by (auto simp: fs2_def update_conv' delete_conv' fs1_def map_of_deletes fun_eq_iff)
  note m2 = this
  let ?w = "(world db)\<lparr>wFiles := fs2\<rparr>"
  define kds where "kds = fold (\<lambda>(k, kd). cm_Set k kd) (visit P (wTicks ?w) (laid_out 0 es)) (NewConcurrentMap 16)"
  define db' where "db' = db\<lparr>activeFile := Some ?one, readFiles := [], world := ?w, activeFileID := 1, keyDir := kds\<rparr>"
  have d: "distinct (map fst (laid_out 0 es))" using assms(4) by simp
  have i: "cm_inv (NewConcurrentMap 16)" by (simp add: cm.inv_new)
  have k: "kds = cm.set_all (visit P (wTicks ?w) (laid_out 0 es)) (NewConcurrentMap 16)"
    by (simp add: kds_def cm.set_all_def)
  have "cm_Get kds = map_of (rev (visit P (wTicks ?w) (laid_out 0 es)))"
    unfolding k by (rule ext) (simp add: cm.get_set_all [OF i] cm.get_new split: option.split)
  also have "\<dots> = map_of (laid_out 0 es)"
    unfolding map_of_rev [OF visit_distinct [OF assms(3) d]] by (rule visit_map_of [OF assms(3) d])
  finally have get: "cm_Get kds = map_of (laid_out 0 es)" .
  have cm: "create_missing ?one fs2 = fs2" by (simp add: create_missing_def m2)
  have rn: "rename_file f ?one fs1 = Some fs2" using assms(2) [of 1] by (simp add: rename_file_def m1 fs2_def)
  have run: "finalizeCompaction P f (laid_out 0 es) db = (Ok (), db')"
    by (simp add: finalizeCompaction_def cleanupOldFiles_def gone_def [symmetric] fs1_def [symmetric] rn
        updateDatabaseState_def openActiveFile_def cm db'_def kds_def Let_def)
  have "map_of (AList.delete f fs2) = map_of fs2" using assms(2) [of 1] by (auto simp: delete_conv' m2 fun_eq_iff)
  moreover have "distinct (map fst (AList.delete f fs2))" if "distinct (map fst ?fs)"
    using that by (simp add: fs2_def fs1_def distinct_delete distinct_update distinct_deletes)
  ultimately have "replaced f db0 es (remove_file f db')"
    using rw get m2 cm.inv_set_all [OF i] by (simp add: replaced_def remove_file_def db'_def k)
  with run show thesis by (rule that)
qed

section \<open>The whole compaction\<close>

text \<open>The unexpired part of a view at a time.\<close>

definition current :: "32 word \<Rightarrow> view \<Rightarrow> view" where
  "current now m = (\<lambda>k. if listed m now k then m k else None)"

text \<open>Every entry can be rewritten, and the records fit into one file.\<close>

definition compactable :: "Platform \<Rightarrow> GojiDB \<Rightarrow> bool" where
  "compactable P db \<longleftrightarrow>
     (\<forall>k v x. db_view P db k = Some (v, x) \<longrightarrow> v = Ok (value_of P db k) \<and> plain_fits P (config db) k (value_of P db k)) \<and>
     (\<Sum>k \<in> dom (db_view P db). put_cost P (config db) k (value_of P db k)) < 2 ^ 63"

lemma moved_all_bytes:
  assumes "\<forall>(k, kd) \<in> set kvs. movable P db k kd"
  shows "length (file_bytes (moved_all P db kvs)) = (\<Sum>(k, kd) \<leftarrow> kvs. put_cost P (config db) k (value_of P db k))"
  using assms
proof (induction kvs)
  case (Cons kv kvs)
  obtain k kd where kv: "kv = (k, kd)" by (rule prod.exhaust)
  then have "length (serializeEntry (moved P (config db) k kd (value_of P db k))) = put_cost P (config db) k (value_of P db k)"
    using Cons.prems by (intro moved_sized(2)) (simp add: movable_def)
  then show ?case using Cons by (simp add: kv moved_all_def del: length_serializeEntry)
qed (simp add: moved_all_def)

lemma value_of_view: "movable P db k kd \<Longrightarrow> db_view P db k = Some (Ok (value_of P db k), TTL kd)"
  by (simp add: movable_def live_def db_view_def)

lemma replaced_view:
  assumes "replaced f db es db'" "es = moved_all P db kvs" "\<forall>(k, kd) \<in> set kvs. movable P db k kd"
    and "distinct (map fst kvs)" "length (file_bytes es) < 2 ^ 63"
  shows "index_sound db'" "db_view P db' k = (if k \<in> fst ` set kvs then db_view P db k else None)"
proof -
  note r = assms(1) [unfolded replaced_def]
  have f: "file_of db' fid = (if fid = 1 then Some (file_bytes es) else None)" for fid
    using r by (simp add: file_of_def)
  have o: "db_open db'" using r by (simp add: db_open_def f)
  have entry: "\<exists>kd0. (k, kd0) \<in> set kvs \<and> entry_inside db' kd \<and> db_value P db' kd = Ok (value_of P db k) \<and> TTL kd = TTL kd0"
    if "cm_Get (keyDir db') k = Some kd" for k kd
  proof -
    have "(k, kd) \<in> set (laid_out 0 es)" using that r by (auto dest: map_of_SomeD)
    then obtain a e b where l: "es = a @ e # b" "k = eKey e" "kd = stored_at 1 (0 + length (file_bytes a)) e"
      by (rule laid_out_entry)
    have "e \<in> set (moved_all P db kvs)" unfolding assms(2) [symmetric] l(1) by simp
    then obtain k1 kd0 where kd1: "(k1, kd0) \<in> set kvs" "e = moved P (config db) k1 kd0 (value_of P db k1)"
      by (auto simp: moved_all_def)
    then have "k1 = k" unfolding l(2) by simp
    note kd0 = kd1 [unfolded this]
    have mv: "movable P db k kd0" using assms(3) kd0(1) by blast
    have sz: "entry_sized e" unfolding kd0(2) by (rule moved_sized) (use mv in \<open>simp add: movable_def\<close>)
    note v = laid_out_value [OF l(1) sz assms(5), folded l(3) [unfolded add_0]]
    have fs: "FileID kd = 1" "Compression kd = eCompression e" "TTL kd = eTTL e" by (simp_all add: l(3))
    have "entry_inside db' kd" using v(2) by (simp add: entry_inside_def f fs(1))
    moreover have "db_value P db' kd = decompressChunk P (eValue e) (eCompression e)"
      using v(1) r by (simp add: db_value_def f fs(1,2) db_decompress_def)
    then have "db_value P db' kd = Ok (value_of P db k)" using unpack [of P "config db"] mv by (simp add: kd0(2) moved_def movable_def plain_fits_def)
    moreover have "TTL kd = TTL kd0" by (simp add: fs(3) kd0(2))
    ultimately show ?thesis using kd0(1) by blast
  qed
  have "entry_inside db' kd" if "live db' k kd" for k kd using entry [of k kd] that by (auto simp: live_def)
  then show "index_sound db'" using r o assms(5) by (simp add: index_sound_def f)
  have dead: "\<not> Deleted kd" if "cm_Get (keyDir db') k = Some kd" for kd
  proof -
    have "(k, kd) \<in> set (laid_out 0 es)" using that r by (auto dest: map_of_SomeD)
    then show ?thesis by (rule laid_out_entry) simp
  qed
  have none: "cm_Get (keyDir db') k = None \<longleftrightarrow> k \<notin> fst ` set kvs"
    using r by (simp add: map_of_eq_None_iff assms(2))
  show "db_view P db' k = (if k \<in> fst ` set kvs then db_view P db k else None)"
  proof (cases "cm_Get (keyDir db') k")
    case None
    then show ?thesis using none by (simp add: db_view_def)
  next
    case (Some kd)
    obtain kd0 where kd0: "(k, kd0) \<in> set kvs" "db_value P db' kd = Ok (value_of P db k)" "TTL kd = TTL kd0"
      using entry [OF Some] by blast
    have "movable P db k kd0" using assms(3) kd0(1) by blast
    from value_of_view [OF this] show ?thesis
      using Some dead [OF Some] kd0 none by (simp add: db_view_def [of P db'])
  qed
qed

lemma compact_run:
  assumes "index_sound db" "smart db = None" "writes_ok P" "order_ok P" "compactable P db"
  obtains f kvs db' where "Compact P db = (Ok (), db')" "replaced f db (moved_all P db kvs) db'"
    "\<forall>(k, kd) \<in> set kvs. movable P db k kd" "distinct (map fst kvs)" "length (file_bytes (moved_all P db kvs)) < 2 ^ 63"
    "fst ` set kvs = {k. listed (db_view P db) (unix32 (clock P (Suc (wTicks (world db))))) k}"
proof -
  let ?now = "unix32 (clock P (Suc (wTicks (world db))))"
  obtain f db1 where c1: "createCompactFile P (bump (\<lambda>m. m\<lparr>CompactionCount := CompactionCount m + 1\<rparr>) db) = (f, db1)"
    by (rule prod.exhaust)
  have f: "f = str ''compact_'' @ show_int (clock P (wTicks (world db))) @ DataSuffix"
    and d1: "keyDir db1 = keyDir db" "activeFile db1 = activeFile db" "activeFileID db1 = activeFileID db" "smart db1 = None"
      "config db1 = config db" "wTicks (world db1) = Suc (wTicks (world db))" "wFiles (world db1) = AList.update f [] (wFiles (world db))"
    using c1 assms(2) by (auto simp: createCompactFile_def db_now_eq Let_def)
  have nf: "data_name fid \<noteq> f" for fid unfolding f by (rule not_temporary)
  define db2 where "db2 = snd (db_now P db1)"
  define active where "active = range_keys (unexpired ?now) db2"
  have c2: "collectActiveKeys P db1 = (active, db2)" by (simp add: collectActiveKeys_def active_def db2_def db_now_eq d1(6))
  define kvs where "kvs = visit P (wTicks (world db2)) active"
  have k2: "keyDir db2 = keyDir db" by (simp add: db2_def db_now_eq d1(1))
  have i: "cm_inv (keyDir db)" using assms(1) by (simp add: index_sound_def)
  note g = range_keys_get [of db2, unfolded k2, OF i]
  have d: "distinct (map fst active)" unfolding active_def by (rule g(1))
  have dist: "distinct (map fst kvs)" unfolding kvs_def by (rule visit_distinct [OF assms(4) d])
  have "map_of kvs = map_of active" unfolding kvs_def by (rule visit_map_of [OF assms(4) d])
  then have set: "set kvs = set active" using map_of_inject_set [OF dist d] by blast
  have mem: "(k, kd) \<in> set kvs \<longleftrightarrow> cm_Get (keyDir db) k = Some kd \<and> unexpired ?now kd" for k kd
    unfolding set active_def by (rule g(2))
  have mv: "\<forall>(k, kd) \<in> set kvs. movable P db k kd"
  proof (clarify, unfold mem)
    fix k kd
    assume "cm_Get (keyDir db) k = Some kd \<and> unexpired ?now kd"
    then have l: "live db k kd" by (simp add: live_def unexpired_def)
    then show "movable P db k kd" using assms(5) db_view_live [of P db k] unfolding compactable_def movable_def by blast
  qed
  have keys: "fst ` set kvs = {k. listed (db_view P db) ?now k}"
  proof (rule set_eqI)
    fix k
    have "k \<in> fst ` set kvs \<longleftrightarrow> (\<exists>kd. (k, kd) \<in> set kvs)" by (force simp: image_iff)
    also have "\<dots> \<longleftrightarrow> listed (db_view P db) ?now k"
      unfolding mem listed_def db_view_live live_def unexpired_def by blast
    finally show "k \<in> fst ` set kvs \<longleftrightarrow> k \<in> {k. listed (db_view P db) ?now k}" by simp
  qed
  have "(\<Sum>(k, kd) \<leftarrow> kvs. put_cost P (config db) k (value_of P db k)) =
      sum_list (map (\<lambda>k. put_cost P (config db) k (value_of P db k)) (map fst kvs))"
    by (simp add: case_prod_beta' comp_def)
  also have "\<dots> = (\<Sum>k \<in> fst ` set kvs. put_cost P (config db) k (value_of P db k))"
    using sum_list_distinct_conv_sum_set [OF dist] by simp
  also have "\<dots> \<le> (\<Sum>k \<in> dom (db_view P db). put_cost P (config db) k (value_of P db k))"
  proof (rule sum_mono2)
    have "finite (fst ` set (cm_entries (keyDir db)))" by simp
    moreover have "dom (db_view P db) \<subseteq> fst ` set (cm_entries (keyDir db))"
      using cm.entries_get [OF i] by (force simp: db_view_def split: option.splits)
    ultimately show "finite (dom (db_view P db))" by (rule finite_subset [rotated])
    show "fst ` set kvs \<subseteq> dom (db_view P db)" using keys by (auto simp: listed_def)
  qed simp
  also have "\<dots> < 2 ^ 63" using assms(5) by (simp add: compactable_def)
  finally have len: "length (file_bytes (moved_all P db kvs)) < 2 ^ 63" unfolding moved_all_bytes [OF mv] .
  have "rewriting f db [] db2" by (simp add: rewriting_def db2_def db_now_eq d1 update_conv' distinct_update)
  from rewrite_all [OF nf assms(1,3,2) mv dist _ this] obtain db3 where
    rw: "rewriteActiveKeys P f kvs [] 0 db2 = (Ok (laid_out 0 (moved_all P db kvs)), db3)" "rewriting f db (moved_all P db kvs) db3"
    by auto
  obtain db4 where fin: "finalizeCompaction P f (laid_out 0 (moved_all P db kvs)) db3 = (Ok (), db4)"
    "replaced f db (moved_all P db kvs) (remove_file f db4)"
    by (rule finalize_replaces [OF rw(2) nf assms(4)]) (simp add: dist, rule that)
  have "Compact P db = (Ok (), remove_file f db4)"
    using c1 c2 rw(1) fin(1) by (simp add: Compact_def kvs_def [symmetric] Let_def)
  then show thesis by (rule that [OF _ fin(2) mv dist len keys])
qed

lemma Compact_view:
  assumes "index_sound db" "smart db = None" "writes_ok P" "order_ok P" "compactable P db" "Compact P db = (r, db')"
  shows "r = Ok ()" "index_sound db'" "smart db' = None" "config db' = config db" "activeFileID db' = 1"
    "db_view P db' = current (unix32 (clock P (Suc (wTicks (world db))))) (db_view P db)"
proof -
  obtain f kvs db1 where c: "Compact P db = (Ok (), db1)" "replaced f db (moved_all P db kvs) db1"
    "\<forall>(k, kd) \<in> set kvs. movable P db k kd" "distinct (map fst kvs)" "length (file_bytes (moved_all P db kvs)) < 2 ^ 63"
    "fst ` set kvs = {k. listed (db_view P db) (unix32 (clock P (Suc (wTicks (world db))))) k}"
    by (rule compact_run [OF assms(1-5)])
  have e: "r = Ok ()" "db' = db1" using c(1) assms(6) by simp_all
  then show "r = Ok ()" "smart db' = None" "config db' = config db" "activeFileID db' = 1" using c(2) by (simp_all add: replaced_def)
  note v = replaced_view [OF c(2) refl c(3-5), folded e(2)]
  show "index_sound db'" by (rule v(1))
  show "db_view P db' = current (unix32 (clock P (Suc (wTicks (world db))))) (db_view P db)"
    by (rule ext) (simp add: v(2) current_def c(6))
qed

text \<open>The one file that is left holds all of it: the database stays durable.\<close>

lemma Compact_durable:
  assumes "index_sound db" "smart db = None" "writes_ok P" "order_ok P" "compactable P db" "Compact P db = (r, db')"
    and "durable P db" "clock32 P" "\<And>k x. db_view P db k \<noteq> Some (Ok TombstoneValue, x)"
  shows "durable P db'"
proof -
  obtain f kvs db1 where c: "Compact P db = (Ok (), db1)" "replaced f db (moved_all P db kvs) db1"
    "\<forall>(k, kd) \<in> set kvs. movable P db k kd" "distinct (map fst kvs)" "length (file_bytes (moved_all P db kvs)) < 2 ^ 63"
    by (rule compact_run [OF assms(1-5)])
  have e: "db' = db1" using c(1) assms(6) by simp
  note rp = c(2) [folded e, unfolded replaced_def]
  let ?es = "moved_all P db kvs"
  have rec: "\<exists>k kd. movable P db k kd \<and> x = moved P (config db) k kd (value_of P db k)" if "x \<in> set ?es" for x
    using that c(3) unfolding moved_all_def by fastforce
  obtain ls where ls: "disk_log (world db) ls" "\<forall>e \<in> log_entries ls. eTimestamp e \<le> unix32 (clock P (wTicks (world db)))"
    "same_live (log_index P ls Map.empty) (cm_Get (keyDir db))"
    using assms(7) unfolding durable_def by blast
  have "set (glob_data (wFiles (world db'))) = {data_name 1}" using rp by (auto simp: set_glob_data split: if_splits)
  moreover have "\<forall>x \<in> set ?es. entry_sized x" using rec moved_sized(1) by (fastforce simp: movable_def)
  moreover have "distinct (map fst (wFiles (world db)))" using ls(1) by (simp add: disk_log_def)
  ultimately have log: "disk_log (world db') [(1, ?es)]" using rp by (simp add: disk_log_def)
  have "eTimestamp x \<le> unix32 (clock P (wTicks (world db')))" if x: "x \<in> set ?es" for x
  proof -
    obtain k kd where m: "movable P db k kd" "x = moved P (config db) k kd (value_of P db k)" using rec [OF x] by blast
    have "log_index P ls Map.empty k = Some kd" using ls(3) m(1) unfolding same_live_def movable_def live_def by blast
    then obtain y where "y \<in> log_entries ls" "Timestamp kd = eTimestamp y"
      using log_index_from [of P ls Map.empty k kd] unfolding log_entries_def by force
    then have "eTimestamp x \<le> unix32 (clock P (wTicks (world db)))" using ls(2) m(2) by simp
    also have "\<dots> \<le> unix32 (clock P (wTicks (world db')))" using rp by (intro unix32_mono [OF assms(8)]) blast
    finally show ?thesis .
  qed
  moreover have "log_index P [(1, ?es)] Map.empty = cm_Get (keyDir db')"
  proof -
    have "\<not> dead_entry P x" if x: "x \<in> set ?es" for x
    proof -
      obtain k kd where m: "movable P db k kd" "x = moved P (config db) k kd (value_of P db k)" using rec [OF x] by blast
      have "value_of P db k \<noteq> TombstoneValue" using assms(9) value_of_view [OF m(1)] by metis
      then show ?thesis using unpack [of P "config db"] m(1) by (simp add: m(2) dead_entry_def moved_def movable_def plain_fits_def)
    qed
    moreover have "verifyCRC x" if "x \<in> set ?es" for x using rec [OF that] by auto
    ultimately show ?thesis using absorbs_laid_out [of ?es P Map.empty 0] rp c(4) by simp
  qed
  ultimately show ?thesis
    unfolding durable_def using log rp by (intro exI [of _ "[(1, ?es)]"]) (simp add: log_entries_def same_live_def)
qed

end
