(* ===== verification/Spec2Isabelle.thy ===== *)
theory Spec2Isabelle
  imports BatchSpec Compaction Transaction Snapshots RecoverySpec SampleStates Locks WorkQueues Pools Display CliSpec WheelRuns CompactSpec
begin

text \<open>
  GojiDB: a key-value store that appends records to data files and keeps an index of them in memory.

  The program and the theories that model it:

  \<^item> \<open>src/entry.go\<close>, \<open>src/crc32.go\<close>: records of the data files (\<open>EntryFormat\<close>, \<open>Crc32\<close>).
  \<^item> \<open>src/concurrent.go\<close>: the sharded index (\<open>ShardedMap\<close>).
  \<^item> \<open>src/cache.go\<close>: the LRU cache and the block and key caches over it (\<open>Cache\<close>).
  \<^item> \<open>src/smart_compression.go\<close>: the byte formats (\<open>Codecs\<close>) and the compressor (\<open>SmartCompression\<close>).
  \<^item> \<open>src/config.go\<close>: the configuration and its defaults (\<open>Config\<close>).
  \<^item> \<open>src/wal.go\<close>: the write-ahead log (\<open>Wal\<close>), its replay (\<open>Startup\<close>).
  \<^item> \<open>src/ttl.go\<close>: the expiry heap and the time wheel (\<open>TTL\<close>).
  \<^item> \<open>src/db.go\<close>: single-key operations (\<open>Engine\<close>), opening (\<open>Startup\<close>), batches (\<open>Batch\<close>),
    compaction (\<open>Compaction\<close>), what is printed about a database (\<open>Texts\<close>, \<open>Display\<close>).
  \<^item> \<open>src/transaction.go\<close>, \<open>src/snapshot.go\<close>: \<open>Transaction\<close>, \<open>Snapshots\<close>.
  \<^item> \<open>src/concurrent.go\<close>, the sharded lock and the work queue: \<open>Locks\<close>, \<open>WorkQueues\<close>; \<open>src/pool.go\<close>: \<open>Pools\<close>.
  \<^item> \<open>src/cli.go\<close>: the packages it uses on texts (\<open>CommandText\<close>), the commands (\<open>Cli\<close>, \<open>CliModes\<close>, \<open>CliReports\<close>,
    \<open>CliBenchmark\<close>, the unused methods in \<open>CliMethods\<close>), the command table and the loop (\<open>CliShell\<close>).

  What is proved about them, from the parts to the whole. Each theory above ends with the lemmas on its own
  operations. Over them stand: \<open>EngineSpec\<close>, the meaning of a state (\<open>db_view\<close>, the map from keys to values
  and stamps) and the invariant under which the caches agree with the files (\<open>db_sound\<close>; \<open>index_sound\<close> is the
  part without the caches); \<open>PutSpec\<close> and \<open>StoreSpec\<close>, the writing operations as map updates; \<open>KeysSpec\<close>,
  enumeration and expiry; \<open>ReadBack\<close>, the reads after a write; \<open>BatchSpec\<close> and \<open>CompactSpec\<close>, batches and
  compaction; \<open>RecoverySpec\<close>, \<open>Durability\<close> and \<open>LogReplay\<close>, what is found again at a start, from the data files
  and from the log; \<open>Session\<close>, all of this over a whole session; \<open>WheelRuns\<close>, the time wheel in time; \<open>CliSpec\<close>,
  what typed lines do. \<open>Sample\<close> and \<open>SampleStates\<close> hold the concrete surroundings and states of the examples.

  The reach of the theorems on contents: the plain codecs (no smart compressor) unless a theorem says
  otherwise; the log may be on, but then a start replays it. \<open>Get\<close> is specified for values that do not start a
  block of 4096 bytes, and for those that do it is shown to return the block. \<open>session_env\<close> collects what a
  session assumes. The queue and the locks are interleavings of the steps of goroutines; everything else is
  sequential, and a goroutine that a call starts is only entered in \<open>pending\<close>: that a compaction started in the
  background runs between two calls is not part of a session.

  How the state corresponds to the code. An open database is the record \<open>GojiDB\<close> with the fields of the
  struct of that name; files, snapshot directories, the number of clock readings and of writes are the
  record \<open>World\<close> inside it. An operation takes the state and returns an outcome with the state it leaves.
  An outcome is a value, an error, a panic, or \<open>Blocked\<close> for a call that waits on a channel nobody
  serves. A method that holds the lock of its object from beginning to end is one step. A goroutine that
  a call starts is entered in the list \<open>pending\<close>; \<open>run_task\<close> runs one.

  What is not under \<open>src/\<close> is a field of the record \<open>Platform\<close>, an argument of the definitions that use
  it: the compression packages, SHA-256, the JSON of a log record, the clock, the number of processors,
  the order in which Go visits a map, and which writes to a file fail. The laws that a theorem needs of
  them are the named predicates \<open>codec_ok\<close>, \<open>formats_distinct\<close>, \<open>sha_separates\<close>, \<open>wal_ok\<close>, \<open>order_ok\<close>,
  \<open>writes_ok\<close>, \<open>clock_mono\<close> and \<open>clock32\<close>; \<open>Sample\<close> defines one platform that satisfies them (with the clock in 32
  bits: \<open>sample32\<close>), on which the examples are evaluated. The surroundings of the command line are the record
  \<open>CliEnv\<close>: the lines typed are a list, what is shown is a list of labelled values.

  Shared interfaces are locales, each interpreted on the model: \<open>frame_codec\<close> (self-delimiting
  encodings: data files, the log), \<open>byte_fold\<close> (the running checksum), \<open>map_store\<close> (the sharded index),
  \<open>cache_store\<close> (the LRU cache), \<open>expiry_store\<close> (the expiry heap), \<open>kv_store\<close> (what transactions and the replay
  of the log rely on; the engine with the plain codecs is its model), \<open>clean_pool\<close> (the object pools).

  Loops that consume a list or a reader are recursive functions whose termination is proved (the reader
  gets shorter, the heap gets smaller); none needs fuel.

  Not modelled: \<open>float64\<close> rounding (reals are used), data races between goroutines (where one is
  possible the text says so), a data file that cannot be opened or created, the bytes that a failing decoder
  returns beside its error, colours and layout of the terminal, and the components that the manifest lists as
  such.
\<close>

section \<open>The database\<close>

text \<open>
  C1. A session refines a map: in a directory that was opened empty, used through \<open>Put\<close>, \<open>Delete\<close> and
  \<open>Get\<close> and reopened any number of times, the database holds exactly what the same operations make of
  the empty map, the caches agree with the files, and \<open>Get\<close> answers with the value the map has. The
  sessions meant are those with the plain codecs and the log switched off, which never read a value that
  starts a block (C3 shows what that returns) and never store the text \<open>__DELETED__\<close>, which
  \<open>processFile\<close> takes for a deletion at the next start; what they store fits into a record and
  into the data file.
\<close>

theorem session_refines_map:
  assumes "session P cfg db m" "session_env P cfg"
  shows "db_sound P db \<and> db_view P db = m \<and>
    (\<forall>k r db'. k \<noteq> [] \<and> unaligned db k \<and> Get P k db = (r, db') \<longrightarrow>
       get_answer P (wTicks (world db)) (wTicks (world db')) (m k) r \<and> session P cfg db' m)"
proof -
  have i: "db_sound P db" "db_view P db = m" using session_invariant [OF assms] by (simp_all add: plain_ready_def)
  have sha: "sha_separates (sha256 P)" using assms(2) by (simp add: session_env_def)
  have "get_answer P (wTicks (world db)) (wTicks (world db')) (m k) r \<and> session P cfg db' m"
    if g: "k \<noteq> []" "unaligned db k" "Get P k db = (r, db')" for k r db'
    using Get_answer(1) [OF i(1) sha g] session.looked_up [OF assms(1) g] by (simp add: i(2))
  then show ?thesis using i by blast
qed

theorem session_refines_map_witness:
  "db_sound sample32 one_db \<and> db_view sample32 one_db [107] = Some (Ok [118], 0)"
  using session_refines_map [OF one_db_ready(5) plain_env] by simp

text \<open>
  C2. Durability, with the log switched off and the plain codecs (C39 has the case with the log): when the
  index is what the data files say, opening the directory again succeeds and gives the same keys, values and
  expiry stamps, and caches that agree with the files.
\<close>

theorem restart_keeps_view:
  assumes "durable P db" "index_sound db" "smart db = None" "clock32 P" "\<not> EnableWAL cfg" "cfgSmart cfg = None"
    and "NewGojiDB P cfg (world db) = (r, db')"
  shows "r = Ok () \<and> db_sound P db' \<and> durable P db' \<and> db_view P db' = db_view P db"
proof -
  obtain db1 where "NewGojiDB P cfg (world db) = (Ok (), db1)" "db_sound P db1" "durable P db1"
    "db_view P db1 = db_view P db"
    by (rule restart_same_view_lemma [OF assms(1-6)]) (rule that; assumption)
  then show ?thesis using assms(7) by simp
qed

theorem restart_keeps_view_witness:
  "db_view sample32 (snd (NewGojiDB sample32 plain_cfg (world one_db))) [107] = Some (Ok [118], 0)"
proof -
  obtain r db' where n: "NewGojiDB sample32 plain_cfg (world one_db) = (r, db')" by (rule prod.exhaust)
  have "db_sound sample32 one_db" and s: "smart one_db = None"
    using one_db_ready(2) [of 0] by (simp_all add: plain_ready_def)
  then have "index_sound one_db" by (intro db_sound_index)
  from restart_keeps_view [OF one_db_ready(3) this s sample32_laws(4) _ _ n]
  show ?thesis by (simp add: n one_db_ready(4) plain_cfg_fields)
qed

text \<open>
  C39. Opening a directory with the log switched on: when the data files are those of a durable database and
  the log consists of whole records, the database holds what it held before, changed once more by every
  committed transaction that is still in the log. The log is never cut, so these are all transactions ever
  committed, and they overwrite what was stored after them.
\<close>

theorem restart_replays_log:
  assumes "durable P db" "index_sound db" "smart db = None" "clock32 P" "cfgSmart cfg = None"
    and "EnableWAL cfg" "0 < WALFlushInterval cfg" "order_ok P" "writes_ok P"
    and "contents WalName (wFiles (world db)) = concat (map (wal_frame P) recs)" "\<forall>x \<in> set recs. wal_ok P x"
    and "\<forall>x \<in> set recs. record_fits P cfg x" "room (sum_list (map (record_cost P cfg) recs) + n) db"
    and "NewGojiDB P cfg (world db) = (r, db')"
  shows "r = Ok () \<and> plain_ready P cfg n db' \<and>
    (\<exists>ts. distinct ts \<and> set ts = {t. committed recs t} \<and> db_view P db' = fold (logged_effect recs) ts (db_view P db))"
proof -
  obtain ts db1 where "NewGojiDB P cfg (world db) = (Ok (), db1)" "plain_ready P cfg n db1" "distinct ts"
    "set ts = {t. committed recs t}" "db_view P db1 = fold (logged_effect recs) ts (db_view P db)"
    by (rule restart_replays_committed [OF assms(1-13)])
  then show ?thesis using assms(14) by auto
qed

theorem restart_replays_log_witness:
  "db_view sample32 relogged_db [107] = Some (Ok [118], 0) \<and>
   db_view sample32 (snd (NewGojiDB sample32 logging_cfg (world relogged_db))) [107] = None"
proof -
  obtain r db' where d: "NewGojiDB sample32 logging_cfg (world relogged_db) = (r, db')" by (rule prod.exhaust)
  note ready = relogged_db_ready(1-3) sample32_laws(4)
  have cfg: "cfgSmart logging_cfg = None" "EnableWAL logging_cfg" "0 < WALFlushInterval logging_cfg"
    by (simp_all add: logging_cfg_def plain_cfg_fields)
  have "del_cost sample32 logging_cfg [107] = del_cost sample32 plain_cfg [107]" by (simp add: del_cost_def logging_cfg_def pack_def)
  then have "sum_list (map (record_cost sample32 logging_cfg) old_records) + 0 < 2 ^ 62"
    using sample_del_cost by (simp add: old_records_facts(5))
  note room = relogged_db_ready(4) [OF this]
  obtain ts where ts: "distinct ts" "set ts = {t. committed old_records t}"
    "db_view sample32 db' = fold (logged_effect old_records) ts (db_view sample32 relogged_db)"
    using restart_replays_log [OF ready cfg sample32_laws(2,3) relogged_db_ready(5) old_records_facts(1,2) room d] by blast
  have "ts = [[116]]" using ts(1,2) unfolding old_records_facts(3) by (rule singleton_list)
  then show ?thesis using ts(3) by (simp add: d old_records_facts(4) relogged_db_ready(6))
qed



text \<open>
  C4. The lookup of a key whose value does not start a block answers with what the database holds:
  \<open>ErrKeyNotFound\<close> for no entry, the expiry error exactly when the stamp is reached at a moment during the
  call, else the value. It keeps the keys, values and stamps, and the caches go on agreeing with the files; the
  contents of the caches and the metrics do change. C3 shows what a value that starts a block gives.
\<close>

theorem get_answers_from_view:
  assumes "db_sound P db" "sha_separates (sha256 P)" "k \<noteq> []" "unaligned db k" "Get P k db = (r, db')"
  shows "get_answer P (wTicks (world db)) (wTicks (world db')) (db_view P db k) r \<and>
    db_sound P db' \<and> db_view P db' = db_view P db"
  using Get_answer [OF assms] reads_view(1) by (blast dest: reads_sound)

theorem get_answers_from_view_witness:
  "fst (Get sample32 [107] fresh_db) = Err KeyNotFound"
proof -
  obtain r db' where g: "Get sample32 [107] fresh_db = (r, db')" by (rule prod.exhaust)
  have s: "db_sound sample32 fresh_db" using fresh_db_ready(2) [of 0] by (simp add: plain_ready_def)
  show ?thesis
    using get_answers_from_view [OF s sample32_laws(6) _ fresh_db_ready(7) g]
    by (simp add: fresh_db_ready(4) get_answer_def g)
qed

text \<open>
  C3. A value that was put is read back. Only the first read is right where the value starts a
  block of 4096 bytes: the second one finds that block in the cache under the position of the value and
  returns all of it, not decompressed, filled up with zeros.
\<close>

theorem put_then_get:
  assumes "plain_fits P cfg k v" "plain_ready P cfg (put_cost P cfg k v + n) db" "sha_separates (sha256 P)"
    and "Put P k v db = (r0, db1)" "Get P k db1 = (r1, db2)" "Get P k db2 = (r2, db3)"
    and "cm_Get (keyDir db1) k = Some kd" "length (fst (pack P cfg v)) \<le> 4096"
  shows "r0 = Ok () \<and> r1 = Ok v \<and>
    (4096 dvd unat (ValuePos kd) \<longrightarrow>
       r2 = Ok (fst (pack P cfg v) @ replicate (4096 - length (fst (pack P cfg v))) 0))"
proof -
  have "r0 = Ok ()" using plain_PutWithTTL [OF assms(1,2), of 0] assms(4) by (metis Put_def prod.inject)
  then show ?thesis
    using put_get [OF assms(1-4) _ assms(5)] put_get_aligned [OF assms(1-4,7) _ assms(5,6,8)] assms(7)
    by (cases "4096 dvd unat (ValuePos kd)") simp_all
qed

theorem put_then_get_witness:
  "\<exists>db1 db2 db3. Put sample32 [107] [118] padded_db = (Ok (), db1) \<and> Get sample32 [107] db1 = (Ok [118], db2) \<and>
     Get sample32 [107] db2 = (Ok ([0xf0, 118] @ replicate 4094 0), db3)"
proof -
  have fit: "plain_fits sample32 plain_cfg [107] [118]" by (rule sample_fits) simp
  have r: "plain_ready sample32 plain_cfg (put_cost sample32 plain_cfg [107] [118] + 0) padded_db"
    by (rule padded_db_ready(1)) (use sample_cost [of "[118]"] in simp)
  obtain r0 db1 where p: "Put sample32 [107] [118] padded_db = (r0, db1)" by (rule prod.exhaust)
  obtain r1 db2 where g1: "Get sample32 [107] db1 = (r1, db2)" by (rule prod.exhaust)
  obtain r2 db3 where g2: "Get sample32 [107] db2 = (r2, db3)" by (rule prod.exhaust)
  obtain kd where kd: "cm_Get (keyDir db1) [107] = Some kd" "4096 dvd unat (ValuePos kd)"
    using padded_put [OF p] by blast
  show ?thesis
    using put_then_get [OF fit r sample32_laws(6) p g1 g2 kd(1)] kd(2) p g1 g2
    by (simp add: sample_pack)
qed

text \<open>
  C5. \<open>PutWithTTL\<close> replaces the value and the stamp of its key and nothing else, keeps the agreement of
  caches, index and files, and stamps 0, now, or now plus the duration. This holds with any compressor:
  the new value is what decompressing the stored bytes yields.
\<close>

theorem put_updates_view:
  assumes "writes_ok P" "db_sound P db" "wal_ready db" "k \<noteq> []" "length k < 2 ^ 16"
    and "db_compress P v (bump (\<lambda>m. m\<lparr>TotalWrites := TotalWrites m + 1\<rparr>) db) = (Ok (z, a), db1)"
    and "length z < 2 ^ 32" "room (HeaderSize + length k + length z) db"
    and "PutWithTTL P k v ttl db = (r, db')"
  shows "r = Ok () \<and> db_sound P db' \<and> wal_ready db' \<and>
    (\<exists>x. stamp_ok P (wTicks (world db)) (wTicks (world db')) ttl x \<and>
       db_view P db' = (db_view P db)(k \<mapsto> (db_decompress P db z a, x)))"
proof -
  obtain db2 x where "PutWithTTL P k v ttl db = (Ok (), db2)" "db_sound P db2" "wal_ready db2"
    "db_view P db2 = (db_view P db)(k \<mapsto> (db_decompress P db z a, x))"
    "stamp_ok P (wTicks (world db)) (wTicks (world db2)) ttl x"
    by (rule put_refines [OF assms(1-8), of ttl]) (rule that; assumption)
  then show ?thesis using assms(9) by auto
qed

theorem put_updates_view_witness:
  "\<exists>x. x \<noteq> 0 \<and> db_view sample32 (snd (PutWithTTL sample32 [107] [118] 5000000000 fresh_db)) [107] = Some (Ok [118], x)"
proof -
  let ?db0 = "bump (\<lambda>m. m\<lparr>TotalWrites := TotalWrites m + 1\<rparr>) fresh_db"
  have s: "db_sound sample32 fresh_db" "wal_ready fresh_db" "room (HeaderSize + 1 + 2) fresh_db" "smart fresh_db = None"
    "config fresh_db = plain_cfg"
    using fresh_db_ready(2) [of "HeaderSize + 1 + 2"] by (simp_all add: plain_ready_def HeaderSize_def)
  obtain db1 where c: "db_compress sample32 [118] ?db0 = (Ok ([0xf0, 118], snd (pack sample32 plain_cfg [118])), db1)"
    using db_compress_plain [of ?db0 sample32 "[118]"] s(4,5) sample_pack [of "[118]"] by (metis bump_frame(1,5) list.simps(3) prod.collapse)
  obtain r db' where p: "PutWithTTL sample32 [107] [118] 5000000000 fresh_db = (r, db')" by (rule prod.exhaust)
  have d: "db_decompress sample32 fresh_db [0xf0, 118] (snd (pack sample32 plain_cfg [118])) = Ok [118]"
    using unpack [OF sample32_laws(1), of plain_cfg "[118]"] s(4) by (simp add: db_decompress_def sample_pack)
  obtain x where x: "stamp_ok sample32 (wTicks (world fresh_db)) (wTicks (world db')) 5000000000 x"
    "db_view sample32 db' = (db_view sample32 fresh_db)([107] \<mapsto> (Ok [118], x))"
    using put_updates_view [OF sample32_laws(3) s(1,2) _ _ c _ _ p] s(3) d by auto
  then obtain t where "x = unix32 (clock sample32 t + 5000000000)" by (auto simp: stamp_ok_def)
  then have "x \<noteq> 0" by (simp add: sample32_stamp)
  then show ?thesis using x(2) p by simp
qed

text \<open>
  C6. \<open>Delete\<close> takes its key out of the database and touches no other, also when the key was deleted
  before; only a key the index never had is refused.
\<close>

theorem delete_removes_key:
  assumes "k \<noteq> []" "plain_ready P cfg (del_cost P cfg k + n) db" "Delete P k db = (r, db')"
  shows "r = (if cm_Get (keyDir db) k = None then Err KeyNotFound else Ok ()) \<and> plain_ready P cfg n db' \<and>
    db_view P db' = (db_view P db)(k := None)"
proof -
  obtain r1 db1 where "Delete P k db = (r1, db1)" "plain_ready P cfg n db1" "db_view P db1 = (db_view P db)(k := None)"
    "r1 = (if cm_Get (keyDir db) k = None then Err KeyNotFound else Ok ())"
    by (rule plain_Delete [OF assms(1,2)]) (rule that; assumption)
  then show ?thesis using assms(3) by simp
qed

theorem delete_removes_key_witness:
  "db_view sample32 (snd (Delete sample32 [107] one_db)) = Map.empty"
proof -
  obtain r db' where d: "Delete sample32 [107] one_db = (r, db')" by (rule prod.exhaust)
  have r: "plain_ready sample32 plain_cfg (del_cost sample32 plain_cfg [107] + 0) one_db"
    by (rule one_db_ready(2)) (use sample_del_cost in simp)
  show ?thesis using delete_removes_key [OF _ r d] d by (simp add: one_db_ready(4))
qed

text \<open>
  C10. \<open>SetTTL\<close> changes the stamp of its key and neither its value nor any other key; a duration of zero or
  less takes the stamp away. A key that is absent or deleted is refused and nothing changes.
\<close>

theorem set_ttl_changes_stamp:
  assumes "db_sound P db" "SetTTL P k ttl db = (r, db')"
  shows "if db_view P db k = None then r = Err KeyNotFound \<and> db' = db
    else r = Ok () \<and> db_sound P db' \<and>
      (\<exists>v x y. db_view P db k = Some (v, y) \<and> db_view P db' = (db_view P db)(k \<mapsto> (v, x)) \<and>
         stamp_ok P (wTicks (world db)) (wTicks (world db')) (max 0 ttl) x)"
proof (cases "db_view P db k")
  case None
  then have "(r, db') = (Err KeyNotFound, db)"
    using assms(2) by (auto simp: SetTTL_def db_view_def split: option.splits if_splits)
  then show ?thesis using None by simp
next
  case (Some e)
  then obtain kd where kd: "live db k kd" "db_view P db k = Some (db_value P db kd, TTL kd)"
    by (auto simp: db_view_def live_def split: option.splits if_splits)
  note s = SetTTL_sound [OF assms(1) kd(1) assms(2)]
  then show ?thesis using kd(2) by auto
qed

theorem set_ttl_changes_stamp_witness:
  "db_view sample32 (snd (SetTTL sample32 [107] 0 one_db)) [107] = Some (Ok [118], 0)"
proof -
  obtain r db' where d: "SetTTL sample32 [107] 0 one_db = (r, db')" by (rule prod.exhaust)
  have s: "db_sound sample32 one_db" using one_db_ready(2) [of 0] by (simp add: plain_ready_def)
  show ?thesis using set_ttl_changes_stamp [OF s d] d by (auto simp: one_db_ready(4) stamp_ok_def)
qed

text \<open>
  C11. \<open>ListKeys\<close> lists, sorted and without repetition, the keys the database holds whose stamp is not in the
  past. A key is listed up to and including the second of its stamp, while \<open>Get\<close> refuses it in that second.
\<close>

theorem keys_listed_until_stamp:
  assumes "db_sound P db" "ListKeys P db = (ks, db')"
  shows "sorted ks \<and> distinct ks \<and>
    set ks = {k. \<exists>v x. db_view P db k = Some (v, x) \<and> (x = 0 \<or> unix32 (clock P (wTicks (world db))) \<le> x)} \<and>
    db_view P db' = db_view P db"
  using ListKeys_view [OF assms] reads_view(1) by (simp add: listed_def)

theorem keys_listed_until_stamp_witness: "fst (ListKeys sample32 one_db) = [[107]]"
proof -
  obtain ks db' where l: "ListKeys sample32 one_db = (ks, db')" by (rule prod.exhaust)
  have s: "db_sound sample32 one_db" using one_db_ready(2) [of 0] by (simp add: plain_ready_def)
  have k: "sorted ks" "distinct ks" "set ks = {[107]}"
    using keys_listed_until_stamp [OF s l] by (auto simp: one_db_ready(4) split: if_splits)
  have "ks = [[107]]" using k by (intro sorted_distinct_set_unique) simp_all
  then show ?thesis using l by simp
qed

text \<open>
  C12. \<open>GetTTL\<close> answers with the time from now to the stamp in nanoseconds, -1 for an entry without one, the
  expiry error from the second of the stamp on, and changes nothing.
\<close>

theorem remaining_time:
  assumes "db_sound P db" "GetTTL P k db = (r, db')"
  shows "r = ttl_answer (db_view P db k) (unix32 (clock P (wTicks (world db)))) \<and> db_view P db' = db_view P db"
  using GetTTL_view [OF assms] reads_view(1) by blast

theorem remaining_time_witness: "fst (GetTTL sample32 [107] one_db) = Ok (- 1)"
proof -
  obtain r db' where l: "GetTTL sample32 [107] one_db = (r, db')" by (rule prod.exhaust)
  have s: "db_sound sample32 one_db" using one_db_ready(2) [of 0] by (simp add: plain_ready_def)
  show ?thesis using remaining_time [OF s l] l by (simp add: one_db_ready(4) ttl_answer_def)
qed

text \<open>
  C7. \<open>Commit\<close> applies the operations of the transaction in their order: the database then holds what the
  operations, taken as map updates, make of it.
\<close>

theorem commit_applies_operations:
  assumes "\<forall>op \<in> set (operations tx). plain.admissible P cfg op"
    and "plain_ready P cfg (sum_list (map (plain.op_cost P cfg) (operations tx)) + n) db" "Commit P tx db = (r, db')"
  shows "r = Ok (tx\<lparr>operations := []\<rparr>) \<and> plain_ready P cfg n db' \<and>
    db_view P db' = fold op_effect (operations tx) (db_view P db)"
proof -
  obtain db1 where "Commit P tx db = (Ok (tx\<lparr>operations := []\<rparr>), db1)" "plain_ready P cfg n db1"
    "db_view P db1 = fold op_effect (operations tx) (db_view P db)"
    by (rule Commit_effects [OF assms(1,2)])
  then show ?thesis using assms(3) by simp
qed

theorem commit_applies_operations_witness:
  "db_view sample32 (snd (Commit sample32 (tx_Put [107] [118] (tx_Delete [107] (BeginTransaction [1]))) fresh_db)) [107] =
     Some (Ok [118], 0)"
proof -
  let ?tx = "tx_Put [107] [118] (tx_Delete [107] (BeginTransaction [1]))"
  obtain r db' where c: "Commit sample32 ?tx fresh_db = (r, db')" by (rule prod.exhaust)
  have ops: "operations ?tx = [\<lparr>opType = str ''DELETE'', opKey = [107], opValue = []\<rparr>,
      \<lparr>opType = str ''PUT'', opKey = [107], opValue = [118]\<rparr>]"
    by (simp add: tx_Put_def tx_Delete_def BeginTransaction_def)
  have a: "\<forall>op \<in> set (operations ?tx). plain.admissible sample32 plain_cfg op"
    unfolding ops by (simp add: plain.admissible_def sample_fits)
  have r: "plain_ready sample32 plain_cfg (sum_list (map (plain.op_cost sample32 plain_cfg) (operations ?tx)) + 0) fresh_db"
    unfolding ops
    by (rule fresh_db_ready(2)) (use sample_del_cost sample_cost [of "[118]"] in \<open>simp add: plain.op_cost_def\<close>)
  show ?thesis
    using commit_applies_operations [OF a r c] c by (simp add: ops op_effect_def fresh_db_ready(4))
qed

text \<open>
  C9. \<open>Recover\<close>, on a log of whole records, applies exactly those transactions of which a begin and a commit
  record and no rollback record are in the log: each of them once, in some order, with the effect of its put
  and delete records in the order of the log. Records without a transaction are passed over. Plain codecs.
\<close>

theorem recovery_applies_complete_transactions:
  assumes "wal db = Some m" "EnableWAL (walConfig m)" "order_ok P"
    and "map_of (wFiles (world db)) WalName = Some (concat (map (wal_frame P) recs))" "\<forall>x \<in> set recs. wal_ok P x"
    and "\<forall>x \<in> set recs. record_fits P cfg x" "plain_ready P cfg (sum_list (map (record_cost P cfg) recs) + n) db"
    and "Recover P db = (r, db')"
  shows "r = Ok () \<and> plain_ready P cfg n db' \<and>
    (\<exists>ts. distinct ts \<and> set ts = {t. committed recs t} \<and> db_view P db' = fold (logged_effect recs) ts (db_view P db))"
proof -
  obtain ts db1 where "Recover P db = (Ok (), db1)" "plain_ready P cfg n db1" "distinct ts" "set ts = {t. committed recs t}"
    "db_view P db1 = fold (logged_effect recs) ts (db_view P db)"
    by (rule Recover_committed [OF assms(1-7)])
  then show ?thesis using assms(8) by auto
qed

theorem recovery_applies_complete_transactions_witness:
  "db_view sample32 (snd (Recover sample32 logged_db)) = [[107] \<mapsto> (Ok [118], 0)]"
proof -
  obtain r db' where d: "Recover sample32 logged_db = (r, db')" by (rule prod.exhaust)
  have "sum_list (map (record_cost sample32 plain_cfg) tx_records) + 0 < 2 ^ 62"
    using sample_cost [of "[118]"] by (simp add: tx_records_def tx_record_def record_cost_def)
  note ready = logged_db_ready(1) [OF this]
  obtain ts where ts: "distinct ts" "set ts = {t. committed tx_records t}"
    "db_view sample32 db' = fold (logged_effect tx_records) ts (db_view sample32 logged_db)"
    using recovery_applies_complete_transactions [OF logged_db_wal logged_db_log(1) sample32_laws(2) logged_db_log(2)
        tx_records_ok tx_records_fit ready d] by blast
  have "ts = [[116]]" using ts(1,2) unfolding tx_records_committed by (rule singleton_list)
  then show ?thesis using ts(3) by (simp add: d tx_records_effect logged_db_ready(2))
qed

text \<open>
  C13. A cleanup pass deletes exactly the keys whose stamp has been reached and keeps all others.
\<close>

theorem cleanup_deletes_outdated:
  fixes P :: Platform and db :: GojiDB
  defines "now \<equiv> unix32 (clock P (wTicks (world db)))"
  defines "ks \<equiv> map fst (range_keys (\<lambda>kd. \<not> Deleted kd \<and> TTL kd > 0 \<and> now \<ge> TTL kd) db)"
  assumes "plain_ready P cfg (sum_list (map (del_cost P cfg) ks) + n) db" "cleanupExpiredKeys P db = (r, db')"
  shows "r = Ok () \<and> plain_ready P cfg n db' \<and>
    db_view P db' = (\<lambda>k. if outdated (db_view P db) now k then None else db_view P db k)"
  using cleanupExpiredKeys_view [of P cfg db n] assms by auto

theorem cleanup_deletes_outdated_witness:
  "db_view sample32 (snd (cleanupExpiredKeys sample32 expired_db)) = Map.empty"
proof -
  obtain x where x: "x \<noteq> 0" "x \<le> unix32 (clock sample32 (wTicks (world expired_db)))"
    "db_view sample32 expired_db = [[107] \<mapsto> (Ok [118], x)]" using expired_db_ready(2) by blast
  obtain r db' where d: "cleanupExpiredKeys sample32 expired_db = (r, db')" by (rule prod.exhaust)
  have s: "db_sound sample32 expired_db" using expired_db_ready(1) [of 0] by (simp add: plain_ready_def)
  let ?ks = "map fst (range_keys (\<lambda>kd. \<not> Deleted kd \<and> TTL kd > 0 \<and> unix32 (clock sample32 (wTicks (world expired_db))) \<ge> TTL kd) expired_db)"
  have "set ?ks \<subseteq> {[107]}"
  proof
    fix k assume "k \<in> set ?ks"
    then obtain kd where "live expired_db k kd"
      using range_keys_get(2) [OF db_soundD(1) [OF s]] by (auto simp: live_def)
    then have "db_view sample32 expired_db k \<noteq> None" by (simp add: db_view_def live_def)
    then show "k \<in> {[107]}" by (auto simp: x(3) split: if_splits)
  qed
  moreover have "distinct ?ks" by (rule range_keys_get(1) [OF db_soundD(1) [OF s]])
  ultimately have "?ks = [] \<or> ?ks = [[107]]"
    by (rule subset_one)
  then have "sum_list (map (del_cost sample32 plain_cfg) ?ks) < 2 ^ 62" using sample_del_cost by auto
  then have "plain_ready sample32 plain_cfg (sum_list (map (del_cost sample32 plain_cfg) ?ks) + 0) expired_db"
    by (intro expired_db_ready(1)) simp
  from cleanup_deletes_outdated [OF this d]
  show ?thesis using d x by (auto simp: outdated_def fun_eq_iff)
qed

section \<open>Records and data files\<close>

text \<open>C16. A record that was serialised is read back whole, whatever follows it in the file.\<close>

theorem entry_round_trip:
  assumes "entry_sized e"
  shows "readEntry (serializeEntry e @ rest) =
    (Ok (e, HeaderSize + length (eKey e) + length (eValue e)), rest)"
  using readEntry_serializeEntry [OF assms, of rest] assms by (simp add: entry_sized_def)

theorem entry_round_trip_witness:
  "readEntry (serializeEntry (mk_entry 5 0 1 (str ''k'') (str ''vv'')) @ [7]) =
    (Ok (mk_entry 5 0 1 (str ''k'') (str ''vv''), HeaderSize + 1 + 2), [7])"
  using entry_round_trip [of "mk_entry 5 0 1 (str ''k'') (str ''vv'')" "[7]"]
  by (simp add: mk_entry_def entry_sized_def str_def Let_def)

text \<open>
  C17. Whatever bytes a file holds, a record that \<open>readEntry\<close> returns has a key and a value of the sizes in
  its header, and the bytes it took are exactly those \<open>serializeEntry\<close> writes for it.
\<close>

theorem records_well_sized:
  assumes "readEntry bs = (Ok (e, n), r)"
  shows "entry_sized e \<and> bs = serializeEntry e @ r \<and> n = length (serializeEntry e)"
  using readEntry_image [OF assms] by blast

theorem records_well_sized_witness:
  "entry_sized (mk_entry 5 0 0 [1] [2])"
proof -
  have "entry_sized (mk_entry 5 0 0 [1] [2])" by (simp add: mk_entry_sized)
  from readEntry_serializeEntry [OF this, of "[]"] records_well_sized show ?thesis by blast
qed

text \<open>
  C18. When one byte of the key or the value of a good record changes in a data file, rebuilding
  the index skips that record and goes on with the next one.
\<close>

theorem corrupt_record_skipped:
  assumes "entry_sized e" "verifyCRC e" "serializeEntry e = pre @ b # post"
    and "HeaderSize \<le> length pre" "b \<noteq> b'"
  shows "process_entries P fid (pre @ b' # post @ rest) off db =
    process_entries P fid rest (off + int (length (serializeEntry e))) db"
  using assms by (rule process_flipped_byte)

theorem corrupt_record_skipped_witness:
  "\<exists>pre. serializeEntry (mk_entry 5 0 0 [1] [2]) = pre @ [2] \<and>
     (\<forall>db. process_entries sample 1 (pre @ [3] @ []) 0 db = process_entries sample 1 [] 21 db)"
proof -
  let ?e = "mk_entry 5 0 0 [1] [2]"
  define pre where "pre = put_u32 (eCRC ?e) @ put_u32 5 @ put_u32 0 @ put_u16 1 @ put_u32 1 @ [0] @ [1]"
  have s: "entry_sized ?e" "verifyCRC ?e" by (simp_all add: mk_entry_sized)
  have p: "serializeEntry ?e = pre @ 2 # []"
    by (simp add: pre_def serializeEntry_def mk_entry_def Let_def copy_field_def zero_fill_def)
  have "process_entries sample 1 (pre @ 3 # [] @ []) 0 db =
      process_entries sample 1 [] (0 + int (length (serializeEntry ?e))) db" for db
    by (rule corrupt_record_skipped [OF s p]) (simp_all add: pre_def HeaderSize_def)
  moreover have "length (serializeEntry ?e) = 21" by (simp add: mk_entry_def HeaderSize_def Let_def)
  ultimately show ?thesis using p by auto
qed

section \<open>Index and caches\<close>

text \<open>
  C19. The sharded index is a map: storing and deleting have the effect of a map update, whichever
  shards the keys fall into, and they keep its invariant; \<open>Range\<close> with a callback that never stops hands
  over every entry exactly once, and \<open>Size\<close> is their number.
\<close>

theorem index_is_a_map:
  assumes "cm_inv cm"
  shows "cm_inv (cm_Set k v cm) \<and> cm_Get (cm_Set k v cm) = (cm_Get cm)(k \<mapsto> v) \<and>
    cm_inv (cm_Delete k cm) \<and> cm_Get (cm_Delete k cm) = (cm_Get cm)(k := None) \<and>
    (\<exists>kvs. cm_Range (\<lambda>k kd acc. (True, acc @ [(k, kd)])) cm [] = kvs \<and> distinct (map fst kvs) \<and>
       map_of kvs = cm_Get cm \<and> cm_Size cm = length kvs)"
  using assms cm_Range_collects [OF assms] by (auto simp: cm.inv_set cm.inv_del cm.get_set cm.get_del fun_eq_iff)

theorem index_is_a_map_witness:
  "\<forall>kd. cm_Get (cm_Set (str ''a'') kd (NewConcurrentMap 16)) = [str ''a'' \<mapsto> kd]"
proof
  fix kd
  have "cm_Get (cm_Set (str ''a'') kd (NewConcurrentMap 16)) =
      (cm_Get (NewConcurrentMap 16))(str ''a'' \<mapsto> kd)"
    using index_is_a_map [OF cm.inv_new] by blast
  then show "cm_Get (cm_Set (str ''a'') kd (NewConcurrentMap 16)) = [str ''a'' \<mapsto> kd]"
    by (simp add: cm.get_new fun_eq_iff)
qed

text \<open>
  C20. The LRU cache behaves as the reference list, most recently used first: a hit moves to the
  front, a store displaces the last one when the capacity is reached, and the list never holds
  more than the capacity, or one entry for a capacity of zero.
\<close>

theorem lru_refines_reference:
  assumes "lru_inv c"
  shows "fst (lru_Get t k c) = map_of (lru_abs c) k \<and> lru_abs (snd (lru_Get t k c)) = spec_touch k (lru_abs c) \<and>
    lru_abs (lru_Set now k v fid pos sz ts c) = spec_set (capacity c) k v (lru_abs c) \<and>
    lru_abs (lru_Remove k c) = AList.delete k (lru_abs c) \<and>
    lru_inv (snd (lru_Get t k c)) \<and> lru_inv (lru_Set now k v fid pos sz ts c) \<and> lru_inv (lru_Remove k c) \<and>
    int (length (lru_abs c)) \<le> max 1 (capacity c)"
  using lru_Get_refines [OF assms] lru_Set_refines [OF assms] lru_Remove_refines(1,2) [OF assms]
    lru_invD(6) [OF assms] by simp

theorem lru_refines_reference_witness:
  "lru_abs (lru_Set 9 [2] [20] 1 0 1 0 (lru_Set 8 [1] [10] 1 0 1 0 (NewLRUCache 1))) = [([2], [20])]"
proof -
  let ?c = "lru_Set 8 [1] [10] 1 0 1 0 (NewLRUCache 1)"
  have "lru_inv ?c" "lru_abs ?c = spec_set (capacity (NewLRUCache 1)) [1] [10] (lru_abs (NewLRUCache 1))"
    using lru_refines_reference [OF lru_inv_new, of 0 "[1]" 1 8 "[10]" 1 0 1 0] by blast+
  moreover have "capacity ?c = 1" by code_simp
  ultimately show ?thesis
    using lru_refines_reference [of ?c 0 "[2]" 9 "[20]" 1 0 1 0]
    by (simp add: spec_set_def NewLRUCache_def lru_abs_def Let_def)
qed

text \<open>
  C21. The key cache gives back where a value lies and nothing else: expiry, compression, timestamp
  and the deletion mark of the entry that was stored are gone.
\<close>

theorem key_cache_forgets:
  assumes "lru_inv (kcCache kc)"
  shows "fst (GetKeyDir t' k (SetKeyDir t k kd kc)) =
    Some (kd\<lparr>Timestamp := 0, TTL := 0, Compression := NoCompression, Deleted := False\<rparr>)"
  using lru_Set_refines [OF assms] lru_Get_refines(1)
  by (simp add: GetKeyDir_def SetKeyDir_def split_beta spec_set_def Let_def decode_encode_KeyDir)

theorem key_cache_forgets_witness:
  "\<forall>kd. TTL (the (fst (GetKeyDir 0 [1] (SetKeyDir 0 [1] kd (NewKeyCache 4))))) = 0"
  by (subst key_cache_forgets) (simp_all add: NewKeyCache_def lru_inv_new)

section \<open>Compression\<close>

text \<open>
  C22. A value that the mixed mode compresses is restored exactly, whatever algorithm was chosen
  for each chunk.
\<close>

theorem mixed_mode_round_trip:
  assumes "codec_ok P" "compressMixedMode P data sc = (Ok (out, a), sc')" "length out < 2 ^ 63"
  shows "smart_Decompress P out = Ok data"
  by (rule compressMixedMode_decodes [OF assms(1,3,2)])

theorem mixed_mode_round_trip_witness:
  "\<exists>out sc'. compressMixedMode sample [97, 97, 97] (fst (NewSmartCompressor sample small_chunks empty_world)) =
     (Ok (out, MixedCompression), sc') \<and> smart_Decompress sample out = Ok [97, 97, 97]"
proof -
  let ?sc = "fst (NewSmartCompressor sample small_chunks empty_world)"
  let ?cs = "split_chunks (chunk_count (length [97, 97, 97 :: byte]) 2) 2 [97, 97, 97]"
  let ?out = "1 # concat (map (\<lambda>c. mixed_block 2 (compressWithAlgorithm sample c 2)) ?cs)"
  obtain sc' where r: "compressMixedMode sample [97, 97, 97] ?sc = (Ok (?out, MixedCompression), sc')"
    using compressMixedMode_fixed [of ?sc 2 2] small_chunks_sc small_chunks_fields by fastforce
  have "?cs = [[97, 97], [97]]" by (simp add: chunk_count_def split_chunks_def byte_slice_def upt_rec)
  then have "length ?out < 2 ^ 63"
    by (simp only:) (simp add: mixed_block_def compressWithAlgorithm_def sample_def show_nat_digit)
  then show ?thesis using mixed_mode_round_trip [OF sample_laws(1) r] r by blast
qed


text \<open>
  C23. The parallel mode restores the data when the chunks cover them, and only the covered part
  otherwise: with more chunks than workers the chunk size is rounded down, and the bytes after
  the last full chunk are lost.
\<close>

theorem parallel_mode_decodes_to_covered:
  assumes "codec_ok P" "compressParallel P data sc = (Ok (out, a), sc')"
    and "parallel_split P (scConfig sc) (length data) = (n, m)" "m < 2 ^ 32" "n < 2 ^ 32"
    and "\<forall>c b. length c \<le> n \<longrightarrow> length (compressWithAlgorithm P c b) < 2 ^ 32"
  shows "smart_Decompress P out = Ok (take (m * n) data)"
  using assms by (intro compressParallel_decodes(1)) auto

theorem parallel_mode_decodes_to_covered_witness:
  "\<exists>out sc'. compressParallel sample [97, 98, 99] two_workers = (Ok (out, ParallelCompression), sc') \<and>
     smart_Decompress sample out = Ok [97, 98]"
proof -
  have c: "scConfig two_workers = small_chunks\<lparr>ChunkSize := 1, MaxParallelism := 2\<rparr>"
    "scClosed two_workers = False" "scWorkers two_workers = 2"
    by (simp_all add: two_workers_def NewSmartCompressor_def split_beta max_workers_def small_chunks_def
        DefaultSmartCompressionConfig_def)
  have s: "parallel_split sample (scConfig two_workers) (length [97, 98, 99 :: byte]) = (1, 2)"
    by (simp add: c parallel_split_def chunk_count_def max_workers_def Let_def)
  have ad: "\<not> EnableAdaptive (scConfig two_workers)" by (simp add: c small_chunks_def)
  obtain out sc' where r: "compressParallel sample [97, 98, 99] two_workers = (Ok (out, ParallelCompression), sc')"
    using s ad by (simp add: compressParallel_def split_chunks_def upt_rec c
        selectBestAlgorithmWithContext_def Let_def)
  have "length (compressWithAlgorithm sample x b) < 2 ^ 32" if "length x \<le> 1" for x b
    using that by (simp add: compressWithAlgorithm_def sample_def)
  then have "smart_Decompress sample out = Ok (take (2 * 1) [97, 98, 99])"
    by (intro parallel_mode_decodes_to_covered [OF sample_laws(1) r s]) simp_all
  then show ?thesis using r by auto
qed

text \<open>
  C24. With codecs whose outputs can be told apart, what the smart compressor returns for a value
  is decoded to that value, on the cached, raw, single-algorithm and mixed paths alike: for values of at
  least four bytes that do not themselves look like compressed data, and which are no longer than a chunk or
  are stored with the mixed mode on. The parallel path is left out; C23 shows that it loses bytes.
\<close>

theorem smart_round_trip:
  assumes "codec_ok P" "formats_distinct P" "order_ok P" "sc_inv P sc"
    and "EnableMixedMode (scConfig sc) \<or> int (length data) \<le> ChunkSize (scConfig sc)"
    and "raw_safe P data" "4 \<le> length data" "length out < 2 ^ 63"
    and "CompressWithSmartChoice P data sc w = (Ok (out, a), sc', w')"
  shows "smart_Decompress P out = Ok data \<and> sc_inv P sc'"
  using smart_round_trip_lemma [OF assms(1-7,9,8)] smart_choice_path [OF assms(3,4,9)] by blast

theorem smart_round_trip_witness:
  "\<exists>out a. fst (CompressWithSmartChoice sample [97, 97, 97, 97] any_gain empty_world) = Ok (out, a) \<and>
     a = ZSTDCompression \<and> smart_Decompress sample out = Ok [97, 97, 97, 97]"
proof -
  obtain r sc' w' where run: "CompressWithSmartChoice sample [97, 97, 97, 97] any_gain empty_world = (r, sc', w')"
    by (rule prod_cases3)
  have r: "r = Ok ([40, 97, 97, 97, 97], ZSTDCompression)" using any_gain_compresses run by simp
  have "smart_Decompress sample [40, 97, 97, 97, 97] = Ok [97, 97, 97, 97] \<and> sc_inv sample sc'"
  proof (rule smart_round_trip [OF sample_laws(1,5,2) _ _ _ _ _ run [unfolded r]])
    show "sc_inv sample any_gain" unfolding any_gain_def by (rule sc_inv_new)
    show "EnableMixedMode (scConfig any_gain) \<or> int (length [97, 97, 97, 97 :: byte]) \<le> ChunkSize (scConfig any_gain)"
      by (simp add: any_gain_config)
    show "raw_safe sample [97, 97, 97, 97]" by (simp add: raw_safe_def sample_def strip_def)
  qed simp_all
  then show ?thesis using r run by auto
qed



text \<open>
  C26. Decoding returns a value or an error for every input that does not start with the marker of
  the mixed format; a mixed block with a negative size makes it panic.
\<close>

theorem decoder_returns_or_panics_on_negative_size:
  "(hd d \<noteq> 0x01 \<longrightarrow> smart_Decompress P d \<noteq> Panic \<and> smart_Decompress P d \<noteq> Blocked) \<and>
   smart_Decompress P (0x01 # str ''1:-5:'' @ rest) = Panic"
proof
  show "hd d \<noteq> 0x01 \<longrightarrow> smart_Decompress P d \<noteq> Panic \<and> smart_Decompress P d \<noteq> Blocked"
    using returns_smart_Decompress [of d P] by (auto simp: returns_def)
  have "parse_int [45, 53] = Ok (- 5)" by code_simp
  then show "smart_Decompress P (0x01 # str ''1:-5:'' @ rest) = Panic"
    by (simp add: smart_Decompress_def decompressMixedMode_def str_def) (simp add: mixed_decode.simps)
qed

theorem decoder_returns_or_panics_on_negative_size_witness:
  "smart_Decompress sample [7, 7] \<noteq> Panic \<and> smart_Decompress sample (0x01 # str ''1:-5:'' @ []) = Panic"
  using decoder_returns_or_panics_on_negative_size [of "[7, 7]" sample "[]"] by simp

text \<open>
  C27. The compressor's result cache stays within its size, and what it holds is what the codec of
  the recorded algorithm makes of the value.
\<close>

theorem compression_cache_sound:
  assumes "order_ok P" "sc_inv P sc" "CompressWithSmartChoice P data sc w = (Ok r, sc', w')"
  shows "int (length (ccEntries (scCache sc'))) \<le> ccSize (scCache sc') \<and>
    (\<forall>k z a. cc_get (scCache sc') k = Some (z, a) \<longrightarrow> z = compressWithAlgorithm P k a)"
proof -
  have "sc_inv P sc'" using smart_choice_path(1) [OF assms(1,2)] assms(3) by (cases r) blast
  then show ?thesis
    using cc_get_coherent by (auto simp: sc_inv_def cc_bounded_def)
qed

theorem compression_cache_sound_witness:
  "\<exists>sc'. fst (snd (CompressWithSmartChoice sample [97, 97, 97, 97] any_gain empty_world)) = sc' \<and>
     int (length (ccEntries (scCache sc'))) \<le> ccSize (scCache sc')"
proof -
  obtain r sc' w' where run: "CompressWithSmartChoice sample [97, 97, 97, 97] any_gain empty_world = (r, sc', w')"
    by (rule prod_cases3)
  have r: "r = Ok ([40, 97, 97, 97, 97], ZSTDCompression)" using any_gain_compresses run by simp
  have "sc_inv sample any_gain" unfolding any_gain_def by (rule sc_inv_new)
  from compression_cache_sound [OF sample_laws(2) this run [unfolded r]] show ?thesis by (simp add: run)
qed

section \<open>Write-ahead log\<close>

text \<open>
  C28. A transaction written to an open, empty, synchronously flushed log is in the file when the
  call returns, and reading the log back yields one transaction, complete, with exactly the
  operations that were written, in their order.
\<close>

theorem logged_transaction_is_replayable:
  assumes "writes_ok P" "wal_open m" "WALSyncWrites (walConfig m)" "wal_image m w = []"
    and "tx \<noteq> []" "\<forall>op \<in> set ops. op_ok op"
    and "\<forall>r. wrTxID r = tx \<and> wrChecksum r = 0 \<and> (wrKey r, wrValue r) \<in>
       insert ([], []) ((\<lambda>op. (opKey op, opValue op)) ` set ops) \<longrightarrow> wal_ok P r"
    and "WriteTransaction P tx ops m w = (r, m', w')"
  shows "r = Ok () \<and> (\<exists>recs. read_log P (contents WalName (wFiles w')) = Ok recs \<and>
    group_records recs = [(tx, recs)] \<and> tx_replayable recs \<and> tx_operations recs = ops)"
proof -
  obtain rs where rs: "tx_log tx ops rs" "wal_extends (concat (map (wal_frame P) rs)) m w (r, m', w')"
    using WriteTransaction_logs [OF assms(1,2), of tx ops w] assms(8) by (auto simp: logs_def)
  have "wbuf (walWriter m') = []" by (rule WriteTransaction_synced [OF assms(1-3,8)])
  then have c: "contents WalName (wFiles w') = concat (map (wal_frame P) rs)"
    using rs(2) assms(4) by (simp add: wal_extends_def wal_image_def)
  note t = tx_log_replayable [OF rs(1) assms(6)]
  have "wal_ok P x" if "x \<in> set rs" for x
    using tx_log_fields [OF rs(1) that] assms(7) by blast
  then have "read_log P (concat (map (wal_frame P) rs)) = Ok rs" by (intro read_log_frames) blast
  moreover have "rs \<noteq> []" using rs(1) by (auto simp: tx_log_def)
  ultimately show ?thesis
    using t c rs(2) group_records_single [OF t(3) assms(5)] by (simp add: wal_extends_def)
qed

theorem logged_transaction_is_replayable_witness:
  "\<exists>recs. read_log sample (contents WalName (wFiles (snd (snd
       (WriteTransaction sample [116] [\<lparr>opType = str ''PUT'', opKey = [107], opValue = [118]\<rparr>]
          (fst fresh_wal) (snd fresh_wal)))))) = Ok recs \<and>
     tx_operations recs = [\<lparr>opType = str ''PUT'', opKey = [107], opValue = [118]\<rparr>]"
proof -
  let ?ops = "[\<lparr>opType = str ''PUT'', opKey = [107], opValue = [118]\<rparr>]"
  obtain r m' w' where run: "WriteTransaction sample [116] ?ops (fst fresh_wal) (snd fresh_wal) = (r, m', w')"
    by (rule prod_cases3)
  have "\<exists>recs. read_log sample (contents WalName (wFiles w')) = Ok recs \<and>
      group_records recs = [([116], recs)] \<and> tx_replayable recs \<and> tx_operations recs = ?ops"
    by (rule conjunct2 [OF logged_transaction_is_replayable [OF sample_laws(3) fresh_wal_open _ _ _ run]])
      (auto simp: op_ok_def intro!: sample_wal_ok)
  then show ?thesis by (auto simp: run)
qed

text \<open>
  C29. A log whose last record was cut short is rejected as a whole: recovery returns an error and
  the complete transactions before it are not replayed.
\<close>

theorem torn_log_rejected:
  assumes "\<forall>r \<in> set rs. wal_ok P r" "wal_ok P r" "wal_frame P r = t @ u" "t \<noteq> []" "u \<noteq> []"
    and "wal db = Some m" "EnableWAL (walConfig m)"
    and "map_of (wFiles (world db)) WalName = Some (concat (map (wal_frame P) rs) @ t)"
  shows "\<exists>e. Recover P db = (Err e, db)"
  using read_log_torn [OF assms(1-5)] assms(6-8) by (auto simp: Recover_def)

theorem torn_log_rejected_witness: "\<exists>e. Recover sample torn_db = (Err e, torn_db)"
proof (rule torn_log_rejected [where rs = "[]" and r = torn_record and u = "drop 5 (wal_frame sample torn_record)"])
  have "5 < length (wal_frame sample torn_record)"
    by (simp add: wal_frame_def Let_def sample_def marshal_def wal_entry_def torn_record_def)
  then show "take 5 (wal_frame sample torn_record) \<noteq> []" "drop 5 (wal_frame sample torn_record) \<noteq> []" by auto
  show "wal_ok sample torn_record" by (rule sample_wal_ok) (simp_all add: torn_record_def)
  show "EnableWAL (walConfig (fst fresh_wal))" using fresh_wal_open(1) by (simp add: wal_open_def)
qed (simp_all add: torn_db_def)

section \<open>Expiry\<close>

text \<open>
  C30. The expiry heap is a map from keys to instants: \<open>Add\<close> and \<open>Remove\<close> update it, and processing
  hands over exactly the keys that are due, each once, the earliest first, and keeps the others.
\<close>

theorem expiry_heap_refines_map:
  assumes "ttl_inv h" "pop_expired now h = (ks, h')"
  shows "ttl_abs (heap_put k t h) = (ttl_abs h)(k \<mapsto> t) \<and> ttl_abs (heap_del k h) = (ttl_abs h)(k := None) \<and>
    set ks = {k. \<exists>t \<le> now. ttl_abs h k = Some t} \<and> distinct ks \<and>
    sorted (map (\<lambda>k. the (ttl_abs h k)) ks) \<and>
    ttl_inv (heap_put k t h) \<and> ttl_inv (heap_del k h) \<and> ttl_inv h' \<and>
    ttl_abs h' = (\<lambda>k. case ttl_abs h k of Some t \<Rightarrow> if t \<le> now then None else Some t | None \<Rightarrow> None)"
  using pop_expired_refines [OF assms] ttl.look_put [OF assms(1)] ttl.look_del [OF assms(1)]
    ttl.inv_put [OF assms(1)] ttl.inv_del [OF assms(1)] by blast

theorem expiry_heap_refines_map_witness:
  "set (fst (pop_expired 5 (heap_put [1] 3 (heap_put [2] 9 [])))) = {[1]}"
proof -
  obtain ks h' where p: "pop_expired 5 (heap_put [1] 3 (heap_put [2] 9 [])) = (ks, h')" by (rule prod.exhaust)
  have e: "ttl_inv []" by (simp add: ttl_inv_def)
  have i: "ttl_inv (heap_put [1] 3 (heap_put [2] 9 []))" by (intro ttl.inv_put e)
  have "ttl_abs [] = Map.empty" by (simp add: ttl_abs_def)
  then have "ttl_abs (heap_put [1] 3 (heap_put [2] 9 [])) = [[2] \<mapsto> 9, [1] \<mapsto> 3]"
    using ttl.look_put [OF ttl.inv_put [OF e], of "[1]" 3 "[2]" 9] ttl.look_put [OF e, of "[2]" 9] by (simp only:)
  moreover have "set ks = {k. \<exists>t \<le> 5. ttl_abs (heap_put [1] 3 (heap_put [2] 9 [])) k = Some t}"
    using expiry_heap_refines_map [OF i p] by blast
  moreover have "(\<exists>t \<le> 5. [[2] \<mapsto> 9, [1] \<mapsto> (3 :: instant)] k = Some t) \<longleftrightarrow> k = [1]" for k :: key
    by (cases "k = [1]"; cases "k = [2]") simp_all
  ultimately show ?thesis by (simp only: p fst_conv) blast
qed

text \<open>
  C31. With a punctual ticker the time wheel stops the timer of a key that was added, between two ticks, for
  one interval or more, before the timer can fire: in no run from then on is the key handed to the clean-up
  function by this timer, and at the instant at which it was due it does not run any more. Other keys may be
  added and removed, time may pass and timers may fire in any order in between.
\<close>

theorem wheel_stops_its_timers:
  assumes "wheel_reachable iv n s" "nextTick s < sysNow s + iv" "iv \<le> ttl"
    and "rtranclp wheel_step (s\<lparr>wheel := tw_Add (sysNow s) k ttl (wheel s)\<rparr>) s'"
  shows "twNext (wheel s) \<notin> fst ` set (fired s') \<and>
    (sysNow s + ttl \<le> sysNow s' \<longrightarrow> twNext (wheel s) \<notin> fst ` set (twTimers (wheel s')))"
  using added_never_fires [OF assms] by blast

theorem wheel_stops_its_timers_witness:
  "\<exists>s s'. wheel_reachable 2 4 s \<and> twNext (wheel s) = 0 \<and> sysNow s = 1 \<and> sysNow s' = 3 \<and>
     rtranclp wheel_step (s\<lparr>wheel := tw_Add 1 [107] 2 (wheel s)\<rparr>) s' \<and> 0 \<notin> fst ` set (fired s') \<and> 0 \<notin> fst ` set (twTimers (wheel s'))"
proof -
  define tw where "tw = \<lparr>twInterval = 2, twBuckets = replicate 4 ([] :: (key \<times> nat) list), twPos = 0, twTimers = [], twNext = 0\<rparr>"
  define s where "s = \<lparr>wheel = tw, nextTick = 2, sysNow = 1, fired = []\<rparr>"
  have "NewTimeWheel 2 4 = Ok tw" by (simp add: NewTimeWheel_def tw_def)
  from wheel_reachable.start [OF this, of 0] have "wheel_reachable 2 4 \<lparr>wheel = tw, nextTick = 2, sysNow = 0, fired = []\<rparr>" by simp
  from wheel_reachable.step [OF this wheel_step.passes [of _ 1]] have r: "wheel_reachable 2 4 s" by (simp add: s_def)
  let ?a = "s\<lparr>wheel := tw_Add (sysNow s) [107] 2 (wheel s)\<rparr>"
  let ?b = "?a\<lparr>sysNow := 2\<rparr>"
  let ?c = "?b\<lparr>wheel := tw_advance (wheel ?b), nextTick := nextTick ?b + twInterval (wheel ?b)\<rparr>"
  have iv: "twInterval (wheel ?b) = 2" by (simp add: s_def tw_def tw_Add_fields)
  have "wheel_step ?a ?b" using wheel_step.passes [of ?a 2] by (simp add: s_def)
  moreover have "wheel_step ?b ?c" using wheel_step.ticks [of ?b] by (simp add: s_def)
  moreover have "wheel_step ?c (?c\<lparr>sysNow := 3\<rparr>)" using wheel_step.passes [of ?c 3] iv by (simp add: s_def)
  ultimately have run: "rtranclp wheel_step ?a (?c\<lparr>sysNow := 3\<rparr>)" by (meson converse_rtranclp_into_rtranclp rtranclp.rtrancl_refl)
  have "nextTick s < sysNow s + 2" "sysNow s = 1" "twNext (wheel s) = 0" by (simp_all add: s_def tw_def)
  with wheel_stops_its_timers [OF r _ _ run] r run show ?thesis
    by (intro exI [of _ s] exI [of _ "?c\<lparr>sysNow := 3\<rparr>"]) simp
qed

section \<open>Locks and the work queue\<close>

text \<open>
  C32. Goroutines that lock and unlock keys: while one holds the write lock of a key, no other holds the
  lock of that key for writing or reading, in any interleaving; and unless all are outside, some goroutine
  can enter or leave, which brings the calls that were made nearer to their end.
\<close>

theorem sharded_lock_excludes:
  assumes "lock_reachable c n s" "c < 2 ^ 32"
  shows "(\<forall>i j w k. i < length (routines s) \<and> j < length (routines s) \<and> i \<noteq> j \<and> routines s ! i = Holds True k \<longrightarrow>
      routines s ! j \<noteq> Holds w k) \<and>
    ((\<exists>g \<in> set (routines s). g \<noteq> Outside) \<longrightarrow> (\<exists>t. lock_step s t \<and> pending_work t < pending_work s))"
  using writer_alone [OF lock_reachable_inv [OF assms]] lock_progress [OF lock_reachable_inv [OF assms]] by blast

theorem sharded_lock_excludes_witness:
  "\<exists>s. lock_reachable 4 2 s \<and> routines s ! 0 = Holds True [1] \<and> routines s ! 1 \<noteq> Holds False [1]"
proof -
  let ?s0 = "lock_start 4 2"
  let ?s1 = "?s0\<lparr>routines := (routines ?s0)[0 := Waits True [1]]\<rparr>"
  have "lock_step ?s0 ?s1" by (rule lock_step.calls) (simp_all add: lock_start_def)
  with lock_reachable.start have s1: "lock_reachable 4 2 ?s1" by (rule lock_reachable.step)
  obtain sl where sl: "acquire True [1] (theLock ?s1) = Ok sl"
    by (simp add: acquire_def sl_Lock_def on_shard_def lock_start_def NewShardedLock_def rw_Lock_def
        sl_getShard_def fnv32a_def fnv_step_def)
  let ?s2 = "?s1\<lparr>theLock := sl, routines := (routines ?s1)[0 := Holds True [1]]\<rparr>"
  have "lock_step ?s1 ?s2" by (rule lock_step.enters [OF _ _ sl]) (simp_all add: lock_start_def)
  with s1 have s2: "lock_reachable 4 2 ?s2" by (rule lock_reachable.step)
  have h: "routines ?s2 ! 0 = Holds True [1]" "length (routines ?s2) = 2" by (simp_all add: lock_start_def)
  have "routines ?s2 ! 1 \<noteq> Holds False [1]"
    by (rule sharded_lock_excludes [OF s2, THEN conjunct1, rule_format, of 0 1 "[1]"]) (simp_all only: h, simp_all)
  with s2 h(1) show ?thesis by blast
qed

text \<open>
  C33. The work queue: every interleaving of callers, workers and closers ends; the accepted tasks are those
  started so far, in this order, followed by those in the buffer, which keeps to its bound. When nothing moves
  any more, and unless the program has crashed (C34), every accepted task has been run exactly once, every
  call of \<open>Submit\<close> has returned, and after a \<open>Close\<close> all workers have left.
\<close>

theorem work_queue_completes:
  assumes "wq_reachable n ts c s"
  shows "wf {(t, s). wq_step s t} \<and> accepted s = started s @ workChan (queue s) \<and>
    length (workChan (queue s)) \<le> chanCap (queue s) \<and>
    (quiet s \<and> \<not> crashed s \<longrightarrow>
       started s = accepted s \<and> mset (finished s) = mset (accepted s) \<and>
       length (accepted s) = length (filter (\<lambda>c. c = Submitted True) (callers s)) \<and>
       (\<forall>q \<in> set (callers s). \<exists>b. q = Submitted b) \<and>
       (closers s \<noteq> [] \<longrightarrow> set (closers s) = {Closed} \<and> set (workers s) = {Exited}))"
proof -
  note i = wq_reachable_inv [OF assms]
  have "set (closers s) = {Closed} \<and> set (workers s) = {Exited}" if "quiet s" "\<not> crashed s" "closers s \<noteq> []"
    using quiet_closers [OF i that] that(3) by (metis list.set_intros(1) neq_Nil_conv subsetI subset_singletonD set_empty2 singletonI)
  then show ?thesis
    using wq_wf i quiet_finished [OF i] quiet_callers [of s] by (auto simp: wq_inv_def)
qed

theorem work_queue_completes_witness:
  "\<exists>s. wq_reachable 1 [Some 7] 1 s \<and> accepted s = [Some 7] \<and> mset (finished s) = {#Some 7#} \<and> set (workers s) = {Exited}"
proof -
  let ?s0 = "wq_start 1 [Some 7] 1"
  let ?s1 = "?s0\<lparr>callers := [Checked (Some 7)]\<rparr>"
  let ?s2 = "?s1\<lparr>queue := (queue ?s0)\<lparr>workChan := [Some 7]\<rparr>, accepted := [Some 7], callers := [Submitted True]\<rparr>"
  let ?s3 = "?s2\<lparr>queue := queue ?s0, started := [Some 7], workers := [Runs (Some 7)]\<rparr>"
  let ?s4 = "?s3\<lparr>finished := [Some 7], workers := [Receives]\<rparr>"
  let ?s5 = "?s4\<lparr>queue := (queue ?s0)\<lparr>wqClosed := True\<rparr>, closers := [FlagSet]\<rparr>"
  let ?s6 = "?s5\<lparr>queue := (queue ?s0)\<lparr>wqClosed := True, chanClosed := True\<rparr>, closers := [WaitsAll]\<rparr>"
  let ?s7 = "?s6\<lparr>queue := (queue ?s0)\<lparr>wqClosed := True, chanClosed := True, wg := 0\<rparr>, workers := [Exited]\<rparr>"
  let ?s8 = "?s7\<lparr>closers := [Closed]\<rparr>"
  note d = wq_start_def NewWorkQueue_def try_send_def Let_def
  have "wq_step ?s0 ?s1" using wq_step.caller [of ?s0 0] by (simp add: d)
  moreover have "wq_step ?s1 ?s2" using wq_step.caller [of ?s1 0] by (simp add: d)
  moreover have "wq_step ?s2 ?s3" using wq_step.worker [of ?s2 0] by (simp add: d)
  moreover have "wq_step ?s3 ?s4" using wq_step.worker [of ?s3 0] by (simp add: d)
  moreover have "wq_step ?s4 ?s5" using wq_step.closer [of ?s4 0] by (simp add: d)
  moreover have "wq_step ?s5 ?s6" using wq_step.closer [of ?s5 0] by (simp add: d)
  moreover have "wq_step ?s6 ?s7" using wq_step.worker [of ?s6 0] by (simp add: d)
  moreover have "wq_step ?s7 ?s8" using wq_step.closer [of ?s7 0] by (simp add: d)
  ultimately have r: "wq_reachable 1 [Some 7] 1 ?s8" by (meson wq_reachable.intros)
  have f: "accepted ?s8 = [Some 7]" "\<not> crashed ?s8" "closers ?s8 = [Closed]" by (simp_all add: d)
  have "quiet ?s8" unfolding quiet_def by (auto simp: d elim!: wq_step.cases)
  then show ?thesis using work_queue_completes [OF r] r f by (intro exI [of _ ?s8]) simp
qed

text \<open>
  C34. \<open>Submit\<close> reads the flag and sends in two steps. When a \<open>Close\<close> runs between them, the send meets a
  closed channel and panics.
\<close>

theorem submit_races_with_close:
  "\<exists>s. wq_reachable 1 [Some 7] 1 s \<and> crashed s \<and> accepted s = []"
proof -
  let ?s0 = "wq_start 1 [Some 7] 1"
  let ?s1 = "?s0\<lparr>callers := [Checked (Some 7)]\<rparr>"
  let ?s2 = "?s1\<lparr>queue := (queue ?s0)\<lparr>wqClosed := True\<rparr>, closers := [FlagSet]\<rparr>"
  let ?s3 = "?s2\<lparr>queue := (queue ?s2)\<lparr>chanClosed := True\<rparr>, closers := [WaitsAll]\<rparr>"
  let ?s4 = "?s3\<lparr>crashed := True, callers := [Submitted False]\<rparr>"
  note d = wq_start_def NewWorkQueue_def try_send_def Let_def
  have "wq_step ?s0 ?s1" using wq_step.caller [of ?s0 0 "Checked (Some 7)" ?s0] by (simp add: d)
  moreover have "wq_step ?s1 ?s2"
    using wq_step.closer [of ?s1 0 FlagSet "?s1\<lparr>queue := (queue ?s1)\<lparr>wqClosed := True\<rparr>\<rparr>"] by (simp add: d)
  moreover have "wq_step ?s2 ?s3"
    using wq_step.closer [of ?s2 0 WaitsAll "?s2\<lparr>queue := (queue ?s2)\<lparr>chanClosed := True\<rparr>\<rparr>"] by (simp add: d)
  moreover have "wq_step ?s3 ?s4"
    using wq_step.caller [of ?s3 0 "Submitted False" "?s3\<lparr>crashed := True\<rparr>"] by (simp add: d)
  ultimately have "wq_reachable 1 [Some 7] 1 ?s4"
    by (rule wq_reachable.step [OF wq_reachable.step [OF wq_reachable.step [OF wq_reachable.step [OF wq_reachable.start]]]])
  moreover have "crashed ?s4" "accepted ?s4 = []" by (simp_all add: d)
  ultimately show ?thesis by blast
qed

text \<open>
  C35. The check value of a record is the CRC-32 of its definition: the table-driven update, one look-up for
  each byte, gives what a shift register with the reflected polynomial gives bit after bit.
\<close>

theorem checksum_is_bitwise_crc: "CRC32_Checksum data = crc_bitwise data"
  by (simp add: CRC32_Checksum_def CRC32_Sum32_def CRC32_Update_def crc_bitwise_def crc_message_bits)

text \<open>
  C36. Whatever was given back to the buffer pool before, a buffer taken for \<open>n\<close> bytes has room for them. It
  has 1024 bytes for a request of at most 1024, less than four times the request above that, and exactly
  the request above the largest class, 1 MiB.
\<close>

theorem buffers_fit:
  assumes "GetBuffer pick n (pool_used ops NewAdaptiveBufferPool) = (b, ap)"
  shows "n \<le> int (length b) \<and> (1024 < n \<longrightarrow> int (length b) < 4 * n) \<and> (n \<le> 1024 \<longrightarrow> length b = 1024) \<and>
    (1048576 < n \<longrightarrow> int (length b) = n)"
  by (rule GetBuffer_size [OF pool_used_inv assms])

theorem buffers_fit_witness:
  "length (fst (GetBuffer (Some 0) 2000 (pool_used [Inl (replicate 4096 7), Inl [1]] NewAdaptiveBufferPool))) < 8000"
proof -
  obtain b ap where g: "GetBuffer (Some 0) 2000 (pool_used [Inl (replicate 4096 7), Inl [1]] NewAdaptiveBufferPool) = (b, ap)"
    by (rule prod.exhaust)
  show ?thesis using buffers_fit [OF g] by (simp add: g)
qed

text \<open>
  C8. \<open>BatchPut\<close> is the sequence of map updates of its items in the order in which the map is visited; items
  with an empty key are skipped, and no item has an expiry. A batch that fits keeps the index sound.
\<close>

theorem batch_put_updates_view:
  assumes "\<forall>(k, v) \<in> set kvs. k \<noteq> [] \<longrightarrow> plain_fits P cfg k v"
    and "batch_ready P cfg (sum_list (map (\<lambda>(k, v). put_cost P cfg k v) kvs) + n) db"
  shows "\<exists>db'. BatchPut P kvs db = (Ok (), db') \<and> batch_ready P cfg n db' \<and> db_view P db' = put_all kvs (db_view P db)"
  by (rule BatchPut_view [OF assms])

theorem batch_put_updates_view_witness:
  "db_view sample32 (snd (BatchPut sample32 [([107], [1]), ([], [2]), ([107], [3])] fresh_db)) = [[107] \<mapsto> (Ok [3], 0)]"
proof -
  let ?kvs = "[([107], [1]), ([], [2]), ([107], [3])] :: (key \<times> bytes) list"
  have fit: "\<forall>(k, v) \<in> set ?kvs. k \<noteq> [] \<longrightarrow> plain_fits sample32 plain_cfg k v" by (simp add: sample_fits)
  have r: "batch_ready sample32 plain_cfg (sum_list (map (\<lambda>(k, v). put_cost sample32 plain_cfg k v) ?kvs) + 0) fresh_db"
    by (rule plain_ready_batch [OF fresh_db_ready(2)]) (simp add: put_cost_def sample_pack HeaderSize_def)
  from batch_put_updates_view [OF fit r] show ?thesis by (auto simp: put_all_def fresh_db_ready(4))
qed

text \<open>
  C14. A batch leaves the block cache as it is. A value that it stores in a block which an earlier read has
  cached is read from the stale block: \<open>Get\<close> decodes zeros instead of what was stored, and the database
  itself holds the value.
\<close>

theorem batch_overwrite_reads_zeros:
  assumes "plain_fits P cfg k v1" "plain_fits P cfg k v2" "sha_separates (sha256 P)"
    and "plain_ready P cfg (put_cost P cfg k v1 + (put_cost P cfg k v2 + n)) db"
    and "file_of db (activeFileID db) = Some c"
    and "int (length c + put_cost P cfg k v1 + (length v2 + HeaderSize + length k)) \<le> MaxFileSize cfg"
    and "p = length c + (HeaderSize + length k)" "\<not> 4096 dvd p"
    and "p + put_cost P cfg k v1 + length (fst (pack P cfg v2)) < p div 4096 * 4096 + 4096"
    and "Put P k v1 db = (r0, db1)" "Get P k db1 = (r1, db2)" "BatchPut P [(k, v2)] db2 = (r2, db3)" "Get P k db3 = (r3, db4)"
  shows "r1 = Ok v1 \<and> r2 = Ok () \<and> db_view P db3 k = Some (Ok v2, 0) \<and>
    r3 = decompressChunk P (replicate (length (fst (pack P cfg v2))) 0) (snd (pack P cfg v2))"
  using overwritten_reads_zeros [OF assms] by blast

theorem batch_overwrite_reads_zeros_witness:
  "\<exists>r0 db1 r1 db2 r2 db3 r3 db4. Put sample32 [107] [1] fresh_db = (r0, db1) \<and> Get sample32 [107] db1 = (r1, db2) \<and>
     BatchPut sample32 [([107], [2])] db2 = (r2, db3) \<and> Get sample32 [107] db3 = (r3, db4) \<and> r1 = Ok [1] \<and> r3 \<noteq> Ok [2]"
proof -
  obtain r0 db1 r1 db2 r2 db3 r3 db4 where run: "Put sample32 [107] [1] fresh_db = (r0, db1)" "Get sample32 [107] db1 = (r1, db2)"
    "BatchPut sample32 [([107], [2])] db2 = (r2, db3)" "Get sample32 [107] db3 = (r3, db4)"
    by (metis prod.exhaust)
  let ?cost = "put_cost sample32 plain_cfg [107]"
  have cost: "?cost [v] = HeaderSize + 3" for v by (simp add: put_cost_def sample_pack)
  have r: "plain_ready sample32 plain_cfg (?cost [1] + (?cost [2] + 0)) fresh_db"
    by (rule fresh_db_ready(2)) (simp add: cost HeaderSize_def)
  have f: "file_of fresh_db (activeFileID fresh_db) = Some []" by (rule fresh_file)
  have "r1 = Ok [1] \<and> r2 = Ok () \<and> db_view sample32 db3 [107] = Some (Ok [2], 0) \<and>
    r3 = decompressChunk sample32 (replicate (length (fst (pack sample32 plain_cfg [2]))) 0) (snd (pack sample32 plain_cfg [2]))"
    by (rule batch_overwrite_reads_zeros [OF sample_fits sample_fits _ r f _ refl _ _ run])
      (simp_all add: cost sample_pack HeaderSize_def plain_cfg_fields sample32_laws)
  moreover have "decompressChunk sample32 (replicate (length (fst (pack sample32 plain_cfg [2]))) 0) (snd (pack sample32 plain_cfg [2])) \<noteq> Ok [2]"
    by (simp add: sample_pack pack_def performStandardCompress_def plain_cfg_def createDefaultConfig_def sample32_def sample_def
        decompressChunk_def strip_def of_option_def numeral_2_eq_2)
  ultimately show ?thesis using run by metis
qed

section \<open>The interactive mode\<close>

lemma sample_words:
  "TrimSpace (str ''help'') = str ''help''" "Fields (str ''help'') = [str ''help'']" "command_word sample_env [str ''help''] = str ''help''"
  "TrimSpace (str ''exit'') = str ''exit''" "Fields (str ''exit'') = [str ''exit'']" "command_word sample_env [str ''exit''] = str ''exit''"
proof -
  have w: "plain_word (str ''help'')" "plain_word (str ''exit'')" by (simp_all add: plain_word_def str_def IsSpace_def)
  show "TrimSpace (str ''help'') = str ''help''" "TrimSpace (str ''exit'') = str ''exit''"
    using TrimSpace_words [of "[str ''help'']"] TrimSpace_words [of "[str ''exit'']"] w by simp_all
  show "Fields (str ''help'') = [str ''help'']" "Fields (str ''exit'') = [str ''exit'']"
    using Fields_join [of "[str ''help'']"] Fields_join [of "[str ''exit'']"] w by simp_all
  show "command_word sample_env [str ''help''] = str ''help''" "command_word sample_env [str ''exit''] = str ''exit''"
    by (simp_all add: command_word_def ToLower_word str_def)
qed

text \<open>
  C37. The history holds at most 100 lines. A session that ends normally and never enters one of the modes that
  read lines of their own (\<open>batch\<close>, \<open>transaction\<close>, \<open>restore\<close>) leaves exactly the last 100 of the lines it was
  loaded with followed by the command lines typed, blank ones and the one that leaves apart. Unless a command
  never returns, that history is in the file at the end.
\<close>

theorem history_keeps_last_commands:
  assumes "cli_run E P c = (r, c')" "length (entries c) \<le> 100"
  shows "length (entries c') \<le> 100 \<and>
    (r = Done \<and> no_modes E (typed c) \<longrightarrow> entries c' = last_100 (entries c @ command_lines E (typed c))) \<and>
    (\<forall>data. r \<noteq> Hang \<and> historyMarshal E (entries c') = Some data \<and> canWrite E HistoryFile \<longrightarrow>
       map_of (outside c') HistoryFile = Some data)"
proof (intro conjI impI allI)
  show "length (entries c') \<le> 100" using cli_run_bound [OF assms(2), of E P] assms(1) by simp
  assume "r = Done \<and> no_modes E (typed c)"
  then have "entries c' = fold history_add (command_lines E (typed c)) (entries c)"
    using cli_run_history [of E c P] assms(1) by simp
  then show "entries c' = last_100 (entries c @ command_lines E (typed c))" by (simp add: history_adds_last [OF assms(2)])
next
  fix data assume "r \<noteq> Hang \<and> historyMarshal E (entries c') = Some data \<and> canWrite E HistoryFile"
  then show "map_of (outside c') HistoryFile = Some data" using cli_run_saved [of E P c data] assms(1) by simp
qed

theorem history_keeps_last_commands_witness:
  "entries (snd (cli_run sample_env sample32 (newInteractiveCLI sample_env [str ''help'', str ''exit''] [] fresh_db))) = [str ''help'']"
proof -
  let ?c = "newInteractiveCLI sample_env [str ''help'', str ''exit''] [] fresh_db"
  have typed: "typed ?c = [str ''help'', str ''exit'']" "entries ?c = []" by (simp_all add: newInteractiveCLI_def history_load_def)
  obtain r c' where run: "cli_run sample_env sample32 ?c = (r, c')" by (rule prod.exhaust)
  have ex: "str ''exit'' \<in> set exit_words" and he: "str ''help'' \<notin> set exit_words" by (simp_all add: exit_words_def str_def)
  have ne: "str ''help'' \<noteq> []" "str ''exit'' \<noteq> []" by (simp_all add: str_def)
  have h: "map_of (commandRegistry sample_env sample32) (str ''help'') = Some (\<lambda>ps. handleHelp)"
    unfolding commandRegistry_def map_of_str by simp
  have hlp: "executeCommand sample_env sample32 (str ''help'') c = (Done, say ''help'' [] (c\<lparr>entries := history_add (str ''help'') (entries c)\<rparr>))" for c
    unfolding executeCommand_def sample_words Let_def h by (simp add: he handleHelp_def tell_def)
  have "fst (cli_run sample_env sample32 c) = Done" if "typed c = [str ''exit'']" for c
  proof -
    obtain t c1 where n: "cli_now sample32 c = (t, c1)" by (rule prod.exhaust)
    show ?thesis
      using cli_run_command [OF n that, unfolded sample_words, OF ne(2) executeCommand_exit] sample_words ex by simp
  qed
  then have rest: "fst (cli_run sample_env sample32 (c\<lparr>typed := [str ''exit''], entries := es, shown := ms\<rparr>)) = Done" for c es ms
    by simp
  obtain t c1 where n: "cli_now sample32 ?c = (t, c1)" by (rule prod.exhaust)
  have "fst (cli_run sample_env sample32 ?c) = Done"
    unfolding cli_run_command [OF n typed(1), unfolded sample_words, OF ne(1) hlp] by (simp add: say_def rest)
  then have fin: "r = Done" by (simp add: run)
  have m: "no_modes sample_env (typed ?c)" using sample_words he by (simp add: no_modes_def typed reading_words_def) (simp add: str_def)
  have "command_lines sample_env (typed ?c) = [str ''help'']"
    by (simp add: command_lines_def typed sample_words ex he)
  then show ?thesis using history_keeps_last_commands [OF run] typed(2) fin m run by (simp add: last_100_short)
qed

text \<open>
  C38. The command \<open>put\<close> with an expiry stores the text of the expiry as a part of the value: after
  \<open>put k w d\<close> the database holds \<open>w d\<close> under \<open>k\<close>, with the stamp that \<open>d\<close> asks for.
\<close>

theorem typed_put_keeps_expiry_text:
  assumes "plain_word k" "plain_word w" "plain_word d" "ParseDuration d = Some ttl" "v = trim_quotes (w @ 0x20 # d)"
    and "plain_fits P cfg k v" "plain_ready P cfg (put_cost P cfg k v + n) (cliDB c)"
  shows "\<exists>c' x. executeCommand E P (join_blank [str ''put'', k, w, d]) c = (Done, c') \<and>
    db_view P (cliDB c') = (db_view P (cliDB c))(k \<mapsto> (Ok v, x)) \<and>
    stamp_ok P (wTicks (world (cliDB c))) (wTicks (world (cliDB c'))) ttl x"
proof -
  let ?ps = "[str ''put'', k, w, d]"
  let ?c1 = "c\<lparr>entries := history_add (join_blank ?ps) (entries c)\<rparr>"
  have f: "Fields (join_blank ?ps) = ?ps" by (rule Fields_join) (simp add: assms(1-3) command_words)
  have e: "str ''put'' \<notin> set exit_words" by (simp add: exit_words_def str_def)
  have h: "map_of (commandRegistry E P) (str ''put'') = Some (handlePut P)" by (simp add: commandRegistry_def str_def)
  have "executeCommand E P (join_blank ?ps) c = handlePut P ?ps ?c1"
    unfolding executeCommand_def f Let_def command_word_def list.sel command_words h using e by simp
  moreover have "plain_ready P cfg (put_cost P cfg k v + n) (cliDB ?c1)" using assms(7) by simp
  ultimately show ?thesis
    using handlePut_typed [OF assms(6) _, of n ?c1 ?ps ttl] assms(4,5) by (auto simp: numeral_3_eq_3 numeral_2_eq_2)
qed

theorem typed_put_keeps_expiry_text_witness:
  "\<exists>c' x. executeCommand sample_env sample32 (join_blank [str ''put'', [107], [118], str ''10s''])
       (newInteractiveCLI sample_env [] [] fresh_db) = (Done, c') \<and>
     db_view sample32 (cliDB c') [107] = Some (Ok (str ''v 10s''), x)"
proof -
  let ?c = "newInteractiveCLI sample_env [] [] fresh_db"
  have w: "plain_word [107]" "plain_word [118]" "plain_word (str ''10s'')" by (simp_all add: plain_word_def IsSpace_def str_def)
  have v: "str ''v 10s'' = trim_quotes ([118] @ 0x20 # str ''10s'')" by (simp add: str_def trim_quotes_def trim_with_def)
  have fit: "plain_fits sample32 plain_cfg [107] (str ''v 10s'')" by (rule sample_fits) (simp add: str_def)
  have r: "plain_ready sample32 plain_cfg (put_cost sample32 plain_cfg [107] (str ''v 10s'') + 0) (cliDB ?c)"
    using fresh_db_ready(2) [of "put_cost sample32 plain_cfg [107] (str ''v 10s'')"] sample_cost [of "str ''v 10s''"]
    by (simp add: newInteractiveCLI_def str_def)
  show ?thesis using typed_put_keeps_expiry_text [OF w ParseDuration_sample(1) v fit r, of sample_env] by auto
qed

text \<open>
  C15. A typed transaction: after the lines of \<open>put\<close> and \<open>del\<close> and a \<open>commit\<close>, the database holds what these
  operations make of it, the lines behind the \<open>commit\<close> are still to be typed, and the history is as before.
\<close>

theorem typed_transaction_commits:
  assumes "\<forall>op \<in> set ops. typable op \<and> plain.admissible P cfg op"
    and "plain_ready P cfg (sum_list (map (plain.op_cost P cfg) ops) + n) (cliDB c)"
    and "typed c = map typed_op ops @ str ''commit'' # ls"
  shows "\<exists>c'. handleTransaction E P c = (Done, c') \<and> typed c' = ls \<and> entries c' = entries c \<and>
    plain_ready P cfg n (cliDB c') \<and> db_view P (cliDB c') = fold op_effect ops (db_view P (cliDB c))"
proof -
  let ?tx = "BeginTransaction (randomBytes E (cli_ticks c))"
  let ?c1 = "say ''transaction begun'' [Txt (txId ?tx)] c"
  let ?tx1 = "?tx\<lparr>operations := operations ?tx @ ops\<rparr>"
  have o: "operations ?tx1 = ops" by (simp add: BeginTransaction_def)
  have d: "cliDB ?c1 = cliDB c" by (simp add: say_def)
  obtain db' where c: "Commit P ?tx1 (cliDB c) = (Ok (?tx1\<lparr>operations := []\<rparr>), db')" "plain_ready P cfg n db'"
    "db_view P db' = fold op_effect ops (db_view P (cliDB c))"
    using Commit_effects [of ?tx1 P cfg n "cliDB c"] assms(1,2) unfolding o by auto
  have "\<exists>msgs. tx_loop E P (map typed_op ops @ str ''commit'' # ls) ?tx ?c1 =
      (Done, ?c1\<lparr>cliDB := db', typed := ls, shown := shown ?c1 @ msgs\<rparr>)"
    by (rule tx_loop_typed) (use assms(1) c(1) d in auto)
  then show ?thesis using assms(3) c(2,3) by (auto simp: handleTransaction_def Let_def say_def)
qed

theorem typed_transaction_commits_witness:
  "\<exists>c'. handleTransaction sample_env sample32 (newInteractiveCLI sample_env [str ''put k v'', str ''commit'', str ''exit''] [] fresh_db) = (Done, c') \<and>
     typed c' = [str ''exit''] \<and> db_view sample32 (cliDB c') = [[107] \<mapsto> (Ok [118], 0)]"
proof -
  let ?c = "newInteractiveCLI sample_env [str ''put k v'', str ''commit'', str ''exit''] [] fresh_db"
  let ?op = "\<lparr>opType = str ''PUT'', opKey = [107], opValue = [118]\<rparr>"
  have a: "\<forall>op \<in> set [?op]. typable op \<and> plain.admissible sample32 plain_cfg op"
    by (simp add: plain.admissible_def sample_fits typable_def plain_word_def IsSpace_def trim_quotes_def trim_with_def)
  have "plain.op_cost sample32 plain_cfg ?op < 2 ^ 62" using sample_cost [of "[118]"] by (simp add: plain.op_cost_def)
  then have r: "plain_ready sample32 plain_cfg (sum_list (map (plain.op_cost sample32 plain_cfg) [?op]) + 0) (cliDB ?c)"
    using fresh_db_ready(2) by (simp add: newInteractiveCLI_def)
  have t: "typed ?c = map typed_op [?op] @ str ''commit'' # [str ''exit'']"
    by (simp add: newInteractiveCLI_def typed_op_def str_def)
  from typed_transaction_commits [OF a r t, of sample_env] show ?thesis
    by (auto simp: op_effect_def newInteractiveCLI_def fresh_db_ready(4))
qed

end
